(* ===== verification/Prelude.thy ===== *)
theory Prelude
  imports Main "HOL-Library.Word" "HOL-Library.Monad_Syntax" "HOL-Library.Multiset"
begin

unbundle bit_operations_syntax

text \<open>
  Shared vocabulary of the development: the machine-integer types the kernel headers use, the
  errno values the modelled functions return, the two theorem collections that carry the
  component proofs, and the generic list lemmas (descending order under a key, removal of one
  element) that the queue and scheduler theories need.
\<close>

section \<open>Types and return codes\<close>

type_synonym u8 = "8 word"
type_synonym i16 = "16 word"
type_synonym u32 = "32 word"
type_synonym i32 = "32 word"
type_synonym u64 = "64 word"

text \<open>Return codes are C \<open>int\<close> values; errors are negated errno numbers.\<close>

abbreviation OK :: int where "OK \<equiv> 0"
abbreviation ERROR :: int where "ERROR \<equiv> - 1"
abbreviation EPERM :: int where "EPERM \<equiv> 1"
abbreviation ESRCH :: int where "ESRCH \<equiv> 3"
abbreviation EINTR :: int where "EINTR \<equiv> 4"
abbreviation EAGAIN :: int where "EAGAIN \<equiv> 11"
abbreviation EINVAL :: int where "EINVAL \<equiv> 22"
abbreviation ENOMEM :: int where "ENOMEM \<equiv> 12"
abbreviation ENOSYS :: int where "ENOSYS \<equiv> 38"
abbreviation EOVERFLOW :: int where "EOVERFLOW \<equiv> 75"
abbreviation ETIMEDOUT :: int where "ETIMEDOUT \<equiv> 110"

named_theorems heap_simps \<open>reads after writes on the pointer heaps\<close>
named_theorems frame_simps \<open>fields an operation does not write\<close>

section \<open>Removing one element\<close>

lemma remove1_split: "x \<notin> set xs \<Longrightarrow> remove1 x (xs @ x # ys) = xs @ ys"
  by (simp add: remove1_append)

lemma distinct_split_remove1:
  "distinct (xs @ x # ys) \<Longrightarrow> remove1 x (xs @ x # ys) = xs @ ys"
  by (simp add: remove1_split)

section \<open>Lists in descending order of a key\<close>

definition desc :: "('a \<Rightarrow> 'b::linorder) \<Rightarrow> 'a list \<Rightarrow> bool" where
  "desc f xs \<longleftrightarrow> sorted_wrt (\<lambda>a b. f b \<le> f a) xs"

lemma desc_Nil [simp]: "desc f []"
  by (simp add: desc_def)

lemma desc_Cons [simp]: "desc f (x # xs) \<longleftrightarrow> (\<forall>y \<in> set xs. f y \<le> f x) \<and> desc f xs"
  by (simp add: desc_def)

lemma desc_append:
  "desc f (xs @ ys) \<longleftrightarrow> desc f xs \<and> desc f ys \<and> (\<forall>x \<in> set xs. \<forall>y \<in> set ys. f y \<le> f x)"
  by (auto simp: desc_def sorted_wrt_append)

lemma desc_remove1: "desc f xs \<Longrightarrow> desc f (remove1 x xs)"
  by (induction xs) (auto dest: notin_set_remove1 set_remove1_subset [THEN subsetD])

lemma desc_cong: "(\<And>x. x \<in> set xs \<Longrightarrow> f x = g x) \<Longrightarrow> desc f xs = desc g xs"
  by (induction xs) auto

text \<open>
  The insertion point of a prioritized list: behind every element whose key is at least the new
  one. \<open>ins_desc\<close> is the list-level meaning of \<open>nxsched_add_prioritized\<close>.
\<close>

definition ins_desc :: "('a \<Rightarrow> 'b::linorder) \<Rightarrow> 'a \<Rightarrow> 'a list \<Rightarrow> 'a list" where
  "ins_desc f x xs =
     takeWhile (\<lambda>y. f x \<le> f y) xs @ x # dropWhile (\<lambda>y. f x \<le> f y) xs"

lemma ins_desc_Nil [simp]: "ins_desc f x [] = [x]"
  by (simp add: ins_desc_def)

lemma ins_desc_Cons:
  "ins_desc f x (y # ys) = (if f x \<le> f y then y # ins_desc f x ys else x # y # ys)"
  by (simp add: ins_desc_def)

lemma set_ins_desc [simp]: "set (ins_desc f x xs) = insert x (set xs)"
  by (induction xs) (auto simp: ins_desc_Cons)

lemma mset_ins_desc: "mset (ins_desc f x xs) = add_mset x (mset xs)"
  by (induction xs) (auto simp: ins_desc_Cons)

lemma distinct_ins_desc [simp]: "distinct (ins_desc f x xs) \<longleftrightarrow> x \<notin> set xs \<and> distinct xs"
proof -
  have "distinct (ins_desc f x xs) \<longleftrightarrow> distinct (x # xs)"
    by (rule mset_eq_imp_distinct_iff) (simp add: mset_ins_desc)
  then show ?thesis by simp
qed

lemma desc_ins_desc [simp]: "desc f xs \<Longrightarrow> desc f (ins_desc f x xs)"
  by (induction xs) (auto simp: ins_desc_Cons)

lemma ins_desc_cong:
  "f x = g x \<Longrightarrow> (\<And>y. y \<in> set xs \<Longrightarrow> f y = g y) \<Longrightarrow> ins_desc f x xs = ins_desc g x xs"
  by (induction xs) (auto simp: ins_desc_Cons)

lemma remove1_ins_desc: "x \<notin> set xs \<Longrightarrow> remove1 x (ins_desc f x xs) = xs"
  by (induction xs) (auto simp: ins_desc_Cons)

text \<open>Elements of equal key keep their order: the new one goes behind all of them.\<close>

lemma filter_ins_desc_eq:
  "desc f xs \<Longrightarrow> filter (\<lambda>y. f y = f x) (ins_desc f x xs) = filter (\<lambda>y. f y = f x) xs @ [x]"
proof (induction xs)
  case (Cons y ys)
  then show ?case
  proof (cases "f x \<le> f y")
    case False
    with Cons.prems have "filter (\<lambda>z. f z = f x) (y # ys) = []"
      by (fastforce simp: filter_empty_conv)
    with False show ?thesis by (simp add: ins_desc_Cons)
  qed (auto simp: ins_desc_Cons)
qed simp

lemma filter_ins_desc_other:
  "\<not> P x \<Longrightarrow> filter P (ins_desc f x xs) = filter P xs"
  by (induction xs) (auto simp: ins_desc_Cons)

lemma ins_desc_split:
  assumes "desc f xs"
  obtains ys zs where "xs = ys @ zs" "ins_desc f x xs = ys @ x # zs" "\<forall>y \<in> set ys. f x \<le> f y" "\<forall>z \<in> set zs. f z < f x"
proof
  show "xs = takeWhile (\<lambda>y. f x \<le> f y) xs @ dropWhile (\<lambda>y. f x \<le> f y) xs" by simp
  show "ins_desc f x xs = takeWhile (\<lambda>y. f x \<le> f y) xs @ x # dropWhile (\<lambda>y. f x \<le> f y) xs" by (simp add: ins_desc_def)
  show "\<forall>y \<in> set (takeWhile (\<lambda>y. f x \<le> f y) xs). f x \<le> f y" by (auto dest: set_takeWhileD)
  show "\<forall>z \<in> set (dropWhile (\<lambda>y. f x \<le> f y) xs). f z < f x"
  proof (cases "dropWhile (\<lambda>y. f x \<le> f y) xs")
    case (Cons w ws)
    have d: "desc f (w # ws)"
      using assms Cons by (metis takeWhile_dropWhile_id desc_append)
    have "\<not> f x \<le> f w" using hd_dropWhile [of "\<lambda>y. f x \<le> f y" xs] Cons by simp
    then show ?thesis using d Cons by (auto simp: not_le intro: le_less_trans)
  next
    case Nil
    show ?thesis unfolding Nil by simp
  qed
qed

end
