(* ===== verification/List_Node.thy ===== *)
theory List_Node
  imports Prelude
begin

text \<open>
  The intrusive circular doubly linked list of \<open>include/nuttx/list.h\<close>, on an explicit heap: a
  \<open>struct list_node\<close> per address, NULL as \<open>None\<close>. The macros are translated assignment by
  assignment, so the order of the writes and the aliasing of \<open>list\<close> and \<open>list->next\<close> are the
  source's. Dereferencing NULL makes the result \<open>None\<close>.

  \<open>dll h l xs\<close> says that the heap holds the list headed by \<open>l\<close> with the nodes \<open>xs\<close>. The
  lemmas show that each macro implements the obvious operation on \<open>xs\<close>, touches nothing
  outside the list, and never faults on a well-formed list.
\<close>

section \<open>Nodes and the heap\<close>

record 'n list_node =
  nxt :: "'n option"
  prv :: "'n option"

type_synonym 'n lheap = "'n \<Rightarrow> 'n list_node"

definition set_nxt :: "'n lheap \<Rightarrow> 'n \<Rightarrow> 'n option \<Rightarrow> 'n lheap" where
  "set_nxt h a v = h(a := (h a)\<lparr>nxt := v\<rparr>)"

definition set_prv :: "'n lheap \<Rightarrow> 'n \<Rightarrow> 'n option \<Rightarrow> 'n lheap" where
  "set_prv h a v = h(a := (h a)\<lparr>prv := v\<rparr>)"

lemma nxt_set_nxt [heap_simps]: "nxt (set_nxt h a v b) = (if b = a then v else nxt (h b))"
  by (simp add: set_nxt_def)

lemma prv_set_nxt [heap_simps]: "prv (set_nxt h a v b) = prv (h b)"
  by (simp add: set_nxt_def)

lemma nxt_set_prv [heap_simps]: "nxt (set_prv h a v b) = nxt (h b)"
  by (simp add: set_prv_def)

lemma prv_set_prv [heap_simps]: "prv (set_prv h a v b) = (if b = a then v else prv (h b))"
  by (simp add: set_prv_def)

lemma set_nxt_other [heap_simps]: "b \<noteq> a \<Longrightarrow> set_nxt h a v b = h b"
  by (simp add: set_nxt_def)

lemma set_prv_other [heap_simps]: "b \<noteq> a \<Longrightarrow> set_prv h a v b = h b"
  by (simp add: set_prv_def)

section \<open>The macros and inline functions\<close>

definition list_in_list :: "'n lheap \<Rightarrow> 'n \<Rightarrow> bool" where
  "list_in_list h item \<longleftrightarrow> prv (h item) \<noteq> None"

definition list_is_empty :: "'n lheap \<Rightarrow> 'n \<Rightarrow> bool" where
  "list_is_empty h l \<longleftrightarrow> nxt (h l) = Some l"

definition list_is_clear :: "'n lheap \<Rightarrow> 'n \<Rightarrow> bool" where
  "list_is_clear h l \<longleftrightarrow> nxt (h l) = None"

definition list_is_singular :: "'n lheap \<Rightarrow> 'n \<Rightarrow> bool" where
  "list_is_singular h l \<longleftrightarrow> nxt (h l) = prv (h l)"

text \<open>\<open>__list->prev = __list->next = __list\<close>: the inner assignment first.\<close>

definition list_initialize :: "'n lheap \<Rightarrow> 'n \<Rightarrow> 'n lheap" where
  "list_initialize h l = set_prv (set_nxt h l (Some l)) l (Some l)"

definition list_clear_node :: "'n lheap \<Rightarrow> 'n \<Rightarrow> 'n lheap" where
  "list_clear_node h item = set_prv (set_nxt h item None) item None"

definition list_is_head :: "'n lheap \<Rightarrow> 'n \<Rightarrow> 'n \<Rightarrow> bool" where
  "list_is_head h l item \<longleftrightarrow> nxt (h l) = Some item"

definition list_is_tail :: "'n lheap \<Rightarrow> 'n \<Rightarrow> 'n \<Rightarrow> bool" where
  "list_is_tail h l item \<longleftrightarrow> prv (h l) = Some item"

definition list_peek_head :: "'n lheap \<Rightarrow> 'n \<Rightarrow> 'n option" where
  "list_peek_head h l = (if nxt (h l) \<noteq> Some l then nxt (h l) else None)"

definition list_peek_tail :: "'n lheap \<Rightarrow> 'n \<Rightarrow> 'n option" where
  "list_peek_tail h l = (if prv (h l) \<noteq> Some l then prv (h l) else None)"

definition list_prev :: "'n lheap \<Rightarrow> 'n \<Rightarrow> 'n \<Rightarrow> 'n option" where
  "list_prev h l item = (if prv (h item) \<noteq> Some l then prv (h item) else None)"

definition list_next :: "'n lheap \<Rightarrow> 'n \<Rightarrow> 'n \<Rightarrow> 'n option" where
  "list_next h l item = (if nxt (h item) \<noteq> Some l then nxt (h item) else None)"

text \<open>In the wrapping variants \<open>item->next == list\<close>, so \<open>item->next->next\<close> reads \<open>list\<close>.\<close>

definition list_next_wrap :: "'n lheap \<Rightarrow> 'n \<Rightarrow> 'n \<Rightarrow> 'n option" where
  "list_next_wrap h l item =
     (if nxt (h item) \<noteq> Some l then nxt (h item)
      else if nxt (h l) \<noteq> Some l then nxt (h l) else None)"

definition list_prev_wrap :: "'n lheap \<Rightarrow> 'n \<Rightarrow> 'n \<Rightarrow> 'n option" where
  "list_prev_wrap h l item =
     (if prv (h item) \<noteq> Some l then prv (h item)
      else if prv (h l) \<noteq> Some l then prv (h l) else None)"

definition list_add_head :: "'n lheap \<Rightarrow> 'n \<Rightarrow> 'n \<Rightarrow> 'n lheap option" where
  "list_add_head h l item =
     (let h1 = set_nxt h item (nxt (h l));
          h2 = set_prv h1 item (Some l)
      in do {
        n \<leftarrow> nxt (h2 l);
        let h3 = set_prv h2 n (Some item);
        Some (set_nxt h3 l (Some item))
      })"

definition list_add_tail :: "'n lheap \<Rightarrow> 'n \<Rightarrow> 'n \<Rightarrow> 'n lheap option" where
  "list_add_tail h l item =
     (let h1 = set_prv h item (prv (h l));
          h2 = set_nxt h1 item (Some l)
      in do {
        p \<leftarrow> prv (h2 l);
        let h3 = set_nxt h2 p (Some item);
        Some (set_prv h3 l (Some item))
      })"

definition list_add_after :: "'n lheap \<Rightarrow> 'n \<Rightarrow> 'n \<Rightarrow> 'n lheap option" where
  "list_add_after h entry new_entry = list_add_head h entry new_entry"

definition list_add_before :: "'n lheap \<Rightarrow> 'n \<Rightarrow> 'n \<Rightarrow> 'n lheap option" where
  "list_add_before h entry new_entry = list_add_tail h entry new_entry"

definition list_delete_fast :: "'n lheap \<Rightarrow> 'n \<Rightarrow> 'n lheap option" where
  "list_delete_fast h item = do {
     n \<leftarrow> nxt (h item);
     let h1 = set_prv h n (prv (h item));
     p \<leftarrow> prv (h1 item);
     Some (set_nxt h1 p (nxt (h1 item)))
   }"

definition list_delete :: "'n lheap \<Rightarrow> 'n \<Rightarrow> 'n lheap option" where
  "list_delete h item = do {
     h1 \<leftarrow> list_delete_fast h item;
     Some (list_clear_node h1 item)
   }"

definition list_delete_init :: "'n lheap \<Rightarrow> 'n \<Rightarrow> 'n lheap option" where
  "list_delete_init h item = do {
     h1 \<leftarrow> list_delete_fast h item;
     Some (list_initialize h1 item)
   }"

text \<open>The removals return the removed node (NULL for an empty list) and the new heap.\<close>

definition list_remove_head :: "'n lheap \<Rightarrow> 'n \<Rightarrow> ('n option \<times> 'n lheap) option" where
  "list_remove_head h l =
     (if nxt (h l) \<noteq> Some l then do {
        item \<leftarrow> nxt (h l);
        h1 \<leftarrow> list_delete h item;
        Some (Some item, h1)
      } else Some (None, h))"

definition list_remove_tail :: "'n lheap \<Rightarrow> 'n \<Rightarrow> ('n option \<times> 'n lheap) option" where
  "list_remove_tail h l =
     (if prv (h l) \<noteq> Some l then do {
        item \<leftarrow> prv (h l);
        h1 \<leftarrow> list_delete h item;
        Some (Some item, h1)
      } else Some (None, h))"

text \<open>
  \<open>list_for_every\<close> with a counting body. The loop follows \<open>next\<close> until it is back at the head,
  which on a broken list it never is: \<open>None\<close> is a NULL dereference or no return. The counter is
  a \<open>size_t\<close>.
\<close>

partial_function (option) list_count_from :: "'n lheap \<Rightarrow> 'n \<Rightarrow> 'n option \<Rightarrow> u64 \<Rightarrow> u64 option" where
  "list_count_from h l node cnt =
     (case node of
        None \<Rightarrow> None
      | Some a \<Rightarrow> if a = l then Some cnt else list_count_from h l (nxt (h a)) (cnt + 1))"

definition list_length :: "'n lheap \<Rightarrow> 'n \<Rightarrow> u64 option" where
  "list_length h l = list_count_from h l (nxt (h l)) 0"

section \<open>Well-formed lists\<close>

text \<open>\<open>seg h a xs b\<close>: the links lead from \<open>a\<close> through \<open>xs\<close> to \<open>b\<close> and back.\<close>

fun seg :: "'n lheap \<Rightarrow> 'n \<Rightarrow> 'n list \<Rightarrow> 'n \<Rightarrow> bool" where
  "seg h a [] b \<longleftrightarrow> nxt (h a) = Some b \<and> prv (h b) = Some a"
| "seg h a (x # xs) b \<longleftrightarrow> nxt (h a) = Some x \<and> prv (h x) = Some a \<and> seg h x xs b"

definition dll :: "'n lheap \<Rightarrow> 'n \<Rightarrow> 'n list \<Rightarrow> bool" where
  "dll h l xs \<longleftrightarrow> seg h l xs l \<and> distinct (l # xs)"

lemma seg_append: "seg h a (xs @ x # ys) b \<longleftrightarrow> seg h a xs x \<and> seg h x ys b"
  by (induction xs arbitrary: a) auto

lemma seg_cong:
  assumes "\<And>n. n = a \<or> n \<in> set xs \<Longrightarrow> nxt (h' n) = nxt (h n)"
    and "\<And>n. n = b \<or> n \<in> set xs \<Longrightarrow> prv (h' n) = prv (h n)"
  shows "seg h' a xs b = seg h a xs b"
  using assms by (induction xs arbitrary: a) auto

lemma seg_nxt: "seg h a xs b \<Longrightarrow> nxt (h a) = Some (hd (xs @ [b]))"
  by (cases xs) auto

lemma seg_prv: "seg h a xs b \<Longrightarrow> prv (h b) = Some (last (a # xs))"
  by (induction xs arbitrary: a) auto

text \<open>A list is untouched by writes to nodes outside it: the frame rule of this heap.\<close>

lemma dll_frame: "(\<And>n. n = l \<or> n \<in> set xs \<Longrightarrow> h' n = h n) \<Longrightarrow> dll h' l xs = dll h l xs"
  by (auto simp: dll_def cong: seg_cong)

lemma dll_nxt: "dll h l xs \<Longrightarrow> nxt (h l) = Some (hd (xs @ [l]))"
  by (simp add: dll_def seg_nxt)

lemma dll_prv: "dll h l xs \<Longrightarrow> prv (h l) = Some (last (l # xs))"
  unfolding dll_def by (blast dest: seg_prv)

text \<open>The heap determines the list.\<close>

lemma seg_unique:
  "seg h a xs l \<Longrightarrow> seg h a ys l \<Longrightarrow> l \<notin> set xs \<Longrightarrow> l \<notin> set ys \<Longrightarrow> xs = ys"
proof (induction xs arbitrary: a ys)
  case Nil
  then show ?case by (cases ys) auto
next
  case (Cons x xs)
  then show ?case by (cases ys) auto
qed

lemma dll_unique: "dll h l xs \<Longrightarrow> dll h l ys \<Longrightarrow> xs = ys"
  unfolding dll_def by (auto intro: seg_unique)


text \<open>A circular list can be read from any of its nodes.\<close>

lemma dll_rotate: "dll h l (xs @ e # ys) = dll h e (ys @ l # xs)"
  unfolding dll_def by (auto simp: seg_append)

section \<open>What the operations do\<close>

lemma list_initialize_dll: "dll (list_initialize h l) l []"
  by (simp add: dll_def list_initialize_def heap_simps)

lemma list_initialize_frame [heap_simps]: "n \<noteq> l \<Longrightarrow> list_initialize h l n = h n"
  by (simp add: list_initialize_def heap_simps)

lemma list_is_empty_dll: "dll h l xs \<Longrightarrow> list_is_empty h l \<longleftrightarrow> xs = []"
  by (cases xs) (auto simp: list_is_empty_def dll_def)

lemma list_peek_head_dll:
  "dll h l xs \<Longrightarrow> list_peek_head h l = (case xs of [] \<Rightarrow> None | x # _ \<Rightarrow> Some x)"
  by (auto simp: list_peek_head_def dll_def split: list.splits)

lemma list_peek_tail_dll:
  "dll h l xs \<Longrightarrow> list_peek_tail h l = (if xs = [] then None else Some (last xs))"
proof -
  assume d: "dll h l xs"
  then have "prv (h l) = Some (last (l # xs))" by (rule dll_prv)
  moreover have "xs \<noteq> [] \<Longrightarrow> last xs \<noteq> l" using d by (auto simp: dll_def)
  ultimately show ?thesis by (auto simp: list_peek_tail_def)
qed

lemma list_is_singular_dll: "dll h l xs \<Longrightarrow> list_is_singular h l \<longleftrightarrow> length xs \<le> 1"
proof -
  assume d: "dll h l xs"
  have "nxt (h l) = Some (hd (xs @ [l]))" "prv (h l) = Some (last (l # xs))"
    using d by (rule dll_nxt dll_prv)+
  moreover have "distinct (l # xs)" using d by (simp add: dll_def)
  ultimately show ?thesis
    by (cases xs rule: rev_cases) (auto simp: list_is_singular_def hd_append split: if_splits)
qed

lemma list_add_head_dll:
  assumes d: "dll h l xs" and i: "item \<notin> set (l # xs)"
  obtains h' where "list_add_head h l item = Some h'" and "dll h' l (item # xs)"
    and "\<And>n. n \<notin> insert l (insert item (set xs)) \<Longrightarrow> h' n = h n"
proof -
  define a where "a = hd (xs @ [l])"
  define h' where
    "h' = set_nxt (set_prv (set_prv (set_nxt h item (nxt (h l))) item (Some l)) a (Some item))
            l (Some item)"
  have n: "nxt (h l) = Some a" using d by (simp add: dll_nxt a_def)
  have r: "list_add_head h l item = Some h'"
    using n i by (simp add: list_add_head_def h'_def heap_simps)
  have fr: "h' m = h m" if "m \<notin> insert l (insert item (set xs))" for m
  proof -
    have "m \<noteq> a" using that by (cases xs) (auto simp: a_def)
    then show ?thesis using that by (simp add: h'_def heap_simps)
  qed
  have "seg h' item xs l"
  proof (cases xs)
    case Nil
    then show ?thesis using n i by (auto simp: h'_def heap_simps a_def)
  next
    case (Cons x ys)
    have "seg h x ys l" using d Cons by (simp add: dll_def)
    then have "seg h' x ys l"
      using d i Cons by (subst seg_cong [of x ys h' h l]) (auto simp: h'_def heap_simps a_def dll_def)
    then show ?thesis using n i d Cons by (auto simp: h'_def heap_simps a_def dll_def)
  qed
  moreover have "nxt (h' l) = Some item" "prv (h' item) = Some l"
    using i d by (cases xs; auto simp: h'_def heap_simps a_def dll_def)+
  ultimately have "dll h' l (item # xs)" using d i by (auto simp: dll_def)
  with r fr show thesis by (blast intro: that)
qed

text \<open>The mirror image of a heap exchanges \<open>next\<close> and \<open>prev\<close>; it maps head operations to tail ones.\<close>

definition mirror :: "'n lheap \<Rightarrow> 'n lheap" where
  "mirror h = (\<lambda>n. \<lparr>nxt = prv (h n), prv = nxt (h n)\<rparr>)"

lemma mirror_sel [heap_simps]: "nxt (mirror h n) = prv (h n)" "prv (mirror h n) = nxt (h n)"
  by (simp_all add: mirror_def)

lemma mirror_mirror [heap_simps]: "mirror (mirror h) = h"
  by (rule ext) (simp add: mirror_def)

lemma mirror_set_nxt: "mirror (set_nxt h a v) = set_prv (mirror h) a v"
  by (auto simp: mirror_def set_nxt_def set_prv_def)

lemma mirror_set_prv: "mirror (set_prv h a v) = set_nxt (mirror h) a v"
  by (auto simp: mirror_def set_nxt_def set_prv_def)

lemma mirror_eq_iff: "mirror h n = mirror h' n \<longleftrightarrow> h n = h' n"
  by (cases "h n"; cases "h' n") (auto simp: mirror_def)

lemma seg_mirror: "seg (mirror h) a xs b = seg h b (rev xs) a"
  by (induction xs arbitrary: a) (auto simp: seg_append heap_simps)

lemma dll_mirror: "dll (mirror h) l xs = dll h l (rev xs)"
  by (auto simp: dll_def seg_mirror)

lemma list_add_tail_mirror: "list_add_tail h l item = map_option mirror (list_add_head (mirror h) l item)"
  by (auto simp: list_add_tail_def list_add_head_def heap_simps mirror_set_nxt mirror_set_prv
      split: Option.bind_split)

lemma list_add_tail_dll:
  assumes d: "dll h l xs" and i: "item \<notin> set (l # xs)"
  obtains h' where "list_add_tail h l item = Some h'" and "dll h' l (xs @ [item])"
    and "\<And>n. n \<notin> insert l (insert item (set xs)) \<Longrightarrow> h' n = h n"
proof -
  have "dll (mirror h) l (rev xs)" "item \<notin> set (l # rev xs)"
    using d i by (simp_all add: dll_mirror)
  then obtain g where g: "list_add_head (mirror h) l item = Some g" "dll g l (item # rev xs)"
    and f: "\<And>n. n \<notin> insert l (insert item (set (rev xs))) \<Longrightarrow> g n = mirror h n"
    by (rule list_add_head_dll) blast
  show thesis
  proof (rule that)
    show "list_add_tail h l item = Some (mirror g)" by (simp add: list_add_tail_mirror g)
    show "dll (mirror g) l (xs @ [item])" using g(2) by (simp add: dll_mirror)
    show "mirror g n = h n" if "n \<notin> insert l (insert item (set xs))" for n
      using f [of n] that mirror_eq_iff [of g n "mirror h"] by (simp add: heap_simps)
  qed
qed

text \<open>\<open>list_delete\<close> names no list: it unlinks the node from whichever list it is in.\<close>

lemma list_delete_dll:
  assumes d: "dll h l (xs @ item # ys)"
  obtains h' where "list_delete h item = Some h'" and "dll h' l (xs @ ys)"
    and "nxt (h' item) = None" and "prv (h' item) = None"
    and "\<And>n. n \<notin> insert l (set (xs @ item # ys)) \<Longrightarrow> h' n = h n"
proof -
  define p where "p = last (l # xs)"
  define q where "q = hd (ys @ [l])"
  define h' where "h' = list_clear_node (set_nxt (set_prv h q (Some p)) p (Some q)) item"
  have dist: "distinct (l # xs @ item # ys)" using d by (simp add: dll_def)
  have s: "seg h l xs item" "seg h item ys l" using d by (simp_all add: dll_def seg_append)
  have np: "nxt (h item) = Some q" "prv (h item) = Some p"
    using s by (simp_all add: seg_nxt seg_prv p_def q_def del: last.simps)
  have pq: "p \<in> set (l # xs)" "q \<in> set (ys @ [l])"
    unfolding p_def q_def by (rule last_in_set, simp) (rule hd_in_set, simp)
  have ne: "p \<noteq> item" "q \<noteq> item" using pq dist by auto
  have r: "list_delete h item = Some h'"
    using np ne by (simp add: list_delete_def list_delete_fast_def h'_def heap_simps)
  have fr: "h' n = h n" if "n \<notin> insert l (set (xs @ item # ys))" for n
  proof -
    have "n \<noteq> p" "n \<noteq> q" "n \<noteq> item" using that pq by auto
    then show ?thesis by (simp add: h'_def list_clear_node_def heap_simps)
  qed
  have nx: "nxt (h' n) = (if n = item then None else if n = p then Some q else nxt (h n))" for n
    by (simp add: h'_def list_clear_node_def heap_simps)
  have pv: "prv (h' n) = (if n = item then None else if n = q then Some p else prv (h n))" for n
    by (simp add: h'_def list_clear_node_def heap_simps)
  have tail: "seg h' p ys l"
  proof (cases ys)
    case Nil
    then show ?thesis using nx pv ne by (auto simp: q_def)
  next
    case (Cons y zs)
    have "seg h y zs l" using s(2) Cons by simp
    then have "seg h' y zs l"
      using dist pq nx pv Cons by (subst seg_cong [of y zs h' h l]) (auto simp: q_def)
    then show ?thesis using nx pv ne Cons dist by (auto simp: q_def)
  qed
  have "seg h' l (xs @ ys) l"
  proof (cases xs rule: rev_cases)
    case Nil
    then show ?thesis using tail by (simp add: p_def)
  next
    case (snoc us u)
    have "seg h l us u" using s(1) snoc by (simp add: seg_append)
    then have "seg h' l us u"
      using dist snoc pq nx pv
      by (subst seg_cong [of l us h' h u]) (auto simp: p_def q_def hd_append split: if_splits)
    with tail snoc show ?thesis by (simp add: seg_append p_def)
  qed
  then have "dll h' l (xs @ ys)" using dist by (simp add: dll_def)
  moreover have "nxt (h' item) = None" "prv (h' item) = None"
    by (simp_all add: h'_def list_clear_node_def heap_simps)
  ultimately show thesis using r fr by (blast intro: that)
qed


lemma list_delete_mem:
  assumes d: "dll h l xs" and i: "item \<in> set xs"
  obtains h' where "list_delete h item = Some h'" and "dll h' l (remove1 item xs)"
    and "nxt (h' item) = None" and "prv (h' item) = None"
    and "\<And>n. n \<notin> insert l (set xs) \<Longrightarrow> h' n = h n"
proof -
  obtain us vs where x: "xs = us @ item # vs" using i by (auto simp: in_set_conv_decomp)
  have "distinct xs" using d by (simp add: dll_def)
  then have "remove1 item xs = us @ vs" unfolding x by (rule distinct_split_remove1)
  with d that show thesis unfolding x by (metis list_delete_dll)
qed

lemma list_remove_head_Nil: "dll h l [] \<Longrightarrow> list_remove_head h l = Some (None, h)"
  by (simp add: list_remove_head_def dll_def)

lemma list_remove_head_Cons:
  assumes "dll h l (x # xs)"
  obtains h' where "list_remove_head h l = Some (Some x, h')" and "dll h' l xs"
    and "nxt (h' x) = None" and "prv (h' x) = None"
proof -
  have "x \<noteq> l" "nxt (h l) = Some x" using assms by (auto simp: dll_def)
  moreover obtain h' where "list_delete h x = Some h'" "dll h' l ([] @ xs)"
      "nxt (h' x) = None" "prv (h' x) = None"
    using list_delete_dll [of h l "[]" x xs] assms by auto
  ultimately show thesis by (auto simp: list_remove_head_def intro: that)
qed

lemma list_remove_tail_snoc:
  assumes "dll h l (xs @ [x])"
  obtains h' where "list_remove_tail h l = Some (Some x, h')" and "dll h' l xs"
    and "nxt (h' x) = None" and "prv (h' x) = None"
proof -
  have "x \<noteq> l" "prv (h l) = Some x" using assms dll_prv [OF assms] by (auto simp: dll_def)
  moreover obtain h' where "list_delete h x = Some h'" "dll h' l (xs @ [])"
      "nxt (h' x) = None" "prv (h' x) = None"
    using list_delete_dll [of h l xs x "[]"] assms by auto
  ultimately show thesis by (auto simp: list_remove_tail_def intro: that)
qed

lemma list_count_from_seg:
  "seg h a xs l \<Longrightarrow> l \<notin> set xs \<Longrightarrow> list_count_from h l (nxt (h a)) cnt = Some (cnt + of_nat (length xs))"
proof (induction xs arbitrary: a cnt)
  case Nil
  then show ?case by (simp add: list_count_from.simps)
next
  case (Cons x xs)
  then have "list_count_from h l (nxt (h a)) cnt = list_count_from h l (nxt (h x)) (cnt + 1)"
    by (subst list_count_from.simps) auto
  with Cons show ?case by (simp add: algebra_simps)
qed

lemma list_next_dll:
  assumes "dll h l (xs @ x # ys)"
  shows "list_next h l x = (case ys of [] \<Rightarrow> None | y # _ \<Rightarrow> Some y)"
    and "list_prev h l x = (if xs = [] then None else Some (last xs))"
proof -
  have s: "seg h l xs x" "seg h x ys l" "distinct (l # xs @ x # ys)"
    using assms by (simp_all add: dll_def seg_append)
  show "list_next h l x = (case ys of [] \<Rightarrow> None | y # _ \<Rightarrow> Some y)"
    using s by (cases ys) (auto simp: list_next_def)
  have "xs \<noteq> [] \<Longrightarrow> last xs \<noteq> l" using s(3) by auto
  then show "list_prev h l x = (if xs = [] then None else Some (last xs))"
    using seg_prv [OF s(1)] by (auto simp: list_prev_def)
qed

end
