(* ===== verification/Dq_Queue.thy ===== *)
theory Dq_Queue
  imports Prelude
begin

text \<open>
  The doubly linked queue of \<open>include/nuttx/queue.h\<close> and the prioritized insertion of
  \<open>sched/sched/sched.h\<close>, on an explicit heap. A queue has a head and a tail pointer; the first
  \<open>blink\<close> and the last \<open>flink\<close> are NULL (\<open>None\<close>). The macros are translated assignment by
  assignment; \<open>None\<close> as a result is a NULL dereference (or, for the loops, no return).

  \<open>dq_rep h q xs\<close> says that queue \<open>q\<close> holds the nodes \<open>xs\<close>. The locale \<open>task_queue\<close> states what
  the scheduler relies on, at the level of the node list; it is interpreted on the pointer code
  at the end, which is what allows the scheduler theories to work with lists.
\<close>

section \<open>Entries and queues\<close>

record 'n dq_entry =
  flink :: "'n option"
  blink :: "'n option"

record 'n dq_queue =
  head :: "'n option"
  tail :: "'n option"

type_synonym 'n dheap = "'n \<Rightarrow> 'n dq_entry"

definition set_flink :: "'n dheap \<Rightarrow> 'n \<Rightarrow> 'n option \<Rightarrow> 'n dheap" where
  "set_flink h a v = h(a := (h a)\<lparr>flink := v\<rparr>)"

definition set_blink :: "'n dheap \<Rightarrow> 'n \<Rightarrow> 'n option \<Rightarrow> 'n dheap" where
  "set_blink h a v = h(a := (h a)\<lparr>blink := v\<rparr>)"

lemma flink_set_flink [heap_simps]: "flink (set_flink h a v b) = (if b = a then v else flink (h b))"
  by (simp add: set_flink_def)

lemma blink_set_flink [heap_simps]: "blink (set_flink h a v b) = blink (h b)"
  by (simp add: set_flink_def)

lemma flink_set_blink [heap_simps]: "flink (set_blink h a v b) = flink (h b)"
  by (simp add: set_blink_def)

lemma blink_set_blink [heap_simps]: "blink (set_blink h a v b) = (if b = a then v else blink (h b))"
  by (simp add: set_blink_def)

lemma set_flink_other [heap_simps]: "b \<noteq> a \<Longrightarrow> set_flink h a v b = h b"
  by (simp add: set_flink_def)

lemma set_blink_other [heap_simps]: "b \<noteq> a \<Longrightarrow> set_blink h a v b = h b"
  by (simp add: set_blink_def)

section \<open>The operations\<close>

definition dq_init :: "'n dq_queue" where
  "dq_init = \<lparr>head = None, tail = None\<rparr>"

text \<open>\<open>dq_move(q1, q2)\<close>: the result is the pair of the new \<open>q1\<close> and the new \<open>q2\<close>.\<close>

definition dq_move :: "'n dq_queue \<Rightarrow> 'n dq_queue \<Rightarrow> 'n dq_queue \<times> 'n dq_queue" where
  "dq_move q1 q2 = (dq_init, \<lparr>head = head q1, tail = tail q1\<rparr>)"

definition dq_empty :: "'n dq_queue \<Rightarrow> bool" where
  "dq_empty q \<longleftrightarrow> head q = None"

definition dq_peek :: "'n dq_queue \<Rightarrow> 'n option" where
  "dq_peek q = head q"

definition dq_tail :: "'n dq_queue \<Rightarrow> 'n option" where
  "dq_tail q = tail q"

definition dq_inqueue :: "'n dheap \<Rightarrow> 'n \<Rightarrow> 'n dq_queue \<Rightarrow> bool" where
  "dq_inqueue h p q \<longleftrightarrow> flink (h p) \<noteq> None \<or> dq_tail q = Some p"

definition dq_addfirst :: "'n dheap \<Rightarrow> 'n \<Rightarrow> 'n dq_queue \<Rightarrow> 'n dheap \<times> 'n dq_queue" where
  "dq_addfirst h p q =
     (let h1 = set_blink h p None;
          h2 = set_flink h1 p (head q)
      in case head q of
           None \<Rightarrow> (h2, q\<lparr>head := Some p, tail := Some p\<rparr>)
         | Some f \<Rightarrow> (set_blink h2 f (Some p), q\<lparr>head := Some p\<rparr>))"

definition dq_addlast :: "'n dheap \<Rightarrow> 'n \<Rightarrow> 'n dq_queue \<Rightarrow> ('n dheap \<times> 'n dq_queue) option" where
  "dq_addlast h p q =
     (let h1 = set_flink h p None;
          h2 = set_blink h1 p (tail q)
      in if head q = None then Some (h2, q\<lparr>head := Some p, tail := Some p\<rparr>)
         else do {
           t \<leftarrow> tail q;
           Some (set_flink h2 t (Some p), q\<lparr>tail := Some p\<rparr>)
         })"

definition dq_addbefore :: "'n dheap \<Rightarrow> 'n \<Rightarrow> 'n \<Rightarrow> 'n dq_queue \<Rightarrow> ('n dheap \<times> 'n dq_queue) option" where
  "dq_addbefore h n p q =
     (if head q = None \<or> head q = Some n then Some (dq_addfirst h p q)
      else do {
        prev \<leftarrow> blink (h n);
        let h1 = set_flink h p (Some n);
        let h2 = set_blink h1 p (Some prev);
        let h3 = set_flink h2 prev (Some p);
        Some (set_blink h3 n (Some p), q)
      })"

definition dq_addafter :: "'n dheap \<Rightarrow> 'n \<Rightarrow> 'n \<Rightarrow> 'n dq_queue \<Rightarrow> ('n dheap \<times> 'n dq_queue) option" where
  "dq_addafter h prev node q =
     (if head q = None \<or> tail q = Some prev then dq_addlast h node q
      else do {
        nx \<leftarrow> flink (h prev);
        let h1 = set_blink h node (Some prev);
        let h2 = set_flink h1 node (Some nx);
        let h3 = set_blink h2 nx (Some node);
        Some (set_flink h3 prev (Some node), q)
      })"

definition dq_rem :: "'n dheap \<Rightarrow> 'n \<Rightarrow> 'n dq_queue \<Rightarrow> 'n dheap \<times> 'n dq_queue" where
  "dq_rem h p q =
     (let prev = blink (h p);
          nx = flink (h p);
          (h1, q1) = (case prev of
                        None \<Rightarrow> (h, q\<lparr>head := nx\<rparr>)
                      | Some a \<Rightarrow> (set_flink h a nx, q));
          (h2, q2) = (case nx of
                        None \<Rightarrow> (h1, q1\<lparr>tail := prev\<rparr>)
                      | Some b \<Rightarrow> (set_blink h1 b prev, q1));
          h3 = set_flink h2 p None;
          h4 = set_blink h3 p None
      in (h4, q2))"

definition dq_remafter :: "'n dheap \<Rightarrow> 'n \<Rightarrow> 'n dq_queue \<Rightarrow> 'n option \<times> 'n dheap \<times> 'n dq_queue" where
  "dq_remafter h node q =
     (case flink (h node) of
        Some r \<Rightarrow> if head q \<noteq> None then (Some r, dq_rem h r q) else (Some r, h, q)
      | None \<Rightarrow> (None, h, q))"

definition dq_remlast :: "'n dheap \<Rightarrow> 'n dq_queue \<Rightarrow> 'n option \<times> 'n dheap \<times> 'n dq_queue" where
  "dq_remlast h q =
     (case tail q of
        None \<Rightarrow> (None, h, q)
      | Some r \<Rightarrow>
          (let (h1, q1) = (case blink (h r) of
                             None \<Rightarrow> (h, q\<lparr>head := None, tail := None\<rparr>)
                           | Some prev \<Rightarrow> (set_flink h prev None, q\<lparr>tail := Some prev\<rparr>))
           in (Some r, set_blink (set_flink h1 r None) r None, q1)))"

definition dq_remfirst :: "'n dheap \<Rightarrow> 'n dq_queue \<Rightarrow> 'n option \<times> 'n dheap \<times> 'n dq_queue" where
  "dq_remfirst h q =
     (case head q of
        None \<Rightarrow> (None, h, q)
      | Some r \<Rightarrow>
          (let (h1, q1) = (case flink (h r) of
                             None \<Rightarrow> (h, q\<lparr>head := None, tail := None\<rparr>)
                           | Some nx \<Rightarrow> (set_blink h nx None, q\<lparr>head := Some nx\<rparr>))
           in (Some r, set_blink (set_flink h1 r None) r None, q1)))"

text \<open>\<open>dq_cat(q1, q2)\<close> appends \<open>q1\<close> to \<open>q2\<close>; the result is the heap, the new \<open>q1\<close> and the new \<open>q2\<close>.\<close>

definition dq_cat :: "'n dheap \<Rightarrow> 'n dq_queue \<Rightarrow> 'n dq_queue \<Rightarrow> ('n dheap \<times> 'n dq_queue \<times> 'n dq_queue) option" where
  "dq_cat h q1 q2 =
     (if dq_empty q2 then Some (h, dq_move q1 q2)
      else if \<not> dq_empty q1 then do {
        t2 \<leftarrow> tail q2;
        let h1 = set_flink h t2 (head q1);
        f1 \<leftarrow> head q1;
        let h2 = set_blink h1 f1 (tail q2);
        Some (h2, dq_init, q2\<lparr>tail := tail q1\<rparr>)
      } else Some (h, q1, q2))"

partial_function (option) dq_count_from :: "'n dheap \<Rightarrow> 'n option \<Rightarrow> u64 \<Rightarrow> u64 option" where
  "dq_count_from h node cnt =
     (case node of None \<Rightarrow> Some cnt | Some a \<Rightarrow> dq_count_from h (flink (h a)) (cnt + 1))"

definition dq_count :: "'n dheap \<Rightarrow> 'n dq_queue \<Rightarrow> u64 option" where
  "dq_count h q = dq_count_from h (head q) 0"

subsection \<open>Prioritized insertion\<close>

text \<open>
  The search loop of \<open>nxsched_add_prioritized\<close>: past every entry whose priority is at least the
  new one. The inner option is the pointer \<open>next\<close>.
\<close>

partial_function (option) prio_search :: "'n dheap \<Rightarrow> ('n \<Rightarrow> u8) \<Rightarrow> u8 \<Rightarrow> 'n option \<Rightarrow> 'n option option" where
  "prio_search h prio p nx =
     (case nx of
        None \<Rightarrow> Some None
      | Some a \<Rightarrow> if p \<le> prio a then prio_search h prio p (flink (h a)) else Some (Some a))"

definition nxsched_add_prioritized ::
  "'n dheap \<Rightarrow> ('n \<Rightarrow> u8) \<Rightarrow> 'n \<Rightarrow> 'n dq_queue \<Rightarrow> (bool \<times> 'n dheap \<times> 'n dq_queue) option" where
  "nxsched_add_prioritized h prio tcb q = do {
     slot \<leftarrow> prio_search h prio (prio tcb) (head q);
     (case slot of
        None \<Rightarrow>
          (case tail q of
             None \<Rightarrow>
               (let h1 = set_flink h tcb None;
                    h2 = set_blink h1 tcb None
                in Some (True, h2, q\<lparr>head := Some tcb, tail := Some tcb\<rparr>))
           | Some prev \<Rightarrow>
               (let h1 = set_flink h tcb None;
                    h2 = set_blink h1 tcb (Some prev);
                    h3 = set_flink h2 prev (Some tcb)
                in Some (False, h3, q\<lparr>tail := Some tcb\<rparr>)))
      | Some nx \<Rightarrow>
          (case blink (h nx) of
             None \<Rightarrow>
               (let h1 = set_flink h tcb (Some nx);
                    h2 = set_blink h1 tcb None;
                    h3 = set_blink h2 nx (Some tcb)
                in Some (True, h3, q\<lparr>head := Some tcb\<rparr>))
           | Some prev \<Rightarrow>
               (let h1 = set_flink h tcb (Some nx);
                    h2 = set_blink h1 tcb (Some prev);
                    h3 = set_flink h2 prev (Some tcb);
                    h4 = set_blink h3 nx (Some tcb)
                in Some (False, h4, q))))
   }"

section \<open>Well-formed queues\<close>

abbreviation hdo :: "'n list \<Rightarrow> 'n option \<Rightarrow> 'n option" where
  "hdo xs d \<equiv> (case xs of [] \<Rightarrow> d | x # _ \<Rightarrow> Some x)"

abbreviation lasto :: "'n list \<Rightarrow> 'n option \<Rightarrow> 'n option" where
  "lasto xs d \<equiv> (if xs = [] then d else Some (last xs))"

fun dqs :: "'n dheap \<Rightarrow> 'n option \<Rightarrow> 'n list \<Rightarrow> 'n option \<Rightarrow> bool" where
  "dqs h p [] n \<longleftrightarrow> True"
| "dqs h p (x # xs) n \<longleftrightarrow> blink (h x) = p \<and> flink (h x) = hdo xs n \<and> dqs h (Some x) xs n"

definition dq_rep :: "'n dheap \<Rightarrow> 'n dq_queue \<Rightarrow> 'n list \<Rightarrow> bool" where
  "dq_rep h q xs \<longleftrightarrow> dqs h None xs None \<and> distinct xs \<and> head q = hdo xs None \<and> tail q = lasto xs None"

lemma dqs_append: "dqs h p (xs @ ys) n \<longleftrightarrow> dqs h p xs (hdo ys n) \<and> dqs h (lasto xs p) ys n"
  by (induction xs arbitrary: p) (auto split: list.splits)

lemma dqs_cong: "(\<And>a. a \<in> set xs \<Longrightarrow> h' a = h a) \<Longrightarrow> dqs h' p xs n = dqs h p xs n"
  by (induction xs arbitrary: p) auto

lemma dq_rep_frame: "(\<And>a. a \<in> set xs \<Longrightarrow> h' a = h a) \<Longrightarrow> dq_rep h' q xs = dq_rep h q xs"
  unfolding dq_rep_def using dqs_cong [of xs h' h] by blast

lemma dq_rep_init [simp]: "dq_rep h dq_init []"
  by (simp add: dq_rep_def dq_init_def)


text \<open>Relinking one end of a chain.\<close>

lemma dqs_relast:
  assumes "dqs h p xs n" and "distinct xs"
    and "\<And>a. a \<in> set xs \<Longrightarrow> blink (h' a) = blink (h a)"
    and "\<And>a. a \<in> set xs \<Longrightarrow> flink (h' a) = (if a = last xs then n' else flink (h a))"
  shows "dqs h' p xs n'"
  using assms
proof (induction xs arbitrary: p)
  case (Cons x xs)
  have x: "blink (h' x) = p" using Cons.prems(1,3) by simp
  show ?case
  proof (cases xs)
    case Nil
    then show ?thesis using x Cons.prems(4) [of x] by simp
  next
    case (Cons y ys)
    have "x \<noteq> last xs" using Cons Cons.prems(2) by (metis distinct.simps(2) last_in_set list.distinct(1))
    moreover have "dqs h' (Some x) xs n'"
      by (rule Cons.IH) (use Cons Cons.prems in auto)
    ultimately show ?thesis using x Cons.prems(1) Cons.prems(4) [of x] Cons by simp
  qed
qed simp

lemma dqs_rehead:
  assumes "dqs h p xs n" and "distinct xs"
    and "\<And>a. a \<in> set xs \<Longrightarrow> flink (h' a) = flink (h a)"
    and "\<And>a. a \<in> set xs \<Longrightarrow> blink (h' a) = (if a = hd xs then p' else blink (h a))"
  shows "dqs h' p' xs n"
proof (cases xs)
  case (Cons x ys)
  have "dqs h' (Some x) ys n = dqs h (Some x) ys n"
  proof -
    have "flink (h' a) = flink (h a) \<and> blink (h' a) = blink (h a)" if "a \<in> set ys" for a
      using that assms(2-4) Cons by auto
    then show ?thesis by (induction ys arbitrary: x) auto
  qed
  then show ?thesis using assms Cons by auto
qed simp

text \<open>One node linked in between, or unlinked from between, two parts of a queue.\<close>

lemma dqs_join:
  assumes x: "dqs h None xs m" and y: "dqs h m' ys None" and d: "distinct (xs @ ys)"
    and f: "\<And>a. a \<in> set (xs @ ys) \<Longrightarrow> flink (h' a) = (if lasto xs None = Some a then n' else flink (h a))"
    and b: "\<And>a. a \<in> set (xs @ ys) \<Longrightarrow> blink (h' a) = (if hdo ys None = Some a then p' else blink (h a))"
  shows "dqs h' None xs n'" and "dqs h' p' ys None"
proof -
  have nx: "hdo ys None \<noteq> Some a" if "a \<in> set xs" for a
    using that d by (cases ys) auto
  have ny: "lasto xs None \<noteq> Some a" if "a \<in> set ys" for a
    using that d by (auto dest: last_in_set)
  show "dqs h' None xs n'"
  proof (rule dqs_relast [OF x])
    show "distinct xs" using d by simp
    show "blink (h' a) = blink (h a)" if "a \<in> set xs" for a
      using b [of a] nx [OF that] that by simp
    show "flink (h' a) = (if a = last xs then n' else flink (h a))" if "a \<in> set xs" for a
      using f [of a] that by auto
  qed
  show "dqs h' p' ys None"
  proof (rule dqs_rehead [OF y])
    show "distinct ys" using d by simp
    show "flink (h' a) = flink (h a)" if "a \<in> set ys" for a
      using f [of a] ny [OF that] that by simp
    show "blink (h' a) = (if a = hd ys then p' else blink (h a))" if "a \<in> set ys" for a
      using b [of a] that by (cases ys) auto
  qed
qed

lemma dqs_link:
  assumes s: "dqs h None (xs @ ys) None" and d: "distinct (xs @ i # ys)"
    and i: "flink (h' i) = hdo ys None" "blink (h' i) = lasto xs None"
    and f: "\<And>a. a \<in> set (xs @ ys) \<Longrightarrow> flink (h' a) = (if lasto xs None = Some a then Some i else flink (h a))"
    and b: "\<And>a. a \<in> set (xs @ ys) \<Longrightarrow> blink (h' a) = (if hdo ys None = Some a then Some i else blink (h a))"
  shows "dqs h' None (xs @ i # ys) None"
proof -
  have x: "dqs h None xs (hdo ys None)" and y: "dqs h (lasto xs None) ys None"
    using s by (simp_all add: dqs_append)
  have "distinct (xs @ ys)" using d by simp
  from dqs_join [OF x y this f b] i show ?thesis by (simp add: dqs_append)
qed

lemma dqs_unlink:
  assumes s: "dqs h None (xs @ i # ys) None" and d: "distinct (xs @ i # ys)"
    and f: "\<And>a. a \<in> set (xs @ ys) \<Longrightarrow> flink (h' a) = (if lasto xs None = Some a then hdo ys None else flink (h a))"
    and b: "\<And>a. a \<in> set (xs @ ys) \<Longrightarrow> blink (h' a) = (if hdo ys None = Some a then lasto xs None else blink (h a))"
  shows "dqs h' None (xs @ ys) None"
proof -
  have x: "dqs h None xs (Some i)" and y: "dqs h (Some i) ys None"
    using s by (simp_all add: dqs_append)
  have "distinct (xs @ ys)" using d by simp
  from dqs_join [OF x y this f b] show ?thesis by (simp add: dqs_append)
qed

lemma dqs_links:
  assumes "dqs h p (xs @ i # ys) n"
  shows "flink (h i) = hdo ys n" and "blink (h i) = lasto xs p"
  using assms by (auto simp: dqs_append)

section \<open>What the operations do\<close>

lemma dq_peek_rep: "dq_rep h q xs \<Longrightarrow> dq_peek q = hdo xs None"
  by (simp add: dq_peek_def dq_rep_def)

lemma dq_empty_rep: "dq_rep h q xs \<Longrightarrow> dq_empty q \<longleftrightarrow> xs = []"
  by (cases xs) (auto simp: dq_empty_def dq_rep_def)

text \<open>
  The heap after an insertion, node by node, is the same for every insertion code: \<open>linked\<close> says
  that \<open>i\<close> stands between the nodes \<open>p\<close> and \<open>n\<close> (either may be NULL) and nothing else changed.
\<close>

definition linked :: "'n dheap \<Rightarrow> 'n dheap \<Rightarrow> 'n option \<Rightarrow> 'n \<Rightarrow> 'n option \<Rightarrow> bool" where
  "linked h h' p i n \<longleftrightarrow>
     flink (h' i) = n \<and> blink (h' i) = p \<and>
     (\<forall>a. a \<noteq> i \<longrightarrow> flink (h' a) = (if p = Some a then Some i else flink (h a))) \<and>
     (\<forall>a. a \<noteq> i \<longrightarrow> blink (h' a) = (if n = Some a then Some i else blink (h a))) \<and>
     (\<forall>a. a \<noteq> i \<and> p \<noteq> Some a \<and> n \<noteq> Some a \<longrightarrow> h' a = h a)"

lemma linked_rep:
  assumes r: "dq_rep h q (xs @ ys)" and i: "i \<notin> set (xs @ ys)"
    and l: "linked h h' (lasto xs None) i (hdo ys None)"
    and q: "head q' = hdo (xs @ i # ys) None" "tail q' = lasto (xs @ i # ys) None"
  shows "dq_rep h' q' (xs @ i # ys)" and "\<And>a. a \<notin> insert i (set (xs @ ys)) \<Longrightarrow> h' a = h a"
proof -
  have d: "distinct (xs @ i # ys)" using r i by (auto simp: dq_rep_def)
  have s: "dqs h None (xs @ ys) None" using r by (simp add: dq_rep_def)
  have ne: "a \<noteq> i" if "a \<in> set (xs @ ys)" for a using that i by blast
  have "dqs h' None (xs @ i # ys) None"
    by (rule dqs_link [OF s d]) (use l ne in \<open>simp_all add: linked_def\<close>)
  then show "dq_rep h' q' (xs @ i # ys)" using d q by (simp add: dq_rep_def)
  show "h' a = h a" if "a \<notin> insert i (set (xs @ ys))" for a
  proof -
    have "lasto xs None \<noteq> Some a" using that by (auto dest: last_in_set)
    moreover have "hdo ys None \<noteq> Some a" using that by (cases ys) auto
    ultimately show ?thesis using that l by (simp add: linked_def)
  qed
qed

lemma dq_addfirst_linked: "head q \<noteq> Some i \<Longrightarrow> linked h (fst (dq_addfirst h i q)) None i (head q)"
  by (cases "head q") (auto simp: linked_def dq_addfirst_def heap_simps)

lemma dq_addfirst_queue:
  "snd (dq_addfirst h i q) = q\<lparr>head := Some i, tail := (if head q = None then Some i else tail q)\<rparr>"
  by (cases "head q") (simp_all add: dq_addfirst_def)

lemma dq_addfirst_rep:
  assumes r: "dq_rep h q xs" and i: "i \<notin> set xs" and e: "dq_addfirst h i q = (h', q')"
  shows "dq_rep h' q' (i # xs)" and "\<And>a. a \<notin> insert i (set xs) \<Longrightarrow> h' a = h a"
proof -
  have h': "h' = fst (dq_addfirst h i q)" and q': "q' = snd (dq_addfirst h i q)" using e by simp_all
  have hq: "head q = hdo xs None" "tail q = lasto xs None" using r by (simp_all add: dq_rep_def)
  have "head q \<noteq> Some i" using hq i by (cases xs) auto
  then have l: "linked h h' (lasto [] None) i (hdo xs None)"
    using dq_addfirst_linked [of q i h] by (simp add: h' hq)
  have q: "head q' = hdo ([] @ i # xs) None" "tail q' = lasto ([] @ i # xs) None"
    by (simp_all add: q' dq_addfirst_queue hq split: list.splits)
  from r have r': "dq_rep h q ([] @ xs)" and i': "i \<notin> set ([] @ xs)" using i by simp_all
  from linked_rep [OF r' i' l q] show "dq_rep h' q' (i # xs)"
    and "\<And>a. a \<notin> insert i (set xs) \<Longrightarrow> h' a = h a" by simp_all
qed

lemma dq_addlast_linked:
  assumes "dq_rep h q xs" and "i \<notin> set xs"
  obtains h' q' where "dq_addlast h i q = Some (h', q')" and "linked h h' (lasto xs None) i None"
    and "head q' = hdo (xs @ [i]) None" and "tail q' = Some i"
proof (cases xs rule: rev_cases)
  case Nil
  with assms have "head q = None" "tail q = None" by (simp_all add: dq_rep_def)
  then show thesis
    by (intro that) (auto simp: dq_addlast_def linked_def heap_simps Nil)
next
  case (snoc ys y)
  with assms have "head q = hdo (ys @ [y]) None" "tail q = Some y" "y \<noteq> i"
    by (auto simp: dq_rep_def)
  then show thesis
    by (intro that [of "set_flink (set_blink (set_flink h i None) i (Some y)) y (Some i)" "q\<lparr>tail := Some i\<rparr>"])
      (cases ys; auto simp: dq_addlast_def linked_def heap_simps snoc)+
qed

lemma dq_addlast_rep:
  assumes r: "dq_rep h q xs" and i: "i \<notin> set xs"
  obtains h' q' where "dq_addlast h i q = Some (h', q')" and "dq_rep h' q' (xs @ [i])"
    and "\<And>a. a \<notin> insert i (set xs) \<Longrightarrow> h' a = h a"
proof -
  obtain h' q' where e: "dq_addlast h i q = Some (h', q')"
    and l: "linked h h' (lasto xs None) i (hdo [] None)"
    and q: "head q' = hdo (xs @ i # []) None" "tail q' = lasto (xs @ i # []) None"
    using dq_addlast_linked [OF r i] by auto
  from r have r': "dq_rep h q (xs @ [])" and i': "i \<notin> set (xs @ [])" using i by simp_all
  from linked_rep [OF r' i' l q] have "dq_rep h' q' (xs @ [i])"
    and "\<And>a. a \<notin> insert i (set xs) \<Longrightarrow> h' a = h a" by simp_all
  with e show thesis by (blast intro: that)
qed

text \<open>The heap after \<open>dq_rem\<close>, node by node.\<close>

lemma dq_rem_flink:
  "flink (fst (dq_rem h p q) a) =
     (if a = p then None else if blink (h p) = Some a then flink (h p) else flink (h a))"
  by (cases "blink (h p)"; cases "flink (h p)") (simp_all add: dq_rem_def heap_simps)

lemma dq_rem_blink:
  "blink (fst (dq_rem h p q) a) =
     (if a = p then None else if flink (h p) = Some a then blink (h p) else blink (h a))"
  by (cases "blink (h p)"; cases "flink (h p)") (simp_all add: dq_rem_def heap_simps)

lemma dq_rem_queue:
  "snd (dq_rem h p q) =
     q\<lparr>head := (if blink (h p) = None then flink (h p) else head q),
       tail := (if flink (h p) = None then blink (h p) else tail q)\<rparr>"
  by (cases "blink (h p)"; cases "flink (h p)") (simp_all add: dq_rem_def)

lemma dq_rem_other: "a \<noteq> p \<Longrightarrow> blink (h p) \<noteq> Some a \<Longrightarrow> flink (h p) \<noteq> Some a \<Longrightarrow> fst (dq_rem h p q) a = h a"
  by (cases "blink (h p)"; cases "flink (h p)") (simp_all add: dq_rem_def heap_simps)

lemma dq_rem_rep:
  assumes r: "dq_rep h q (xs @ i # ys)" and e: "dq_rem h i q = (h', q')"
  shows "dq_rep h' q' (xs @ ys)" and "flink (h' i) = None" and "blink (h' i) = None"
    and "\<And>a. a \<notin> set (xs @ i # ys) \<Longrightarrow> h' a = h a"
proof -
  have s: "dqs h None (xs @ i # ys) None" and d: "distinct (xs @ i # ys)"
    using r by (simp_all add: dq_rep_def)
  note l = dqs_links [OF s]
  have h': "h' = fst (dq_rem h i q)" and q': "q' = snd (dq_rem h i q)" using e by simp_all
  have "i \<notin> set (xs @ ys)" using d by auto
  then have "dqs h' None (xs @ ys) None"
    by (intro dqs_unlink [OF s d]) (auto simp: h' dq_rem_flink dq_rem_blink l simp del: set_append)
  moreover have "head q = hdo (xs @ i # ys) None" "tail q = lasto (xs @ i # ys) None"
    using r by (simp_all add: dq_rep_def)
  then have "head q' = hdo (xs @ ys) None" "tail q' = lasto (xs @ ys) None"
    by (cases xs; cases ys; simp add: q' dq_rem_queue l)+
  ultimately show "dq_rep h' q' (xs @ ys)" using d by (simp add: dq_rep_def)
  show "flink (h' i) = None" "blink (h' i) = None"
    by (simp_all add: h' dq_rem_flink dq_rem_blink)
  show "h' a = h a" if "a \<notin> set (xs @ i # ys)" for a
  proof -
    have "lasto xs None \<noteq> Some a" using that by (auto dest: last_in_set)
    moreover have "hdo ys None \<noteq> Some a" using that by (cases ys) auto
    ultimately show ?thesis using that by (simp add: h' dq_rem_other l)
  qed
qed


lemma dq_rem_mem:
  assumes r: "dq_rep h q xs" and i: "i \<in> set xs" and e: "dq_rem h i q = (h', q')"
  shows "dq_rep h' q' (remove1 i xs)" and "\<And>a. a \<notin> set xs \<Longrightarrow> h' a = h a"
proof -
  obtain us vs where x: "xs = us @ i # vs" using i by (auto simp: in_set_conv_decomp)
  have "distinct xs" using r by (simp add: dq_rep_def)
  then have m: "remove1 i xs = us @ vs" unfolding x by (rule distinct_split_remove1)
  note f = dq_rem_rep [OF r [unfolded x] e]
  show "dq_rep h' q' (remove1 i xs)" using f(1) m by simp
  show "h' a = h a" if "a \<notin> set xs" for a using f(4) [of a] that x by simp
qed

lemma dq_addbefore_rep:
  assumes r: "dq_rep h q (xs @ n # ys)" and i: "i \<notin> set (xs @ n # ys)"
  obtains h' q' where "dq_addbefore h n i q = Some (h', q')" and "dq_rep h' q' (xs @ i # n # ys)"
proof (cases xs rule: rev_cases)
  case Nil
  then have hq: "head q = Some n" using r by (simp add: dq_rep_def)
  obtain h' q' where e: "dq_addfirst h i q = (h', q')" by fastforce
  from dq_addfirst_rep(1) [OF r i e] Nil hq e show thesis
    by (intro that [of h' q']) (simp_all add: dq_addbefore_def)
next
  case (snoc us u)
  have s: "dqs h None (xs @ n # ys) None" and d: "distinct (xs @ n # ys)"
    and hq: "head q = hdo (xs @ n # ys) None" "tail q = lasto (xs @ n # ys) None"
    using r by (simp_all add: dq_rep_def)
  have b: "blink (h n) = Some u" using dqs_links(2) [OF s] snoc by simp
  have hn: "head q \<noteq> None" "head q \<noteq> Some n" using hq d snoc by (cases us; auto)+
  define h' where "h' = set_blink (set_flink (set_blink (set_flink h i (Some n)) i (Some u)) u (Some i)) n (Some i)"
  have e: "dq_addbefore h n i q = Some (h', q)" using b hn by (auto simp: dq_addbefore_def h'_def)
  have "u \<noteq> i" "n \<noteq> i" "u \<noteq> n" using i d snoc by auto
  then have l: "linked h h' (lasto xs None) i (hdo (n # ys) None)"
    by (auto simp: linked_def h'_def heap_simps snoc)
  have "head q = hdo (xs @ i # n # ys) None" "tail q = lasto (xs @ i # n # ys) None"
    using hq snoc by (cases us; simp)+
  from linked_rep(1) [OF r i l this] e show thesis by (blast intro: that)
qed

lemma dq_addafter_rep:
  assumes r: "dq_rep h q (xs @ p # ys)" and i: "i \<notin> set (xs @ p # ys)"
  obtains h' q' where "dq_addafter h p i q = Some (h', q')" and "dq_rep h' q' (xs @ p # i # ys)"
proof (cases ys)
  case Nil
  then have "tail q = Some p" using r by (simp add: dq_rep_def)
  then have e: "dq_addafter h p i q = dq_addlast h i q" by (simp add: dq_addafter_def)
  from dq_addlast_rep [OF r i] obtain h' q' where "dq_addlast h i q = Some (h', q')"
    and "dq_rep h' q' ((xs @ p # ys) @ [i])" by blast
  with e Nil show thesis by (intro that) simp_all
next
  case (Cons y zs)
  have s: "dqs h None (xs @ p # ys) None" and d: "distinct (xs @ p # ys)"
    and hq: "head q = hdo (xs @ p # ys) None" "tail q = lasto (xs @ p # ys) None"
    using r by (simp_all add: dq_rep_def)
  have f: "flink (h p) = Some y" using dqs_links(1) [OF s] Cons by simp
  have "last ys \<noteq> p" using d Cons by (metis distinct.simps(2) distinct_append last_in_set list.distinct(1))
  then have hn: "head q \<noteq> None" "tail q \<noteq> Some p" using hq Cons by (cases xs; simp)+
  define h' where "h' = set_flink (set_blink (set_flink (set_blink h i (Some p)) i (Some y)) y (Some i)) p (Some i)"
  have e: "dq_addafter h p i q = Some (h', q)" using f hn by (auto simp: dq_addafter_def h'_def)
  have "p \<noteq> i" "y \<noteq> i" "p \<noteq> y" using i d Cons by auto
  then have l: "linked h h' (lasto (xs @ [p]) None) i (hdo ys None)"
    by (auto simp: linked_def h'_def heap_simps Cons)
  have q: "head q = hdo ((xs @ [p]) @ i # ys) None" "tail q = lasto ((xs @ [p]) @ i # ys) None"
    using hq Cons by (cases xs; simp)+
  have r': "dq_rep h q ((xs @ [p]) @ ys)" and i': "i \<notin> set ((xs @ [p]) @ ys)" using r i by simp_all
  from linked_rep(1) [OF r' i' l q] e show thesis by (intro that) simp_all
qed

lemma dq_remfirst_is_rem:
  assumes "dq_rep h q (x # xs)"
  shows "dq_remfirst h q = (Some x, dq_rem h x q)"
proof -
  have "head q = Some x" "tail q = lasto (x # xs) None" "blink (h x) = None" "flink (h x) = hdo xs None"
    using assms by (simp_all add: dq_rep_def)
  then show ?thesis by (cases xs) (simp_all add: dq_remfirst_def dq_rem_def Let_def)
qed

lemma dq_remlast_is_rem:
  assumes "dq_rep h q (xs @ [x])"
  shows "dq_remlast h q = (Some x, dq_rem h x q)"
proof -
  have "tail q = Some x" "head q = hdo (xs @ [x]) None" "blink (h x) = lasto xs None" "flink (h x) = None"
    using assms dqs_links [of h None xs x "[]" None] by (simp_all add: dq_rep_def)
  then show ?thesis by (cases xs) (auto simp: dq_remlast_def dq_rem_def Let_def)
qed

lemma dq_count_from_dqs: "dqs h p xs None \<Longrightarrow> dq_count_from h (hdo xs None) cnt = Some (cnt + of_nat (length xs))"
proof (induction xs arbitrary: p cnt)
  case Nil
  then show ?case by (simp add: dq_count_from.simps)
next
  case (Cons x xs)
  then show ?case by (subst dq_count_from.simps) (auto simp: algebra_simps)
qed

lemma dq_cat_rep:
  assumes r1: "dq_rep h q1 xs" and r2: "dq_rep h q2 ys" and d: "set xs \<inter> set ys = {}"
  obtains h' q1' q2' where "dq_cat h q1 q2 = Some (h', q1', q2')"
    and "dq_rep h' q1' []" and "dq_rep h' q2' (ys @ xs)"
proof -
  have hq: "head q1 = hdo xs None" "tail q1 = lasto xs None" "head q2 = hdo ys None" "tail q2 = lasto ys None"
    and y: "dqs h None ys None" and x: "dqs h None xs None" and dd: "distinct (ys @ xs)"
    using r1 r2 d by (auto simp: dq_rep_def)
  consider "ys = []" | "ys \<noteq> []" "xs = []" | (both) z zs w ws where "ys = z # zs" "xs = w # ws"
    by (cases ys; cases xs) auto
  then show thesis
  proof cases
    case 1
    then have e: "dq_cat h q1 q2 = Some (h, dq_init, \<lparr>head = head q1, tail = tail q1\<rparr>)"
      by (simp add: dq_cat_def dq_empty_def dq_move_def hq)
    have "dq_rep h \<lparr>head = head q1, tail = tail q1\<rparr> (ys @ xs)"
      using r1 1 by (simp add: dq_rep_def)
    then show thesis by (rule that [OF e dq_rep_init])
  next
    case 2
    then have "dq_cat h q1 q2 = Some (h, q1, q2)"
      by (cases ys) (simp_all add: dq_cat_def dq_empty_def hq)
    with r1 r2 2 show thesis by (intro that) simp_all
  next
    case both
    define h' where "h' = set_blink (set_flink h (last ys) (Some w)) w (Some (last ys))"
    have e: "dq_cat h q1 q2 = Some (h', dq_init, q2\<lparr>tail := tail q1\<rparr>)"
      using both by (simp add: dq_cat_def dq_empty_def h'_def hq)
    have "dqs h' None ys (Some w)" "dqs h' (Some (last ys)) xs None"
      by (rule dqs_join [OF y x dd, of h' "Some w" "Some (last ys)"];
          use both in \<open>simp add: h'_def heap_simps\<close>)+
    then have "dqs h' None (ys @ xs) None" unfolding dqs_append using both by simp
    then have "dq_rep h' (q2\<lparr>tail := tail q1\<rparr>) (ys @ xs)"
      using both dd by (simp add: dq_rep_def hq)
    then show thesis by (rule that [OF e dq_rep_init])
  qed
qed


subsection \<open>Prioritized insertion\<close>

lemma prio_search_dqs:
  "dqs h p xs None \<Longrightarrow>
     prio_search h prio k (hdo xs None) = Some (hdo (dropWhile (\<lambda>y. k \<le> prio y) xs) None)"
proof (induction xs arbitrary: p)
  case Nil
  then show ?case by (simp add: prio_search.simps)
next
  case (Cons x xs)
  then show ?case by (subst prio_search.simps) auto
qed

lemma nxsched_add_prioritized_rep:
  assumes r: "dq_rep h q xs" and i: "i \<notin> set xs"
  obtains h' q' where
    "nxsched_add_prioritized h prio i q = Some (hd (ins_desc prio i xs) = i, h', q')"
    and "dq_rep h' q' (ins_desc prio i xs)"
    and "\<And>a. a \<notin> insert i (set xs) \<Longrightarrow> h' a = h a"
proof -
  define us where "us = takeWhile (\<lambda>y. prio i \<le> prio y) xs"
  define vs where "vs = dropWhile (\<lambda>y. prio i \<le> prio y) xs"
  have x: "xs = us @ vs" and ins: "ins_desc prio i xs = us @ i # vs"
    by (simp_all add: us_def vs_def ins_desc_def)
  have s: "dqs h None (us @ vs) None" and d: "distinct (us @ vs)"
    and hq: "head q = hdo (us @ vs) None" "tail q = lasto (us @ vs) None"
    using r by (simp_all add: dq_rep_def x)
  have srch: "prio_search h prio (prio i) (head q) = Some (hdo vs None)"
  proof -
    have "dqs h None xs None" "head q = hdo xs None" using s hq x by simp_all
    then show ?thesis using prio_search_dqs [of h None xs prio "prio i"] by (simp add: vs_def)
  qed
  have ix: "i \<notin> set (us @ vs)" using i x by simp
  have flag: "hd (ins_desc prio i xs) = i \<longleftrightarrow> us = []" using ix ins by (cases us) auto
  have tq: "tail q = lasto (us @ vs) None" by (rule hq)
  have bl: "blink (h v) = lasto us None" if "vs = v # ws" for v ws
    using dqs_links(2) [of h None us v ws None] s that by simp
  have "\<exists>h' q'. nxsched_add_prioritized h prio i q = Some (us = [], h', q') \<and>
          linked h h' (lasto us None) i (hdo vs None) \<and>
          head q' = (if us = [] then Some i else head q) \<and>
          tail q' = (if vs = [] then Some i else tail q)"
  proof (cases vs)
    case Nil
    then have sr: "prio_search h prio (prio i) (head q) = Some None" using srch by simp
    show ?thesis using ix sr tq Nil
      by (cases us rule: rev_cases) (auto simp: nxsched_add_prioritized_def linked_def heap_simps)
  next
    case (Cons v ws)
    then have sr: "prio_search h prio (prio i) (head q) = Some (Some v)" using srch by simp
    show ?thesis using ix sr bl Cons d
      by (cases us rule: rev_cases) (auto simp: nxsched_add_prioritized_def linked_def heap_simps)
  qed
  moreover have "hdo (us @ i # vs) None = (if us = [] then Some i else head q)"
    using hq(1) by (cases us) simp_all
  moreover have "lasto (us @ i # vs) None = (if vs = [] then Some i else tail q)"
    using hq(2) by simp
  ultimately have "\<exists>h' q'. nxsched_add_prioritized h prio i q = Some (us = [], h', q') \<and>
          linked h h' (lasto us None) i (hdo vs None) \<and>
          head q' = hdo (us @ i # vs) None \<and> tail q' = lasto (us @ i # vs) None" by metis
  then obtain h' q' where e: "nxsched_add_prioritized h prio i q = Some (us = [], h', q')"
    and l: "linked h h' (lasto us None) i (hdo vs None)"
    and q: "head q' = hdo (us @ i # vs) None" "tail q' = lasto (us @ i # vs) None" by blast
  note lr = linked_rep [OF r [unfolded x] ix l q]
  show thesis
    by (rule that [of h' q']) (use e flag lr ins x in auto)
qed

section \<open>The interface the scheduler uses\<close>

text \<open>
  A task queue, seen through the list of its members. The laws are the contract of
  \<open>nxsched_add_prioritized\<close>, \<open>dq_rem\<close> and \<open>dq_peek\<close>; what follows inside the locale is what the
  scheduler needs of them.
\<close>

locale task_queue =
  fixes rep :: "'s \<Rightarrow> 'n list \<Rightarrow> bool"
    and add :: "('n \<Rightarrow> u8) \<Rightarrow> 'n \<Rightarrow> 's \<Rightarrow> (bool \<times> 's) option"
    and rem :: "'n \<Rightarrow> 's \<Rightarrow> 's"
    and peek :: "'s \<Rightarrow> 'n option"
  assumes rep_distinct: "rep s xs \<Longrightarrow> distinct xs"
    and add_rep: "rep s xs \<Longrightarrow> n \<notin> set xs \<Longrightarrow>
          \<exists>s'. add prio n s = Some (hd (ins_desc prio n xs) = n, s') \<and> rep s' (ins_desc prio n xs)"
    and rem_rep: "rep s xs \<Longrightarrow> n \<in> set xs \<Longrightarrow> rep (rem n s) (remove1 n xs)"
    and peek_rep: "rep s xs \<Longrightarrow> peek s = hdo xs None"
begin

lemma peek_highest:
  "rep s xs \<Longrightarrow> desc prio xs \<Longrightarrow> peek s = Some n \<Longrightarrow> n \<in> set xs \<and> (\<forall>m \<in> set xs. prio m \<le> prio n)"
  by (cases xs) (auto simp: peek_rep)

text \<open>Taking a task out and putting it back under a new priority keeps the queue in order.\<close>

lemma requeue:
  assumes "rep s xs" and "n \<in> set xs" and "desc prio xs" and same: "\<And>m. m \<noteq> n \<Longrightarrow> prio' m = prio m"
  shows "\<exists>b s' ys. add prio' n (rem n s) = Some (b, s') \<and> rep s' ys \<and> desc prio' ys \<and> mset ys = mset xs"
proof -
  have d: "distinct xs" using assms(1) by (rule rep_distinct)
  have r: "rep (rem n s) (remove1 n xs)" using assms(1,2) by (rule rem_rep)
  have n: "n \<notin> set (remove1 n xs)" using d by simp
  have "desc prio' (remove1 n xs) = desc prio (remove1 n xs)"
    using same n by (intro desc_cong) metis
  then have "desc prio' (ins_desc prio' n (remove1 n xs))"
    using assms(3) by (simp add: desc_remove1)
  moreover have "mset (ins_desc prio' n (remove1 n xs)) = mset xs"
    using assms(2) by (simp add: mset_ins_desc)
  ultimately show ?thesis using add_rep [OF r n, of prio'] by blast
qed

lemma add_then_rem:
  assumes "rep s xs" and "n \<notin> set xs"
  shows "\<exists>b s'. add prio n s = Some (b, s') \<and> rep (rem n s') xs"
proof -
  obtain b s' where a: "add prio n s = Some (b, s')" and r: "rep s' (ins_desc prio n xs)"
    using add_rep [OF assms, of prio] by blast
  have "rep (rem n s') (remove1 n (ins_desc prio n xs))" by (rule rem_rep [OF r]) simp
  then have "rep (rem n s') xs" using assms(2) by (simp add: remove1_ins_desc)
  with a show ?thesis by blast
qed

end

definition dq_add_prio :: "('n \<Rightarrow> u8) \<Rightarrow> 'n \<Rightarrow> 'n dheap \<times> 'n dq_queue \<Rightarrow> (bool \<times> 'n dheap \<times> 'n dq_queue) option" where
  "dq_add_prio prio n s = nxsched_add_prioritized (fst s) prio n (snd s)"

interpretation tq: task_queue
  "\<lambda>s xs. dq_rep (fst s) (snd s) xs" dq_add_prio "\<lambda>n s. dq_rem (fst s) n (snd s)" "\<lambda>s. dq_peek (snd s)"
proof unfold_locales
  fix s :: "'n dheap \<times> 'n dq_queue" and xs n and prio :: "'n \<Rightarrow> u8"
  assume r: "dq_rep (fst s) (snd s) xs"
  show "distinct xs" using r by (simp add: dq_rep_def)
  show "dq_peek (snd s) = hdo xs None" using r by (rule dq_peek_rep)
  show "\<exists>s'. dq_add_prio prio n s = Some (hd (ins_desc prio n xs) = n, s') \<and>
          dq_rep (fst s') (snd s') (ins_desc prio n xs)" if "n \<notin> set xs"
    using nxsched_add_prioritized_rep [OF r that, of prio] by (metis dq_add_prio_def fst_conv snd_conv)
  show "dq_rep (fst (dq_rem (fst s) n (snd s))) (snd (dq_rem (fst s) n (snd s))) (remove1 n xs)"
    if "n \<in> set xs"
    using dq_rem_mem(1) [OF r that] by (metis prod.collapse)
qed

end
