(* ===== verification/Kernel.thy ===== *)
theory Kernel
  imports List_Node Dq_Queue
begin

text \<open>
  The kernel data the components share: the task control block of \<open>include/nuttx/sched.h\<close> (with
  the \<open>CONFIG_FRAP\<close> fields as a record extension, as the \<open>#ifdef\<close> adds them), the FRAP resource
  descriptor of \<open>include/nuttx/frap.h\<close>, and the scheduler's global variables. The configuration is
  the one FRAP requires and its run script builds: \<open>CONFIG_SMP\<close>, round-robin scheduling, no
  sporadic scheduling, tick-driven timer, priority inheritance.

  A TCB or a resource is named by its address (a natural number); a pointer that may be NULL is
  an \<open>option\<close>. \<open>CONFIG_SMP_NCPUS\<close> and \<open>MSEC2TICK(CONFIG_RR_INTERVAL)\<close> are the read-only fields
  \<open>ncpus\<close> and \<open>rr_interval\<close>. The task lists are kept as lists of TCBs: theory \<open>Dq_Queue\<close> shows that the pointer
  code of the queues implements these lists. The FIFO nodes of FRAP, which are deleted without
  naming their list, stay on the explicit heap of theory \<open>List_Node\<close>.
\<close>

section \<open>Task control blocks\<close>

type_synonym tid = nat
type_synonym rid = nat
type_synonym oid = nat

datatype tstate =
    TSTATE_TASK_INVALID
  | TSTATE_TASK_PENDING
  | TSTATE_TASK_READYTORUN
  | TSTATE_TASK_ASSIGNED
  | TSTATE_TASK_RUNNING
  | TSTATE_TASK_INACTIVE
  | TSTATE_WAIT_SEM
  | TSTATE_WAIT_SIG
  | TSTATE_WAIT_EVENT
  | TSTATE_WAIT_MQNOTEMPTY
  | TSTATE_WAIT_MQNOTFULL
  | TSTATE_WAIT_PAGEFILL
  | TSTATE_TASK_STOPPED

text \<open>The object a blocked task waits on (\<open>void *waitobj\<close>), tagged with its kind.\<close>

datatype waitobj = WSem oid | WEvent oid | WMq oid

record tcb_s =
  pid :: int
  sched_priority :: u8
  init_priority :: u8
  task_state :: tstate
  boost_priority :: u8
  base_priority :: u8
  cpu :: nat
  affinity :: u32
  flags :: u32
  lockcount :: i16
  irqcount :: i16
  errcode :: int
  timeslice :: i32
  waitobj :: "waitobj option"

record frap_tcb_s = tcb_s +
  frap_waiting_res :: "rid option"
  frap_base_prio :: u8
  frap_spin_prio :: u8
  frap_saved_prio :: u8
  frap_in_cs :: bool
  frap_enqueued :: bool
  frap_cancelled :: bool
  frap_queue_preempt_cnt :: u32

abbreviation SCHED_PRIORITY_MAX :: int where "SCHED_PRIORITY_MAX \<equiv> 255"
abbreviation SCHED_PRIORITY_MIN :: int where "SCHED_PRIORITY_MIN \<equiv> 1"

definition TCB_FLAG_POLICY_MASK :: u32 where "TCB_FLAG_POLICY_MASK = push_bit 3 3"
definition TCB_FLAG_SCHED_FIFO :: u32 where "TCB_FLAG_SCHED_FIFO = push_bit 3 0"
definition TCB_FLAG_SCHED_RR :: u32 where "TCB_FLAG_SCHED_RR = push_bit 3 1"
definition TCB_FLAG_SCHED_SPORADIC :: u32 where "TCB_FLAG_SCHED_SPORADIC = push_bit 3 2"
definition TCB_FLAG_TTYPE_KERNEL :: u32 where "TCB_FLAG_TTYPE_KERNEL = push_bit 0 2"
definition TCB_FLAG_CPU_LOCKED :: u32 where "TCB_FLAG_CPU_LOCKED = push_bit 5 1"

text \<open>\<open>nxsched_islocked_tcb(tcb)\<close>: \<open>lockcount\<close> is a signed 16-bit field.\<close>

definition nxsched_islocked_tcb :: "'a tcb_s_scheme \<Rightarrow> bool" where
  "nxsched_islocked_tcb t \<longleftrightarrow> 0 < sint (lockcount t)"

definition cpu_locked :: "'a tcb_s_scheme \<Rightarrow> bool" where
  "cpu_locked t \<longleftrightarrow> flags t AND TCB_FLAG_CPU_LOCKED \<noteq> 0"

definition CPU_ISSET :: "nat \<Rightarrow> u32 \<Rightarrow> bool" where
  "CPU_ISSET c s \<longleftrightarrow> s AND push_bit c 1 \<noteq> 0"

section \<open>FRAP resources and FIFO nodes\<close>

datatype spinlock = SP_UNLOCKED | SP_LOCKED

record frap_res =
  sl :: spinlock
  owner :: "tid option"
  resid :: u32
  is_global :: bool
  ceiling :: u8

text \<open>
  The list nodes of FRAP: the \<open>fifo\<close> head embedded in a resource and the \<open>frap_waiter_node\<close>
  embedded in a TCB. \<open>list_container_of\<close> maps a waiter node back to its TCB.
\<close>

datatype fnode = Fifo rid | Waiter tid

section \<open>Task lists and the global state\<close>

datatype tlist =
    L_readytorun
  | L_inactivetasks
  | L_waitingforsignal
  | L_waitingforfill
  | L_stoppedtasks
  | L_sem oid
  | L_event oid
  | L_mqnotempty oid
  | L_mqnotfull oid

datatype task_deliver = SWITCH_NONE | SWITCH_HIGHER | SWITCH_EQUAL

record kernel =
  ncpus :: nat
  rr_interval :: i32
  g_idletcb :: "nat \<Rightarrow> tid"
  tcbs :: "tid \<Rightarrow> frap_tcb_s"
  tlists :: "tlist \<Rightarrow> tid list"
  g_assignedtasks :: "nat \<Rightarrow> tid"
  g_running_tasks :: "nat \<Rightarrow> tid"
  g_delivertasks :: "nat \<Rightarrow> task_deliver"
  g_lastpid :: int
  g_npidhash :: nat
  g_pidhash :: "nat \<Rightarrow> tid option"
  frap_ress :: "rid \<Rightarrow> frap_res"
  nodes :: "fnode lheap"

definition upd_tcb :: "tid \<Rightarrow> (frap_tcb_s \<Rightarrow> frap_tcb_s) \<Rightarrow> kernel \<Rightarrow> kernel" where
  "upd_tcb t f k = k\<lparr>tcbs := (tcbs k)(t := f (tcbs k t))\<rparr>"

definition upd_list :: "tlist \<Rightarrow> (tid list \<Rightarrow> tid list) \<Rightarrow> kernel \<Rightarrow> kernel" where
  "upd_list l f k = k\<lparr>tlists := (tlists k)(l := f (tlists k l))\<rparr>"

definition upd_res :: "rid \<Rightarrow> (frap_res \<Rightarrow> frap_res) \<Rightarrow> kernel \<Rightarrow> kernel" where
  "upd_res r f k = k\<lparr>frap_ress := (frap_ress k)(r := f (frap_ress k r))\<rparr>"

abbreviation prio :: "kernel \<Rightarrow> tid \<Rightarrow> u8" where
  "prio k t \<equiv> sched_priority (tcbs k t)"

abbreviation tstate_of :: "kernel \<Rightarrow> tid \<Rightarrow> tstate" where
  "tstate_of k t \<equiv> task_state (tcbs k t)"

abbreviation readytorun :: "kernel \<Rightarrow> tid list" where
  "readytorun k \<equiv> tlists k L_readytorun"

definition current_task :: "kernel \<Rightarrow> nat \<Rightarrow> tid" where
  "current_task k c = g_assignedtasks k c"

definition is_idle_task :: "kernel \<Rightarrow> tid \<Rightarrow> bool" where
  "is_idle_task k t \<longleftrightarrow> pid (tcbs k t) < int (ncpus k)"

text \<open>Operations on the task lists, at the level of lists.\<close>

definition tl_rem :: "tid \<Rightarrow> tlist \<Rightarrow> kernel \<Rightarrow> kernel" where
  "tl_rem t l k = upd_list l (remove1 t) k"

definition tl_addlast :: "tid \<Rightarrow> tlist \<Rightarrow> kernel \<Rightarrow> kernel" where
  "tl_addlast t l k = upd_list l (\<lambda>xs. xs @ [t]) k"

definition tl_add_prioritized :: "tid \<Rightarrow> tlist \<Rightarrow> kernel \<Rightarrow> kernel" where
  "tl_add_prioritized t l k = upd_list l (ins_desc (prio k) t) k"

definition tl_peek :: "tlist \<Rightarrow> kernel \<Rightarrow> tid option" where
  "tl_peek l k = hdo (tlists k l) None"

subsection \<open>The task-list table\<close>

text \<open>
  \<open>g_tasklisttable\<close> as \<open>tasklist_initialize\<close> fills it: the list of each state (the offset entries
  select a list inside the wait object) and whether it is prioritized. A state without an entry,
  or a wait object of another kind, has no list.
\<close>

definition tlist_blocked :: "frap_tcb_s \<Rightarrow> tlist option" where
  "tlist_blocked t =
     (case task_state t of
        TSTATE_TASK_READYTORUN \<Rightarrow> Some L_readytorun
      | TSTATE_TASK_INACTIVE \<Rightarrow> Some L_inactivetasks
      | TSTATE_WAIT_SEM \<Rightarrow> (case waitobj t of Some (WSem s) \<Rightarrow> Some (L_sem s) | _ \<Rightarrow> None)
      | TSTATE_WAIT_EVENT \<Rightarrow> (case waitobj t of Some (WEvent e) \<Rightarrow> Some (L_event e) | _ \<Rightarrow> None)
      | TSTATE_WAIT_SIG \<Rightarrow> Some L_waitingforsignal
      | TSTATE_WAIT_MQNOTEMPTY \<Rightarrow> (case waitobj t of Some (WMq m) \<Rightarrow> Some (L_mqnotempty m) | _ \<Rightarrow> None)
      | TSTATE_WAIT_MQNOTFULL \<Rightarrow> (case waitobj t of Some (WMq m) \<Rightarrow> Some (L_mqnotfull m) | _ \<Rightarrow> None)
      | TSTATE_WAIT_PAGEFILL \<Rightarrow> Some L_waitingforfill
      | TSTATE_TASK_STOPPED \<Rightarrow> Some L_stoppedtasks
      | _ \<Rightarrow> None)"

definition tlist_isprioritized :: "tstate \<Rightarrow> bool" where
  "tlist_isprioritized s \<longleftrightarrow>
     s \<in> {TSTATE_TASK_READYTORUN, TSTATE_WAIT_SEM, TSTATE_WAIT_EVENT,
          TSTATE_WAIT_MQNOTEMPTY, TSTATE_WAIT_MQNOTFULL, TSTATE_WAIT_PAGEFILL}"

section \<open>Reads after writes\<close>

lemma tcbs_upd_tcb [simp]: "tcbs (upd_tcb t f k) = (tcbs k)(t := f (tcbs k t))"
  by (simp add: upd_tcb_def)

lemma tlists_upd_list [simp]: "tlists (upd_list l f k) = (tlists k)(l := f (tlists k l))"
  by (simp add: upd_list_def)

lemma frap_ress_upd_res [simp]: "frap_ress (upd_res r f k) = (frap_ress k)(r := f (frap_ress k r))"
  by (simp add: upd_res_def)

lemma upd_tcb_frame [simp]:
  "ncpus (upd_tcb t f k) = ncpus k" "rr_interval (upd_tcb t f k) = rr_interval k" "g_idletcb (upd_tcb t f k) = g_idletcb k"
  "tlists (upd_tcb t f k) = tlists k" "g_assignedtasks (upd_tcb t f k) = g_assignedtasks k"
  "g_running_tasks (upd_tcb t f k) = g_running_tasks k"
  "g_delivertasks (upd_tcb t f k) = g_delivertasks k"
  "frap_ress (upd_tcb t f k) = frap_ress k" "nodes (upd_tcb t f k) = nodes k"
  "g_lastpid (upd_tcb t f k) = g_lastpid k" "g_npidhash (upd_tcb t f k) = g_npidhash k" "g_pidhash (upd_tcb t f k) = g_pidhash k"
  by (simp_all add: upd_tcb_def)

lemma upd_list_frame [simp]:
  "ncpus (upd_list l g k) = ncpus k" "rr_interval (upd_list l g k) = rr_interval k" "g_idletcb (upd_list l g k) = g_idletcb k"
  "tcbs (upd_list l g k) = tcbs k" "g_assignedtasks (upd_list l g k) = g_assignedtasks k"
  "g_running_tasks (upd_list l g k) = g_running_tasks k"
  "g_delivertasks (upd_list l g k) = g_delivertasks k"
  "frap_ress (upd_list l g k) = frap_ress k" "nodes (upd_list l g k) = nodes k"
  "g_lastpid (upd_list l g k) = g_lastpid k" "g_npidhash (upd_list l g k) = g_npidhash k" "g_pidhash (upd_list l g k) = g_pidhash k"
  by (simp_all add: upd_list_def)

lemma upd_res_frame [simp]:
  "ncpus (upd_res r u k) = ncpus k" "rr_interval (upd_res r u k) = rr_interval k" "g_idletcb (upd_res r u k) = g_idletcb k"
  "tcbs (upd_res r u k) = tcbs k" "tlists (upd_res r u k) = tlists k"
  "g_assignedtasks (upd_res r u k) = g_assignedtasks k"
  "g_running_tasks (upd_res r u k) = g_running_tasks k"
  "g_delivertasks (upd_res r u k) = g_delivertasks k" "nodes (upd_res r u k) = nodes k"
  "g_lastpid (upd_res r u k) = g_lastpid k" "g_npidhash (upd_res r u k) = g_npidhash k" "g_pidhash (upd_res r u k) = g_pidhash k"
  by (simp_all add: upd_res_def)

lemma CPU_ISSET_bit: "CPU_ISSET c s \<longleftrightarrow> bit s c"
proof
  assume "CPU_ISSET c s"
  then obtain n where "bit (s AND push_bit c 1) n" by (auto simp: CPU_ISSET_def bit_eq_iff)
  then show "bit s c" by (auto simp: bit_simps)
next
  assume b: "bit s c"
  then have "c < 32" using bit_imp_le_length by fastforce
  with b have "bit (s AND push_bit c 1) c" by (auto simp: bit_simps)
  then show "CPU_ISSET c s" by (auto simp: CPU_ISSET_def)
qed

end
