(* ===== verification/Sched.thy ===== *)
theory Sched
  imports Kernel
begin

text \<open>
  The SMP scheduler of \<open>sched/sched\<close>: choice of a CPU, switching of the running task, delivery to
  other CPUs, the ready-to-run list, priorities, preemption locking, affinity, round robin.
  An operation takes the executing CPU \<open>c\<close> (\<open>this_cpu()\<close>) and the state; every one of them runs in
  a critical section of the source, so it is one step here.

  \<open>up_switch_context\<close> is an exception that is taken on return to the switching code; an operation
  that calls it returns \<open>True\<close> as its switch flag, and the switch itself is \<open>arm64_switch\<close> of theory
  \<open>Frap_Switch\<close>. \<open>this_task()\<close> is the task assigned to the CPU.
\<close>

section \<open>Choosing and switching\<close>

definition this_task :: "nat \<Rightarrow> kernel \<Rightarrow> tid" where
  "this_task c k = current_task k c"

text \<open>The loop of \<open>nxsched_select_cpu\<close> over the CPU numbers still to be looked at.\<close>

fun select_cpu_loop :: "kernel \<Rightarrow> u32 \<Rightarrow> nat list \<Rightarrow> u8 \<Rightarrow> nat \<Rightarrow> nat" where
  "select_cpu_loop k aff [] minprio c = c"
| "select_cpu_loop k aff (i # is) minprio c =
     (if CPU_ISSET i aff then
        let rtcb = current_task k i
        in if is_idle_task k rtcb then i
           else if prio k rtcb \<le> minprio then select_cpu_loop k aff is (prio k rtcb) i
           else select_cpu_loop k aff is minprio c
      else select_cpu_loop k aff is minprio c)"

definition nxsched_select_cpu :: "u32 \<Rightarrow> kernel \<Rightarrow> nat" where
  "nxsched_select_cpu aff k = select_cpu_loop k aff [0..<ncpus k] 255 255"

definition may_run_on :: "kernel \<Rightarrow> nat \<Rightarrow> tid \<Rightarrow> bool" where
  "may_run_on k c t \<longleftrightarrow>
     CPU_ISSET c (affinity (tcbs k t)) \<and> (\<not> cpu_locked (tcbs k t) \<or> cpu (tcbs k t) = c)"

text \<open>The loop of \<open>nxsched_switch_running\<close> over the ready-to-run list.\<close>

fun rtr_search :: "kernel \<Rightarrow> nat \<Rightarrow> int \<Rightarrow> tid list \<Rightarrow> tid option" where
  "rtr_search k c p [] = None"
| "rtr_search k c p (b # bs) =
     (if uint (prio k b) > p then
        if may_run_on k c b then Some b else rtr_search k c p bs
      else None)"

definition nxsched_switch_running :: "nat \<Rightarrow> bool \<Rightarrow> kernel \<Rightarrow> bool \<times> kernel" where
  "nxsched_switch_running c switch_equal k =
     (let rtcb = current_task k c;
          p0 = uint (prio k rtcb)
      in if nxsched_islocked_tcb (tcbs k rtcb) then (False, k)
         else
           let p = (if switch_equal \<and> p0 > 0 then p0 - 1 else p0)
           in case rtr_search k c p (readytorun k) of
                None \<Rightarrow> (False, k)
              | Some b \<Rightarrow>
                  let k1 = tl_rem b L_readytorun k;
                      k2 = (if \<not> is_idle_task k1 rtcb then
                              tl_add_prioritized rtcb L_readytorun
                                (upd_tcb rtcb (\<lambda>t. t\<lparr>task_state := TSTATE_TASK_READYTORUN\<rparr>) k1)
                            else upd_tcb rtcb (\<lambda>t. t\<lparr>task_state := TSTATE_TASK_ASSIGNED\<rparr>) k1);
                      k3 = k2\<lparr>g_assignedtasks := (g_assignedtasks k2)(c := b)\<rparr>
                  in (True, upd_tcb b (\<lambda>t. t\<lparr>cpu := c, task_state := TSTATE_TASK_RUNNING\<rparr>) k3))"

definition nxsched_deliver_task :: "nat \<Rightarrow> nat \<Rightarrow> task_deliver \<Rightarrow> kernel \<Rightarrow> bool \<times> kernel" where
  "nxsched_deliver_task c target d k =
     (if g_delivertasks k target \<noteq> d then
        if c = target then nxsched_switch_running c (d = SWITCH_EQUAL) k
        else (False, k\<lparr>g_delivertasks := (g_delivertasks k)(target := d)\<rparr>)
      else (False, k))"

section \<open>The ready-to-run list\<close>

definition nxsched_add_readytorun :: "nat \<Rightarrow> tid \<Rightarrow> kernel \<Rightarrow> bool \<times> kernel" where
  "nxsched_add_readytorun c b k =
     (let target = (if cpu_locked (tcbs k b) then cpu (tcbs k b)
                    else nxsched_select_cpu (affinity (tcbs k b)) k);
          tcb = current_task k target;
          k1 = upd_tcb b (\<lambda>t. t\<lparr>task_state := TSTATE_TASK_READYTORUN\<rparr>) k;
          k2 = tl_add_prioritized b L_readytorun k1;
          k3 = upd_tcb b (\<lambda>t. t\<lparr>cpu := target\<rparr>) k2
      in if prio k3 tcb < prio k3 b then nxsched_deliver_task c target SWITCH_HIGHER k3
         else (False, k3))"

definition nxsched_remove_running :: "tid \<Rightarrow> kernel \<Rightarrow> kernel" where
  "nxsched_remove_running t k =
     (let c = cpu (tcbs k t);
          nxt = g_idletcb k c;
          k1 = upd_tcb t (\<lambda>x. x\<lparr>task_state := TSTATE_TASK_INVALID\<rparr>) k;
          k2 = upd_tcb nxt (\<lambda>x. x\<lparr>task_state := TSTATE_TASK_RUNNING\<rparr>) k1;
          k3 = k2\<lparr>g_assignedtasks := (g_assignedtasks k2)(c := nxt)\<rparr>
      in snd (nxsched_switch_running (cpu (tcbs k3 t)) False k3))"

definition nxsched_remove_self :: "tid \<Rightarrow> kernel \<Rightarrow> kernel" where
  "nxsched_remove_self t k = nxsched_remove_running t k"

definition nxsched_remove_readytorun :: "tid \<Rightarrow> kernel \<Rightarrow> bool \<times> kernel" where
  "nxsched_remove_readytorun t k =
     (if tstate_of k t = TSTATE_TASK_RUNNING then (True, nxsched_remove_running t k)
      else
        let k1 = (case tlist_blocked (tcbs k t) of None \<Rightarrow> k | Some l \<Rightarrow> tl_rem t l k)
        in (False, upd_tcb t (\<lambda>x. x\<lparr>task_state := TSTATE_TASK_INVALID\<rparr>) k1))"

definition nxsched_add_blocked :: "tid \<Rightarrow> tstate \<Rightarrow> kernel \<Rightarrow> kernel" where
  "nxsched_add_blocked t s k =
     (let k1 = upd_tcb t (\<lambda>x. x\<lparr>task_state := s\<rparr>) k
      in case tlist_blocked (tcbs k1 t) of
           None \<Rightarrow> k1
         | Some l \<Rightarrow> if tlist_isprioritized s then tl_add_prioritized t l k1 else tl_addlast t l k1)"

definition nxsched_remove_blocked :: "tid \<Rightarrow> kernel \<Rightarrow> kernel" where
  "nxsched_remove_blocked t k =
     (let k1 = (case tlist_blocked (tcbs k t) of None \<Rightarrow> k | Some l \<Rightarrow> tl_rem t l k)
      in upd_tcb t (\<lambda>x. x\<lparr>waitobj := None, task_state := TSTATE_TASK_INVALID\<rparr>) k1)"

definition nxsched_process_delivered :: "nat \<Rightarrow> kernel \<Rightarrow> kernel" where
  "nxsched_process_delivered c k =
     (let d = g_delivertasks k c;
          k1 = k\<lparr>g_delivertasks := (g_delivertasks k)(c := SWITCH_NONE)\<rparr>
      in if d = SWITCH_NONE then k1
         else
           let (sw, k2) = nxsched_switch_running c (d = SWITCH_EQUAL) k1
           in if sw then k2
              else
                case tl_peek L_readytorun k2 of
                  None \<Rightarrow> k2
                | Some t \<Rightarrow>
                    let target = (if cpu_locked (tcbs k2 t) then cpu (tcbs k2 t)
                                  else nxsched_select_cpu (affinity (tcbs k2 t)) k2)
                    in if target \<noteq> c \<and> prio k2 (current_task k2 target) < prio k2 t
                       then snd (nxsched_deliver_task c target d k2)
                       else k2)"

section \<open>Priorities\<close>

definition nxsched_running_setpriority :: "nat \<Rightarrow> tid \<Rightarrow> int \<Rightarrow> kernel \<Rightarrow> bool \<times> kernel" where
  "nxsched_running_setpriority c t p k =
     (let nxt = tl_peek L_readytorun k;
          k1 = upd_tcb t (\<lambda>x. x\<lparr>sched_priority := word_of_int p\<rparr>) k
      in case nxt of
           None \<Rightarrow> (False, k1)
         | Some n \<Rightarrow>
             if p \<le> uint (prio k n) \<or> \<not> CPU_ISSET (cpu (tcbs k t)) (affinity (tcbs k t))
             then nxsched_deliver_task c (cpu (tcbs k1 t)) SWITCH_EQUAL k1
             else (False, k1))"

definition nxsched_readytorun_setpriority :: "nat \<Rightarrow> tid \<Rightarrow> int \<Rightarrow> kernel \<Rightarrow> bool \<times> kernel" where
  "nxsched_readytorun_setpriority c t p k =
     (let k1 = tl_rem t L_readytorun k;
          k2 = upd_tcb t (\<lambda>x. x\<lparr>sched_priority := word_of_int p\<rparr>) k1
      in nxsched_add_readytorun c t k2)"

definition nxsched_blocked_setpriority :: "tid \<Rightarrow> int \<Rightarrow> kernel \<Rightarrow> kernel" where
  "nxsched_blocked_setpriority t p k =
     (let setp = upd_tcb t (\<lambda>x. x\<lparr>sched_priority := word_of_int p\<rparr>)
      in case (tlist_isprioritized (tstate_of k t), tlist_blocked (tcbs k t)) of
           (True, Some l) \<Rightarrow> tl_add_prioritized t l (setp (tl_rem t l k))
         | _ \<Rightarrow> setp k)"

text \<open>The result is the return value, the switch flag and the new state.\<close>

definition nxsched_set_priority :: "nat \<Rightarrow> tid \<Rightarrow> int \<Rightarrow> kernel \<Rightarrow> int \<times> bool \<times> kernel" where
  "nxsched_set_priority c t p k =
     (if p < SCHED_PRIORITY_MIN \<or> p > SCHED_PRIORITY_MAX then (- EINVAL, False, k)
      else
        case tstate_of k t of
          TSTATE_TASK_RUNNING \<Rightarrow> (OK, nxsched_running_setpriority c t p k)
        | TSTATE_TASK_READYTORUN \<Rightarrow> (OK, nxsched_readytorun_setpriority c t p k)
        | _ \<Rightarrow> (OK, False, nxsched_blocked_setpriority t p k))"

definition nxsched_reprioritize :: "nat \<Rightarrow> tid \<Rightarrow> int \<Rightarrow> kernel \<Rightarrow> int \<times> bool \<times> kernel" where
  "nxsched_reprioritize c t p k =
     (let (ret, sw, k1) = nxsched_set_priority c t p k
      in if ret = 0 then
           (ret, sw, upd_tcb t (\<lambda>x. x\<lparr>base_priority := word_of_int p, boost_priority := 0\<rparr>) k1)
         else (ret, sw, k1))"

definition sched_yield :: "nat \<Rightarrow> kernel \<Rightarrow> int \<times> bool \<times> kernel" where
  "sched_yield c k =
     (let rtcb = this_task c k;
          (ret, sw, k1) = nxsched_set_priority c rtcb (uint (prio k rtcb)) k
      in (if ret < 0 then ERROR else OK, sw, k1))"

section \<open>Preemption locking\<close>

definition sched_lock :: "nat \<Rightarrow> kernel \<Rightarrow> kernel" where
  "sched_lock c k = upd_tcb (this_task c k) (\<lambda>t. t\<lparr>lockcount := lockcount t + 1\<rparr>) k"

text \<open>
  \<open>sched_unlock\<close> up to \<open>up_switch_context\<close>, and its round-robin part, which the task runs when it
  is back on a CPU (at once if there was no switch).
\<close>

definition sched_unlock :: "nat \<Rightarrow> kernel \<Rightarrow> bool \<times> kernel" where
  "sched_unlock c k =
     (let rtcb = this_task c k
      in if lockcount (tcbs k rtcb) = 1 then
           let k1 = upd_tcb rtcb (\<lambda>t. t\<lparr>lockcount := 0\<rparr>) k
           in case tl_peek L_readytorun k1 of
                None \<Rightarrow> (False, k1)
              | Some p \<Rightarrow>
                  if prio k1 p > prio k1 rtcb
                  then nxsched_deliver_task (cpu (tcbs k1 rtcb)) (cpu (tcbs k1 rtcb)) SWITCH_HIGHER k1
                  else (False, k1)
         else (False, upd_tcb rtcb (\<lambda>t. t\<lparr>lockcount := lockcount t - 1\<rparr>) k))"

definition sched_unlock_rr :: "nat \<Rightarrow> tid \<Rightarrow> kernel \<Rightarrow> kernel" where
  "sched_unlock_rr c rtcb k =
     (if flags (tcbs k rtcb) AND TCB_FLAG_POLICY_MASK = TCB_FLAG_SCHED_RR \<and>
         timeslice (tcbs k rtcb) = 0 \<and> rtcb \<noteq> this_task c k
      then upd_tcb rtcb (\<lambda>t. t\<lparr>timeslice := rr_interval k\<rparr>) k
      else k)"

definition sched_lockcount :: "nat \<Rightarrow> kernel \<Rightarrow> int" where
  "sched_lockcount c k = sint (lockcount (tcbs k (this_task c k)))"

end
