(* ===== verification/Sched_Inv.thy ===== *)
theory Sched_Inv
  imports Sched
begin

text \<open>
  The scheduler invariant and its preservation. \<open>sched_eq\<close> says what a switching operation leaves
  alone (everything but task states, CPU numbers, the ready-to-run list, the assignment and the
  delivery requests); \<open>sched_wf\<close> says that the task states, the task lists and the assignment of
  tasks to CPUs agree, and that every prioritized list is in order.
\<close>

section \<open>What switching leaves alone\<close>

definition sched_eq :: "kernel \<Rightarrow> kernel \<Rightarrow> bool" where
  "sched_eq k k' \<longleftrightarrow>
     (\<forall>t. \<exists>s c. tcbs k' t = (tcbs k t)\<lparr>task_state := s, cpu := c\<rparr>) \<and>
     (\<forall>l. l \<noteq> L_readytorun \<longrightarrow> tlists k' l = tlists k l) \<and>
     ncpus k' = ncpus k \<and> rr_interval k' = rr_interval k \<and> g_idletcb k' = g_idletcb k \<and>
     g_running_tasks k' = g_running_tasks k \<and> frap_ress k' = frap_ress k \<and> nodes k' = nodes k \<and>
     g_lastpid k' = g_lastpid k \<and> g_npidhash k' = g_npidhash k \<and> g_pidhash k' = g_pidhash k"

lemma tcb_self: "\<exists>s c. (x :: frap_tcb_s) = x\<lparr>task_state := s, cpu := c\<rparr>"
  by (rule exI [of _ "task_state x"], rule exI [of _ "cpu x"]) simp

lemma tcb_set_state: "\<exists>s' c. (x :: frap_tcb_s)\<lparr>task_state := s\<rparr> = x\<lparr>task_state := s', cpu := c\<rparr>"
  by (rule exI [of _ s], rule exI [of _ "cpu x"]) simp

lemma tcb_set_cpu: "\<exists>s c'. (x :: frap_tcb_s)\<lparr>cpu := c\<rparr> = x\<lparr>task_state := s, cpu := c'\<rparr>"
  by (rule exI [of _ "task_state x"], rule exI [of _ c]) simp

lemma tcb_set_both: "\<exists>s' c'. (x :: frap_tcb_s)\<lparr>cpu := c, task_state := s\<rparr> = x\<lparr>task_state := s', cpu := c'\<rparr>"
  by (rule exI [of _ s], rule exI [of _ c]) simp

lemma sched_eq_refl [simp, intro]: "sched_eq k k"
  by (simp add: sched_eq_def tcb_self)

lemma sched_eq_trans [trans]:
  assumes "sched_eq k k'" and "sched_eq k' k''"
  shows "sched_eq k k''"
proof -
  have "\<exists>s c. tcbs k'' t = (tcbs k t)\<lparr>task_state := s, cpu := c\<rparr>" for t
  proof -
    obtain s c where 1: "tcbs k' t = (tcbs k t)\<lparr>task_state := s, cpu := c\<rparr>"
      using assms(1) unfolding sched_eq_def by blast
    obtain s' c' where 2: "tcbs k'' t = (tcbs k' t)\<lparr>task_state := s', cpu := c'\<rparr>"
      using assms(2) unfolding sched_eq_def by blast
    show ?thesis unfolding 2 1 by (rule exI [of _ s'], rule exI [of _ c']) simp
  qed
  with assms show ?thesis unfolding sched_eq_def by simp
qed

lemma sched_eqD:
  assumes "sched_eq k k'"
  shows "prio k' t = prio k t" "pid (tcbs k' t) = pid (tcbs k t)"
    "affinity (tcbs k' t) = affinity (tcbs k t)" "flags (tcbs k' t) = flags (tcbs k t)"
    "lockcount (tcbs k' t) = lockcount (tcbs k t)" "waitobj (tcbs k' t) = waitobj (tcbs k t)"
    "irqcount (tcbs k' t) = irqcount (tcbs k t)" "timeslice (tcbs k' t) = timeslice (tcbs k t)"
    "base_priority (tcbs k' t) = base_priority (tcbs k t)"
    "boost_priority (tcbs k' t) = boost_priority (tcbs k t)"
    "errcode (tcbs k' t) = errcode (tcbs k t)"
    "tcb_s.more (tcbs k' t) = tcb_s.more (tcbs k t)"
proof -
  obtain s c where "tcbs k' t = (tcbs k t)\<lparr>task_state := s, cpu := c\<rparr>"
    using assms unfolding sched_eq_def by blast
  then show "prio k' t = prio k t" "pid (tcbs k' t) = pid (tcbs k t)"
    "affinity (tcbs k' t) = affinity (tcbs k t)" "flags (tcbs k' t) = flags (tcbs k t)"
    "lockcount (tcbs k' t) = lockcount (tcbs k t)" "waitobj (tcbs k' t) = waitobj (tcbs k t)"
    "irqcount (tcbs k' t) = irqcount (tcbs k t)" "timeslice (tcbs k' t) = timeslice (tcbs k t)"
    "base_priority (tcbs k' t) = base_priority (tcbs k t)"
    "boost_priority (tcbs k' t) = boost_priority (tcbs k t)"
    "errcode (tcbs k' t) = errcode (tcbs k t)"
    "tcb_s.more (tcbs k' t) = tcb_s.more (tcbs k t)" by simp_all
qed

lemma sched_eq_globals:
  assumes "sched_eq k k'"
  shows "ncpus k' = ncpus k" "rr_interval k' = rr_interval k" "g_idletcb k' = g_idletcb k"
    "g_running_tasks k' = g_running_tasks k" "frap_ress k' = frap_ress k" "nodes k' = nodes k"
    "g_npidhash k' = g_npidhash k" "g_pidhash k' = g_pidhash k" "g_lastpid k' = g_lastpid k"
    "l \<noteq> L_readytorun \<Longrightarrow> tlists k' l = tlists k l"
  using assms by (simp_all add: sched_eq_def)

lemma sched_eq_state:
  "(\<And>x. \<exists>s c. f x = x\<lparr>task_state := s, cpu := c\<rparr>) \<Longrightarrow> sched_eq k (upd_tcb t f k)"
  by (simp add: sched_eq_def tcb_self)

lemma sched_eq_set_state: "sched_eq k (upd_tcb t (\<lambda>x. x\<lparr>task_state := s\<rparr>) k)"
  by (rule sched_eq_state) (rule tcb_set_state)

lemma sched_eq_set_cpu: "sched_eq k (upd_tcb t (\<lambda>x. x\<lparr>cpu := c\<rparr>) k)"
  by (rule sched_eq_state) (rule tcb_set_cpu)

lemma sched_eq_set_both: "sched_eq k (upd_tcb t (\<lambda>x. x\<lparr>cpu := c, task_state := s\<rparr>) k)"
  by (rule sched_eq_state) (rule tcb_set_both)

lemma sched_eq_list: "sched_eq k (upd_list L_readytorun f k)"
  by (simp add: sched_eq_def tcb_self)

lemma sched_eq_assign: "sched_eq k (k\<lparr>g_assignedtasks := a\<rparr>)"
  by (simp add: sched_eq_def tcb_self)

lemma sched_eq_deliver: "sched_eq k (k\<lparr>g_delivertasks := a\<rparr>)"
  by (simp add: sched_eq_def tcb_self)

text \<open>Each operation is a chain of such updates; the rules extend a chain by one update.\<close>

lemmas sched_eq_chain =
  sched_eq_trans [OF _ sched_eq_set_state] sched_eq_trans [OF _ sched_eq_set_cpu]
  sched_eq_trans [OF _ sched_eq_set_both] sched_eq_trans [OF _ sched_eq_list]
  sched_eq_trans [OF _ sched_eq_assign] sched_eq_trans [OF _ sched_eq_deliver]

lemma nxsched_switch_running_eq: "sched_eq k (snd (nxsched_switch_running c e k))"
proof (cases "nxsched_islocked_tcb (tcbs k (current_task k c))")
  case True
  then show ?thesis by (simp add: nxsched_switch_running_def)
next
  case False
  define p where "p = (if e \<and> 0 < uint (prio k (current_task k c)) then uint (prio k (current_task k c)) - 1
                       else uint (prio k (current_task k c)))"
  show ?thesis
  proof (cases "rtr_search k c p (readytorun k)")
    case None
    then show ?thesis using False by (simp add: nxsched_switch_running_def p_def Let_def)
  next
    case (Some b)
    show ?thesis
      using False Some unfolding nxsched_switch_running_def Let_def p_def [symmetric]
      by (simp add: tl_rem_def tl_add_prioritized_def) (intro conjI impI sched_eq_chain sched_eq_refl)
  qed
qed

lemma nxsched_deliver_task_eq: "sched_eq k (snd (nxsched_deliver_task c tg d k))"
  by (simp add: nxsched_deliver_task_def nxsched_switch_running_eq sched_eq_deliver)

lemma nxsched_add_readytorun_eq: "sched_eq k (snd (nxsched_add_readytorun c t k))"
proof -
  have 1: "sched_eq k (upd_tcb t (\<lambda>x. x\<lparr>cpu := tg\<rparr>) (tl_add_prioritized t L_readytorun
             (upd_tcb t (\<lambda>x. x\<lparr>task_state := s\<rparr>) k)))" for tg s
    unfolding tl_add_prioritized_def by (intro sched_eq_chain sched_eq_refl)
  show ?thesis
    unfolding nxsched_add_readytorun_def Let_def
    by (auto intro: 1 sched_eq_trans [OF 1 nxsched_deliver_task_eq])
qed

lemma nxsched_remove_running_eq: "sched_eq k (nxsched_remove_running t k)"
  unfolding nxsched_remove_running_def Let_def
  by (rule sched_eq_trans [OF _ nxsched_switch_running_eq]) (intro sched_eq_chain sched_eq_refl)

lemma nxsched_process_delivered_eq: "sched_eq k (nxsched_process_delivered c k)"
proof -
  define k1 where "k1 = k\<lparr>g_delivertasks := (g_delivertasks k)(c := SWITCH_NONE)\<rparr>"
  have 1: "sched_eq k k1" unfolding k1_def by (rule sched_eq_deliver)
  have 2: "sched_eq k (snd (nxsched_switch_running c e k1))" for e
    using 1 nxsched_switch_running_eq by (rule sched_eq_trans)
  have 3: "sched_eq k (snd (nxsched_deliver_task c' tg d k2))" if "sched_eq k k2" for c' tg d k2
    using that nxsched_deliver_task_eq by (rule sched_eq_trans)
  show ?thesis
    unfolding nxsched_process_delivered_def Let_def k1_def [symmetric] case_prod_beta
    by (simp split: option.split) (intro conjI impI allI 1 2 3)
qed


section \<open>The invariant\<close>

definition tl_prioritized :: "tlist \<Rightarrow> bool" where
  "tl_prioritized l \<longleftrightarrow> l \<notin> {L_inactivetasks, L_waitingforsignal, L_stoppedtasks}"

text \<open>A task is in exactly the list its state and wait object name.\<close>

definition lists_wf :: "kernel \<Rightarrow> bool" where
  "lists_wf k \<longleftrightarrow>
     (\<forall>l. distinct (tlists k l) \<and> set (tlists k l) = {t. tlist_blocked (tcbs k t) = Some l} \<and>
          (tl_prioritized l \<longrightarrow> desc (prio k) (tlists k l)))"

text \<open>The running tasks are the assigned ones, and each records the CPU it is assigned to.\<close>

definition cpus_wf :: "kernel \<Rightarrow> bool" where
  "cpus_wf k \<longleftrightarrow>
     (\<forall>t. tstate_of k t = TSTATE_TASK_RUNNING \<longleftrightarrow> (\<exists>c < ncpus k. g_assignedtasks k c = t)) \<and>
     (\<forall>c < ncpus k. cpu (tcbs k (g_assignedtasks k c)) = c)"

text \<open>Each CPU has its idle task, of priority 0, running on it or standing by; no other task stands by.\<close>

definition idle_wf :: "kernel \<Rightarrow> bool" where
  "idle_wf k \<longleftrightarrow>
     (\<forall>c < ncpus k. is_idle_task k (g_idletcb k c) \<and> cpu (tcbs k (g_idletcb k c)) = c \<and>
        prio k (g_idletcb k c) = 0 \<and>
        tstate_of k (g_idletcb k c) \<in> {TSTATE_TASK_RUNNING, TSTATE_TASK_ASSIGNED}) \<and>
     (\<forall>t. is_idle_task k t \<longrightarrow> (\<exists>c < ncpus k. t = g_idletcb k c)) \<and>
     (\<forall>t. tstate_of k t = TSTATE_TASK_ASSIGNED \<longrightarrow> is_idle_task k t)"

definition sched_wf :: "kernel \<Rightarrow> bool" where
  "sched_wf k \<longleftrightarrow> lists_wf k \<and> cpus_wf k \<and> idle_wf k"

lemma tlist_blocked_state [simp]:
  "tlist_blocked (t\<lparr>task_state := TSTATE_TASK_READYTORUN\<rparr>) = Some L_readytorun"
  "tlist_blocked (t\<lparr>task_state := TSTATE_TASK_RUNNING\<rparr>) = None"
  "tlist_blocked (t\<lparr>task_state := TSTATE_TASK_ASSIGNED\<rparr>) = None"
  "tlist_blocked (t\<lparr>task_state := TSTATE_TASK_INVALID\<rparr>) = None"
  "tlist_blocked (t\<lparr>sched_priority := p\<rparr>) = tlist_blocked t"
  "tlist_blocked (t\<lparr>lockcount := n\<rparr>) = tlist_blocked t"
  "tlist_blocked (t\<lparr>cpu := c\<rparr>) = tlist_blocked t"
  by (simp_all add: tlist_blocked_def split: tstate.split)

lemma tlist_blocked_running: "task_state t = TSTATE_TASK_RUNNING \<Longrightarrow> tlist_blocked t = None"
  by (simp add: tlist_blocked_def)

lemma tlist_blocked_ready: "tlist_blocked t = Some L_readytorun \<longleftrightarrow> task_state t = TSTATE_TASK_READYTORUN"
  by (auto simp: tlist_blocked_def split: tstate.splits option.splits waitobj.splits)

lemma tlist_blocked_prioritized:
  "tlist_blocked t = Some l \<Longrightarrow> tl_prioritized l \<longleftrightarrow> tlist_isprioritized (task_state t)"
  by (auto simp: tlist_blocked_def tl_prioritized_def tlist_isprioritized_def
      split: tstate.splits option.splits waitobj.splits)

lemma lists_wfD:
  assumes "lists_wf k"
  shows "distinct (tlists k l)" "t \<in> set (tlists k l) \<longleftrightarrow> tlist_blocked (tcbs k t) = Some l"
    "tl_prioritized l \<Longrightarrow> desc (prio k) (tlists k l)"
  using assms by (auto simp: lists_wf_def)

lemma readytorun_wf:
  assumes "lists_wf k"
  shows "distinct (readytorun k)" "desc (prio k) (readytorun k)"
    "t \<in> set (readytorun k) \<longleftrightarrow> tstate_of k t = TSTATE_TASK_READYTORUN"
  using lists_wfD [OF assms, where l = L_readytorun] by (auto simp: tl_prioritized_def tlist_blocked_ready)

lemma current_running: "cpus_wf k \<Longrightarrow> c < ncpus k \<Longrightarrow> tstate_of k (current_task k c) = TSTATE_TASK_RUNNING"
  by (auto simp: cpus_wf_def current_task_def)

section \<open>Switching\<close>

lemma rtr_search_Some:
  "rtr_search k c p xs = Some b \<Longrightarrow>
     \<exists>us vs. xs = us @ b # vs \<and> uint (prio k b) > p \<and> may_run_on k c b \<and> (\<forall>u \<in> set us. \<not> may_run_on k c u)"
proof (induction xs)
  case (Cons x xs)
  show ?case
  proof (cases "p < uint (prio k x) \<and> \<not> may_run_on k c x")
    case True
    then obtain us vs where "xs = us @ b # vs" "uint (prio k b) > p" "may_run_on k c b"
      "\<forall>u \<in> set us. \<not> may_run_on k c u" using Cons by auto
    with True show ?thesis by (intro exI [of _ "x # us"] exI [of _ vs]) auto
  next
    case False
    with Cons.prems have "b = x" "uint (prio k b) > p" "may_run_on k c b" by (auto split: if_splits)
    then show ?thesis by (intro exI [of _ "[]"] exI [of _ xs]) auto
  qed
qed simp

lemma rtr_search_None:
  assumes "rtr_search k c p xs = None" and "desc (prio k) xs" and "x \<in> set xs" and "may_run_on k c x"
  shows "uint (prio k x) \<le> p"
  using assms
proof (induction xs)
  case (Cons y ys)
  show ?case
  proof (cases "uint (prio k y) > p")
    case True
    then have "\<not> may_run_on k c y" "rtr_search k c p ys = None" using Cons.prems(1) by (auto split: if_splits)
    with Cons show ?thesis by auto
  next
    case False
    have "prio k x \<le> prio k y" using Cons.prems(2,3) by auto
    with False show ?thesis by (simp add: word_le_def)
  qed
qed simp

text \<open>The state after a switch of CPU \<open>c\<close> from its current task to \<open>b\<close>.\<close>

definition switched :: "nat \<Rightarrow> tid \<Rightarrow> kernel \<Rightarrow> kernel" where
  "switched c b k =
     (let r = current_task k c;
          R = remove1 b (readytorun k)
      in k\<lparr>tlists := (tlists k)(L_readytorun := if is_idle_task k r then R else ins_desc (prio k) r R),
           tcbs := (tcbs k)(r := (tcbs k r)\<lparr>task_state := if is_idle_task k r then TSTATE_TASK_ASSIGNED
                                                          else TSTATE_TASK_READYTORUN\<rparr>,
                            b := (tcbs k b)\<lparr>cpu := c, task_state := TSTATE_TASK_RUNNING\<rparr>),
           g_assignedtasks := (g_assignedtasks k)(c := b)\<rparr>)"

lemma nxsched_switch_running_cases:
  assumes w: "sched_wf k" and c: "c < ncpus k"
  obtains (locked) "nxsched_islocked_tcb (tcbs k (current_task k c))" "nxsched_switch_running c e k = (False, k)"
  | (none) p where "\<not> nxsched_islocked_tcb (tcbs k (current_task k c))"
      "p = uint (prio k (current_task k c)) \<or> e \<and> p = uint (prio k (current_task k c)) - 1 \<and> 0 \<le> p"
      "rtr_search k c p (readytorun k) = None" "nxsched_switch_running c e k = (False, k)"
  | (switch) p b where "\<not> nxsched_islocked_tcb (tcbs k (current_task k c))"
      "p = uint (prio k (current_task k c)) \<or> e \<and> p = uint (prio k (current_task k c)) - 1 \<and> 0 \<le> p"
      "rtr_search k c p (readytorun k) = Some b" "b \<in> set (readytorun k)" "b \<noteq> current_task k c"
      "nxsched_switch_running c e k = (True, switched c b k)"
proof (cases "nxsched_islocked_tcb (tcbs k (current_task k c))")
  case True
  then show thesis by (intro locked) (simp_all add: nxsched_switch_running_def)
next
  case False
  define r where "r = current_task k c"
  define p where "p = (if e \<and> 0 < uint (prio k r) then uint (prio k r) - 1 else uint (prio k r))"
  have pr: "p = uint (prio k (current_task k c)) \<or> e \<and> p = uint (prio k (current_task k c)) - 1 \<and> 0 \<le> p"
    by (simp add: p_def r_def)
  show thesis
  proof (cases "rtr_search k c p (readytorun k)")
    case None
    moreover have "nxsched_switch_running c e k = (False, k)"
      using False None unfolding nxsched_switch_running_def Let_def r_def [symmetric] p_def [symmetric] by simp
    ultimately show thesis using none False pr by blast
  next
    case (Some b)
    have b: "b \<in> set (readytorun k)" using rtr_search_Some [OF Some] by auto
    have "tstate_of k b = TSTATE_TASK_READYTORUN" "tstate_of k r = TSTATE_TASK_RUNNING"
      using w b c by (auto simp: sched_wf_def readytorun_wf r_def current_running)
    then have ne: "b \<noteq> r" by auto
    have "(\<lambda>t. sched_priority (if t = r then (tcbs k r)\<lparr>task_state := TSTATE_TASK_READYTORUN\<rparr> else tcbs k t)) = prio k"
      by auto
    then have "nxsched_switch_running c e k = (True, switched c b k)"
      using False Some ne unfolding nxsched_switch_running_def switched_def Let_def r_def [symmetric] p_def [symmetric]
      by (simp add: tl_rem_def tl_add_prioritized_def upd_list_def upd_tcb_def is_idle_task_def fun_upd_twist fun_upd_def cong: if_cong)
    with switch [OF False pr Some b] ne show thesis by (simp add: r_def)
  qed
qed

lemma switched_sel:
  assumes "b \<noteq> current_task k c"
  shows "tcbs (switched c b k) t =
      (if t = b then (tcbs k b)\<lparr>cpu := c, task_state := TSTATE_TASK_RUNNING\<rparr>
       else if t = current_task k c then
         (tcbs k t)\<lparr>task_state := if is_idle_task k t then TSTATE_TASK_ASSIGNED else TSTATE_TASK_READYTORUN\<rparr>
       else tcbs k t)"
    "tlists (switched c b k) l =
      (if l = L_readytorun then
         if is_idle_task k (current_task k c) then remove1 b (readytorun k)
         else ins_desc (prio k) (current_task k c) (remove1 b (readytorun k))
       else tlists k l)"
    "g_assignedtasks (switched c b k) = (g_assignedtasks k)(c := b)"
    "ncpus (switched c b k) = ncpus k" "g_idletcb (switched c b k) = g_idletcb k"
    "prio (switched c b k) = prio k" "is_idle_task (switched c b k) t = is_idle_task k t"
  using assms by (auto simp: switched_def Let_def is_idle_task_def)

lemma lists_wfI:
  assumes "\<And>l. distinct (tlists k l)"
    and "\<And>l t. t \<in> set (tlists k l) \<longleftrightarrow> tlist_blocked (tcbs k t) = Some l"
    and "\<And>l. tl_prioritized l \<Longrightarrow> desc (prio k) (tlists k l)"
  shows "lists_wf k"
  using assms by (auto simp: lists_wf_def)

lemma idle_not_ready:
  assumes "idle_wf k" and "tstate_of k b \<notin> {TSTATE_TASK_RUNNING, TSTATE_TASK_ASSIGNED}"
  shows "\<not> is_idle_task k b" "c < ncpus k \<Longrightarrow> b \<noteq> g_idletcb k c"
  using assms by (auto simp: idle_wf_def)

lemma assigned_inj:
  "cpus_wf k \<Longrightarrow> c < ncpus k \<Longrightarrow> c' < ncpus k \<Longrightarrow> g_assignedtasks k c' = g_assignedtasks k c \<longleftrightarrow> c' = c"
  unfolding cpus_wf_def by metis

lemma tlist_blocked_run_cpu [simp]:
  "tlist_blocked (t\<lparr>cpu := c, task_state := TSTATE_TASK_RUNNING\<rparr>) = None"
  by (simp add: tlist_blocked_def)

lemma switched_lists_wf:
  assumes w: "lists_wf k" "cpus_wf k" "c < ncpus k" and b: "b \<in> set (readytorun k)" "b \<noteq> current_task k c"
  shows "lists_wf (switched c b k)"
proof (rule lists_wfI)
  have r: "tstate_of k (current_task k c) = TSTATE_TASK_RUNNING" using w by (simp add: current_running)
  have rn: "tlist_blocked (tcbs k (current_task k c)) = None" using r by (rule tlist_blocked_running)
  have rl: "current_task k c \<notin> set (tlists k l)" for l using lists_wfD(2) [OF w(1)] rn by simp
  have bl: "tlist_blocked (tcbs k b) = Some L_readytorun" using b lists_wfD(2) [OF w(1)] by simp
  show "distinct (tlists (switched c b k) l)" for l
    using lists_wfD(1) [OF w(1)] rl by (simp add: switched_sel [OF b(2)] distinct_ins_desc)
  show "t \<in> set (tlists (switched c b k) l) \<longleftrightarrow> tlist_blocked (tcbs (switched c b k) t) = Some l" for l t
    using lists_wfD(1,2) [OF w(1)] rn bl b by (auto simp: switched_sel [OF b(2)] set_ins_desc)
  show "tl_prioritized l \<Longrightarrow> desc (prio (switched c b k)) (tlists (switched c b k) l)" for l
    using lists_wfD(3) [OF w(1)] unfolding switched_sel(6) [OF b(2)]
    by (auto simp: switched_sel(2) [OF b(2)] intro!: desc_ins_desc desc_remove1)
qed

lemma switched_cpus_wf:
  assumes w: "cpus_wf k" "c < ncpus k" and b: "tstate_of k b \<noteq> TSTATE_TASK_RUNNING"
  shows "cpus_wf (switched c b k)"
proof -
  have ne: "b \<noteq> current_task k c" using current_running [OF w] b by auto
  have 1: "tstate_of k t = TSTATE_TASK_RUNNING \<longleftrightarrow> (\<exists>c < ncpus k. g_assignedtasks k c = t)" for t
    using w by (simp add: cpus_wf_def)
  have 2: "c' < ncpus k \<Longrightarrow> cpu (tcbs k (g_assignedtasks k c')) = c'" for c'
    using w by (simp add: cpus_wf_def)
  have 3: "c' < ncpus k \<Longrightarrow> g_assignedtasks k c' \<noteq> b" for c' using 1 b by auto
  have 4: "c' < ncpus k \<Longrightarrow> c' \<noteq> c \<Longrightarrow> g_assignedtasks k c' \<noteq> g_assignedtasks k c" for c'
    using assigned_inj w by blast
  show ?thesis unfolding cpus_wf_def
  proof (intro conjI allI impI)
    fix t
    show "(tstate_of (switched c b k) t = TSTATE_TASK_RUNNING) =
        (\<exists>c' < ncpus (switched c b k). g_assignedtasks (switched c b k) c' = t)"
      using 1 [of t] 3 4 w(2) by (auto simp: switched_sel [OF ne] current_task_def) metis
  next
    fix c' assume "c' < ncpus (switched c b k)"
    then show "cpu (tcbs (switched c b k) (g_assignedtasks (switched c b k) c')) = c'"
      using 2 3 4 by (auto simp: switched_sel [OF ne] current_task_def)
  qed
qed

lemma switched_idle_wf:
  assumes w: "idle_wf k" "cpus_wf k" "c < ncpus k" and b: "tstate_of k b \<notin> {TSTATE_TASK_RUNNING, TSTATE_TASK_ASSIGNED}"
  shows "idle_wf (switched c b k)"
proof -
  have ne: "b \<noteq> current_task k c" using current_running [OF w(2,3)] b by auto
  show ?thesis using w ne idle_not_ready(2) [OF w(1) b]
    by (auto simp: idle_wf_def switched_sel [OF ne] simp del: insert_iff)
qed

theorem nxsched_switch_running_wf:
  assumes "sched_wf k" and "c < ncpus k"
  shows "sched_wf (snd (nxsched_switch_running c e k))"
  using assms
proof (cases rule: nxsched_switch_running_cases [of k c e])
  case (switch p b)
  then have "tstate_of k b = TSTATE_TASK_READYTORUN" using assms by (simp add: sched_wf_def readytorun_wf)
  then show ?thesis using switch assms
    by (simp add: sched_wf_def switched_lists_wf switched_cpus_wf switched_idle_wf)
qed (use assms in simp_all)

section \<open>Moving one task between lists\<close>

text \<open>
  A change of one task that neither runs nor idles keeps the invariant when the task ends up in
  exactly the list its new control block names.
\<close>

lemma sched_wf_replace:
  assumes w: "sched_wf k" and t: "tstate_of k t \<notin> {TSTATE_TASK_RUNNING, TSTATE_TASK_ASSIGNED}"
    and x: "task_state x \<notin> {TSTATE_TASK_RUNNING, TSTATE_TASK_ASSIGNED}" "pid x < int (ncpus k) \<longleftrightarrow> is_idle_task k t"
    and k': "tcbs k' = (tcbs k)(t := x)" "ncpus k' = ncpus k" "g_idletcb k' = g_idletcb k"
      "g_assignedtasks k' = g_assignedtasks k"
    and l: "\<And>l. distinct (tlists k' l)"
      "\<And>l. set (tlists k' l) = (if tlist_blocked x = Some l then insert t (set (tlists k l)) else set (tlists k l) - {t})"
      "\<And>l. tl_prioritized l \<Longrightarrow> desc (prio k') (tlists k' l)"
  shows "sched_wf k'"
proof -
  have lw: "lists_wf k" and cw: "cpus_wf k" and iw: "idle_wf k" using w by (auto simp: sched_wf_def)
  have "lists_wf k'"
  proof (rule lists_wfI [OF l(1) _ l(3)])
    show "u \<in> set (tlists k' m) \<longleftrightarrow> tlist_blocked (tcbs k' u) = Some m" for u m
      using lists_wfD(2) [OF lw, of u m] by (auto simp: l(2) k' split: if_splits)
  qed
  moreover have "cpus_wf k'" using cw t x k' by (auto simp: cpus_wf_def)
  moreover have "idle_wf k'"
    using iw idle_not_ready [OF iw t] x k' by (auto simp: idle_wf_def is_idle_task_def)
  ultimately show ?thesis by (simp add: sched_wf_def)
qed

lemma sched_wf_single:
  assumes w: "sched_wf k" and t: "tstate_of k t \<notin> {TSTATE_TASK_RUNNING, TSTATE_TASK_ASSIGNED}"
    and x: "task_state x \<notin> {TSTATE_TASK_RUNNING, TSTATE_TASK_ASSIGNED}" "pid x = pid (tcbs k t)"
    and k': "tcbs k' = (tcbs k)(t := x)" "ncpus k' = ncpus k" "g_idletcb k' = g_idletcb k"
      "g_assignedtasks k' = g_assignedtasks k"
    and l: "\<And>l. distinct (tlists k' l)"
      "\<And>l. set (tlists k' l) = (if tlist_blocked x = Some l then insert t (set (tlists k l)) else set (tlists k l) - {t})"
      "\<And>l. tl_prioritized l \<Longrightarrow> desc (prio k') (tlists k' l)"
  shows "sched_wf k'"
proof (rule sched_wf_replace [OF w t x(1) _ k' l])
  show "pid x < int (ncpus k) \<longleftrightarrow> is_idle_task k t" using x(2) by (simp add: is_idle_task_def)
qed

lemma sched_wf_cong:
  assumes "sched_wf k" "tcbs k' = tcbs k" "tlists k' = tlists k" "ncpus k' = ncpus k"
    "g_idletcb k' = g_idletcb k" "g_assignedtasks k' = g_assignedtasks k"
  shows "sched_wf k'"
  using assms(1) unfolding sched_wf_def lists_wf_def cpus_wf_def idle_wf_def is_idle_task_def assms(2-) .

text \<open>Fields of a control block the scheduler's invariant does not mention.\<close>

lemma sched_wf_tcb_list:
  assumes w: "sched_wf k" and f: "task_state (f (tcbs k t)) = tstate_of k t" "tlist_blocked (f (tcbs k t)) = tlist_blocked (tcbs k t)"
    "cpu (f (tcbs k t)) = cpu (tcbs k t)" "pid (f (tcbs k t)) = pid (tcbs k t)" "sched_priority (f (tcbs k t)) = prio k t"
  shows "sched_wf (upd_tcb t f k)"
proof -
  have b: "tlist_blocked (tcbs (upd_tcb t f k) u) = tlist_blocked (tcbs k u)" for u
    using f by simp
  have p: "prio (upd_tcb t f k) = prio k" using f by auto
  have i: "is_idle_task (upd_tcb t f k) u = is_idle_task k u" for u using f by (simp add: is_idle_task_def)
  have s: "tstate_of (upd_tcb t f k) u = tstate_of k u" "cpu (tcbs (upd_tcb t f k) u) = cpu (tcbs k u)" for u
    using f by simp_all
  show ?thesis using w
    unfolding sched_wf_def lists_wf_def cpus_wf_def idle_wf_def b p i s fun_cong [OF p] upd_tcb_frame .
qed

lemma sched_wf_tcb:
  assumes w: "sched_wf k" and f: "task_state (f (tcbs k t)) = tstate_of k t" "waitobj (f (tcbs k t)) = waitobj (tcbs k t)"
    "cpu (f (tcbs k t)) = cpu (tcbs k t)" "pid (f (tcbs k t)) = pid (tcbs k t)" "sched_priority (f (tcbs k t)) = prio k t"
  shows "sched_wf (upd_tcb t f k)"
  using f by (intro sched_wf_tcb_list [OF w]) (simp_all add: tlist_blocked_def split: tstate.split)

lemma nxsched_deliver_task_wf:
  "sched_wf k \<Longrightarrow> c < ncpus k \<Longrightarrow> sched_wf (snd (nxsched_deliver_task c target d k))"
  by (auto simp: nxsched_deliver_task_def nxsched_switch_running_wf intro: sched_wf_cong)

text \<open>The state of \<open>nxsched_add_readytorun\<close> before it delivers.\<close>

definition made_ready :: "nat \<Rightarrow> tid \<Rightarrow> kernel \<Rightarrow> kernel" where
  "made_ready target b k =
     upd_tcb b (\<lambda>t. t\<lparr>cpu := target\<rparr>)
       (tl_add_prioritized b L_readytorun (upd_tcb b (\<lambda>t. t\<lparr>task_state := TSTATE_TASK_READYTORUN\<rparr>) k))"

lemma made_ready_sel:
  "tcbs (made_ready c b k) = (tcbs k)(b := (tcbs k b)\<lparr>task_state := TSTATE_TASK_READYTORUN, cpu := c\<rparr>)"
  "tlists (made_ready c b k) = (tlists k)(L_readytorun := ins_desc (prio k) b (readytorun k))"
  "ncpus (made_ready c b k) = ncpus k" "g_idletcb (made_ready c b k) = g_idletcb k"
  "g_assignedtasks (made_ready c b k) = g_assignedtasks k"
proof -
  have "prio (upd_tcb b (\<lambda>t. t\<lparr>task_state := TSTATE_TASK_READYTORUN\<rparr>) k) = prio k" by auto
  then show "tlists (made_ready c b k) = (tlists k)(L_readytorun := ins_desc (prio k) b (readytorun k))"
    unfolding made_ready_def tl_add_prioritized_def by (simp del: tcbs_upd_tcb)
qed (auto simp: made_ready_def tl_add_prioritized_def)

lemma made_ready_prio: "prio (made_ready c b k) = prio k"
  by (auto simp: made_ready_sel)

lemma nxsched_add_readytorun_alt:
  "nxsched_add_readytorun c b k =
     (let target = (if cpu_locked (tcbs k b) then cpu (tcbs k b) else nxsched_select_cpu (affinity (tcbs k b)) k)
      in if prio k (current_task k target) < prio k b
         then nxsched_deliver_task c target SWITCH_HIGHER (made_ready target b k)
         else (False, made_ready target b k))"
  unfolding nxsched_add_readytorun_def Let_def made_ready_def [symmetric] made_ready_prio fun_cong [OF made_ready_prio] ..

lemma made_ready_wf:
  assumes w: "sched_wf k" and b: "tlist_blocked (tcbs k b) = None" "tstate_of k b \<notin> {TSTATE_TASK_RUNNING, TSTATE_TASK_ASSIGNED}"
  shows "sched_wf (made_ready c b k)"
proof (rule sched_wf_single [OF w b(2) _ _ made_ready_sel(1,3-5)])
  have lw: "lists_wf k" using w by (simp add: sched_wf_def)
  have nl: "b \<notin> set (tlists k l)" for l using lists_wfD(2) [OF lw] b by simp
  show "distinct (tlists (made_ready c b k) l)" for l
    using lists_wfD(1) [OF lw] nl by (simp add: made_ready_sel distinct_ins_desc)
  show "set (tlists (made_ready c b k) l) =
      (if tlist_blocked ((tcbs k b)\<lparr>task_state := TSTATE_TASK_READYTORUN, cpu := c\<rparr>) = Some l
       then insert b (set (tlists k l)) else set (tlists k l) - {b})" for l
    using nl by (auto simp: made_ready_sel set_ins_desc)
  show "tl_prioritized l \<Longrightarrow> desc (prio (made_ready c b k)) (tlists (made_ready c b k) l)" for l
    unfolding made_ready_prio using lists_wfD(3) [OF lw] by (auto simp: made_ready_sel(2) intro!: desc_ins_desc)
qed simp_all

theorem nxsched_add_readytorun_wf:
  assumes "sched_wf k" "c < ncpus k" "tlist_blocked (tcbs k b) = None"
    "tstate_of k b \<notin> {TSTATE_TASK_RUNNING, TSTATE_TASK_ASSIGNED}"
  shows "sched_wf (snd (nxsched_add_readytorun c b k))"
  using made_ready_wf [OF assms(1,3,4)] assms(2)
  by (auto simp: nxsched_add_readytorun_alt Let_def nxsched_deliver_task_wf made_ready_sel)

text \<open>The state of \<open>nxsched_remove_running\<close> when the idle task has taken over.\<close>

definition idled :: "tid \<Rightarrow> kernel \<Rightarrow> kernel" where
  "idled t k =
     (let c = cpu (tcbs k t)
      in k\<lparr>tcbs := (tcbs k)(t := (tcbs k t)\<lparr>task_state := TSTATE_TASK_INVALID\<rparr>,
                           g_idletcb k c := (tcbs k (g_idletcb k c))\<lparr>task_state := TSTATE_TASK_RUNNING\<rparr>),
           g_assignedtasks := (g_assignedtasks k)(c := g_idletcb k c)\<rparr>)"

lemma nxsched_remove_running_alt:
  assumes "t \<noteq> g_idletcb k (cpu (tcbs k t))"
  shows "nxsched_remove_running t k = snd (nxsched_switch_running (cpu (tcbs k t)) False (idled t k))"
  using assms by (simp add: nxsched_remove_running_def idled_def Let_def upd_tcb_def)

lemma idled_wf:
  assumes w: "sched_wf k" and t: "tstate_of k t = TSTATE_TASK_RUNNING" "\<not> is_idle_task k t"
  shows "sched_wf (idled t k)"
proof -
  have lw: "lists_wf k" and cw: "cpus_wf k" and iw: "idle_wf k" using w by (auto simp: sched_wf_def)
  define c where "c = cpu (tcbs k t)"
  define i where "i = g_idletcb k c"
  have c: "c < ncpus k" "g_assignedtasks k c = t" using cw t by (auto simp: cpus_wf_def c_def)
  have i: "is_idle_task k i" "cpu (tcbs k i) = c" using iw c by (auto simp: idle_wf_def i_def)
  have ti: "t \<noteq> i" using t i by auto
  have ib: "tlist_blocked (tcbs k i) = None"
    using iw c by (auto simp: idle_wf_def i_def tlist_blocked_def)
  have sel: "tcbs (idled t k) u = (if u = i then (tcbs k i)\<lparr>task_state := TSTATE_TASK_RUNNING\<rparr>
      else if u = t then (tcbs k t)\<lparr>task_state := TSTATE_TASK_INVALID\<rparr> else tcbs k u)"
    "tlists (idled t k) = tlists k" "ncpus (idled t k) = ncpus k" "g_idletcb (idled t k) = g_idletcb k"
    "g_assignedtasks (idled t k) = (g_assignedtasks k)(c := i)" "prio (idled t k) = prio k" for u
    using ti by (auto simp: idled_def c_def i_def Let_def)
  have "lists_wf (idled t k)"
    using lists_wfD [OF lw] tlist_blocked_running [OF t(1)] ib
    unfolding lists_wf_def sel(2,6) by (auto simp: sel(1))
  moreover have "cpus_wf (idled t k)"
    using cw c i ti unfolding cpus_wf_def by (auto simp: sel) metis+
  moreover have "idle_wf (idled t k)"
    using iw t ti unfolding idle_wf_def is_idle_task_def by (auto simp: sel)
  ultimately show ?thesis by (simp add: sched_wf_def)
qed

lemma nxsched_remove_running_wf:
  assumes w: "sched_wf k" and t: "tstate_of k t = TSTATE_TASK_RUNNING" "\<not> is_idle_task k t"
  shows "sched_wf (nxsched_remove_running t k)"
proof -
  have c: "cpu (tcbs k t) < ncpus k" using w t by (auto simp: sched_wf_def cpus_wf_def)
  then have "t \<noteq> g_idletcb k (cpu (tcbs k t))" using w t by (auto simp: sched_wf_def idle_wf_def)
  then show ?thesis
    using nxsched_switch_running_wf [OF idled_wf [OF assms], of "cpu (tcbs k t)" False] c
    by (simp add: nxsched_remove_running_alt) (simp add: idled_def Let_def)
qed

lemma tcb_state_cpu:
  "task_state ((x :: frap_tcb_s)\<lparr>task_state := s, cpu := c\<rparr>) = s" "cpu (x\<lparr>task_state := s, cpu := c\<rparr>) = c"
  by simp_all

text \<open>The removed task is in no list: it was running, so no switch picks it.\<close>

lemma nxsched_remove_running_state:
  assumes w: "sched_wf k" and t: "tstate_of k t = TSTATE_TASK_RUNNING" "\<not> is_idle_task k t"
  shows "tstate_of (nxsched_remove_running t k) t = TSTATE_TASK_INVALID"
proof -
  define c where "c = cpu (tcbs k t)"
  have c: "c < ncpus k" using w t by (auto simp: sched_wf_def cpus_wf_def c_def)
  then have ti: "t \<noteq> g_idletcb k c" using w t by (auto simp: sched_wf_def idle_wf_def)
  have w': "sched_wf (idled t k)" by (rule idled_wf [OF assms])
  have i: "tstate_of (idled t k) t = TSTATE_TASK_INVALID" "ncpus (idled t k) = ncpus k"
    using ti by (simp_all add: idled_def Let_def c_def)
  have "current_task (idled t k) c \<noteq> t" using current_running [of "idled t k" c] w' c i by (auto simp: sched_wf_def)
  moreover have "t \<notin> set (readytorun (idled t k))" using w' i by (simp add: sched_wf_def readytorun_wf)
  ultimately have "tstate_of (snd (nxsched_switch_running c False (idled t k))) t = TSTATE_TASK_INVALID"
    using nxsched_switch_running_cases [OF w', of c False] c i
    by (metis (no_types, lifting) snd_conv switched_sel(1))
  then show ?thesis using nxsched_remove_running_alt ti by (simp add: c_def)
qed

text \<open>A task in no list may change the object it waits for.\<close>

lemma sched_wf_waitobj:
  assumes w: "sched_wf k" and t: "tstate_of k t = TSTATE_TASK_INVALID"
  shows "sched_wf (upd_tcb t (\<lambda>x. x\<lparr>waitobj := wo\<rparr>) k)"
proof (rule sched_wf_single [OF w, where t = t and x = "(tcbs k t)\<lparr>waitobj := wo\<rparr>"])
  have lw: "lists_wf k" using w by (simp add: sched_wf_def)
  have nb: "tlist_blocked (tcbs k t) = None" "tlist_blocked ((tcbs k t)\<lparr>waitobj := wo\<rparr>) = None"
    using t by (simp_all add: tlist_blocked_def)
  show "distinct (tlists (upd_tcb t (\<lambda>x. x\<lparr>waitobj := wo\<rparr>) k) l)" for l using lists_wfD(1) [OF lw] by simp
  show "set (tlists (upd_tcb t (\<lambda>x. x\<lparr>waitobj := wo\<rparr>) k) l) =
      (if tlist_blocked ((tcbs k t)\<lparr>waitobj := wo\<rparr>) = Some l then insert t (set (tlists k l)) else set (tlists k l) - {t})" for l
    using nb lists_wfD(2) [OF lw, of t l] by auto
  have "prio (upd_tcb t (\<lambda>x. x\<lparr>waitobj := wo\<rparr>) k) = prio k" by auto
  then show "tl_prioritized l \<Longrightarrow> desc (prio (upd_tcb t (\<lambda>x. x\<lparr>waitobj := wo\<rparr>) k)) (tlists (upd_tcb t (\<lambda>x. x\<lparr>waitobj := wo\<rparr>) k) l)" for l
    using lists_wfD(3) [OF lw, of l] by simp
qed (use t in auto)

text \<open>Taking a task off the list it is in.\<close>

lemma delisted_out_wf:
  assumes w: "sched_wf k" and t: "tlist_blocked (tcbs k t) = Some l"
    and f: "tlist_blocked (f (tcbs k t)) = None" "task_state (f (tcbs k t)) \<notin> {TSTATE_TASK_RUNNING, TSTATE_TASK_ASSIGNED}"
      "pid (f (tcbs k t)) = pid (tcbs k t)" "sched_priority (f (tcbs k t)) = prio k t"
  shows "sched_wf (upd_tcb t f (tl_rem t l k))"
proof (rule sched_wf_single [OF w, where t = t and x = "f (tcbs k t)"])
  have lw: "lists_wf k" using w by (simp add: sched_wf_def)
  have nl: "t \<in> set (tlists k m) \<longleftrightarrow> m = l" for m using lists_wfD(2) [OF lw] t by auto
  show "tstate_of k t \<notin> {TSTATE_TASK_RUNNING, TSTATE_TASK_ASSIGNED}" using t by (auto simp: tlist_blocked_def)
  show "distinct (tlists (upd_tcb t f (tl_rem t l k)) m)" for m
    using lists_wfD(1) [OF lw] by (simp add: tl_rem_def)
  show "set (tlists (upd_tcb t f (tl_rem t l k)) m) =
      (if tlist_blocked (f (tcbs k t)) = Some m then insert t (set (tlists k m)) else set (tlists k m) - {t})" for m
    using f(1) nl [of m] lists_wfD(1) [OF lw, of l] by (auto simp: tl_rem_def)
  have "prio (upd_tcb t f (tl_rem t l k)) = prio k" using f by (auto simp: tl_rem_def)
  then show "tl_prioritized m \<Longrightarrow> desc (prio (upd_tcb t f (tl_rem t l k))) (tlists (upd_tcb t f (tl_rem t l k)) m)" for m
    using lists_wfD(3) [OF lw, of m] by (auto simp: tl_rem_def intro!: desc_remove1)
qed (use f in \<open>auto simp: tl_rem_def\<close>)

lemma delisted_wf:
  assumes "sched_wf k" "tlist_blocked (tcbs k t) = Some l"
    and f: "task_state (f (tcbs k t)) = TSTATE_TASK_INVALID" "pid (f (tcbs k t)) = pid (tcbs k t)"
      "sched_priority (f (tcbs k t)) = prio k t"
  shows "sched_wf (upd_tcb t f (tl_rem t l k))"
  using f by (intro delisted_out_wf [OF assms(1,2)]) (simp_all add: tlist_blocked_def)

lemma nxsched_remove_readytorun_wf:
  assumes "sched_wf k" and "tstate_of k t = TSTATE_TASK_RUNNING \<and> \<not> is_idle_task k t \<or> tlist_blocked (tcbs k t) = Some l"
  shows "sched_wf (snd (nxsched_remove_readytorun t k))"
proof (cases "tstate_of k t = TSTATE_TASK_RUNNING")
  case True
  then have "\<not> is_idle_task k t" using assms by (auto simp: tlist_blocked_def)
  with True assms show ?thesis by (simp add: nxsched_remove_readytorun_def nxsched_remove_running_wf)
next
  case False
  then have "tlist_blocked (tcbs k t) = Some l" using assms by auto
  with False assms show ?thesis by (simp add: nxsched_remove_readytorun_def delisted_wf)
qed

lemma nxsched_remove_blocked_wf:
  assumes "sched_wf k" and "tlist_blocked (tcbs k t) = Some l"
  shows "sched_wf (nxsched_remove_blocked t k)"
  using assms by (simp add: nxsched_remove_blocked_def delisted_wf)

lemma nxsched_add_blocked_wf:
  assumes w: "sched_wf k" and t: "tlist_blocked (tcbs k t) = None" "tstate_of k t \<notin> {TSTATE_TASK_RUNNING, TSTATE_TASK_ASSIGNED}"
    and s: "tlist_blocked ((tcbs k t)\<lparr>task_state := s\<rparr>) = Some l"
  shows "sched_wf (nxsched_add_blocked t s k)"
proof (rule sched_wf_single [OF w t(2), where x = "(tcbs k t)\<lparr>task_state := s\<rparr>"])
  have lw: "lists_wf k" using w by (simp add: sched_wf_def)
  have nl: "t \<notin> set (tlists k m)" for m using lists_wfD(2) [OF lw] t by simp
  have p: "prio (nxsched_add_blocked t s k) = prio k" "prio (upd_tcb t (\<lambda>x. x\<lparr>task_state := s\<rparr>) k) = prio k"
    using s by (auto simp: nxsched_add_blocked_def tl_add_prioritized_def tl_addlast_def Let_def)
  have l: "tlists (nxsched_add_blocked t s k) =
      (tlists k)(l := if tl_prioritized l then ins_desc (prio k) t (tlists k l) else tlists k l @ [t])"
    using s tlist_blocked_prioritized [OF s] p(2)
    by (simp add: nxsched_add_blocked_def tl_add_prioritized_def tl_addlast_def Let_def)
  show "task_state ((tcbs k t)\<lparr>task_state := s\<rparr>) \<notin> {TSTATE_TASK_RUNNING, TSTATE_TASK_ASSIGNED}"
    using s by (auto simp: tlist_blocked_def)
  show "tcbs (nxsched_add_blocked t s k) = (tcbs k)(t := (tcbs k t)\<lparr>task_state := s\<rparr>)"
    "ncpus (nxsched_add_blocked t s k) = ncpus k" "g_idletcb (nxsched_add_blocked t s k) = g_idletcb k"
    "g_assignedtasks (nxsched_add_blocked t s k) = g_assignedtasks k"
    using s by (auto simp: nxsched_add_blocked_def tl_add_prioritized_def tl_addlast_def Let_def)
  show "distinct (tlists (nxsched_add_blocked t s k) m)" for m
    using lists_wfD(1) [OF lw] nl by (simp add: l distinct_ins_desc)
  show "set (tlists (nxsched_add_blocked t s k) m) =
      (if tlist_blocked ((tcbs k t)\<lparr>task_state := s\<rparr>) = Some m then insert t (set (tlists k m)) else set (tlists k m) - {t})" for m
    using s nl by (auto simp: l set_ins_desc)
  show "tl_prioritized m \<Longrightarrow> desc (prio (nxsched_add_blocked t s k)) (tlists (nxsched_add_blocked t s k) m)" for m
    unfolding p l using lists_wfD(3) [OF lw, of m] by (auto intro!: desc_ins_desc)
qed simp

section \<open>Priorities and preemption locking\<close>

lemma set_prio_wf:
  assumes w: "sched_wf k" and t: "\<forall>l. t \<in> set (tlists k l) \<longrightarrow> \<not> tl_prioritized l" "\<not> is_idle_task k t"
  shows "sched_wf (upd_tcb t (\<lambda>x. x\<lparr>sched_priority := p\<rparr>) k)"
proof -
  define k' where "k' = upd_tcb t (\<lambda>x. x\<lparr>sched_priority := p\<rparr>) k"
  have b: "tlist_blocked (tcbs k' u) = tlist_blocked (tcbs k u)" for u by (simp add: k'_def)
  have i: "is_idle_task k' u = is_idle_task k u" for u by (simp add: is_idle_task_def k'_def)
  have s: "tstate_of k' u = tstate_of k u" "cpu (tcbs k' u) = cpu (tcbs k u)" "tlists k' = tlists k" "ncpus k' = ncpus k"
    "g_idletcb k' = g_idletcb k" "g_assignedtasks k' = g_assignedtasks k" "u \<noteq> t \<Longrightarrow> prio k' u = prio k u" for u
    by (simp_all add: k'_def)
  have "lists_wf k'"
  proof (rule lists_wfI)
    fix l assume l: "tl_prioritized l"
    then have "desc (prio k) (tlists k l)" and "t \<notin> set (tlists k l)"
      using w t lists_wfD(3) by (auto simp: sched_wf_def)
    then show "desc (prio k') (tlists k' l)"
      unfolding s(3) using s(7) by (subst desc_cong [where g = "prio k"]) metis+
  qed (use w in \<open>auto simp: b s sched_wf_def lists_wfD\<close>)
  moreover have "cpus_wf k'" using w unfolding cpus_wf_def sched_wf_def s by blast
  moreover have "idle_wf k'" using w t s(7) unfolding idle_wf_def sched_wf_def s i by metis
  ultimately show ?thesis by (simp add: sched_wf_def k'_def)
qed

lemma nxsched_running_setpriority_wf:
  assumes w: "sched_wf k" "c < ncpus k" and t: "tstate_of k t = TSTATE_TASK_RUNNING" "\<not> is_idle_task k t"
  shows "sched_wf (snd (nxsched_running_setpriority c t p k))"
proof -
  have "sched_wf (upd_tcb t (\<lambda>x. x\<lparr>sched_priority := word_of_int p\<rparr>) k)"
    using w t tlist_blocked_running [OF t(1)] by (intro set_prio_wf) (auto simp: sched_wf_def lists_wfD)
  then show ?thesis using w nxsched_deliver_task_wf
    by (auto simp: nxsched_running_setpriority_def Let_def split: option.split)
qed

text \<open>Taking a task off a list and marking it so leaves its control block as it was.\<close>

lemma nxsched_add_readytorun_state:
  "nxsched_add_readytorun c t (upd_tcb t (\<lambda>x. x\<lparr>task_state := s\<rparr>) k) = nxsched_add_readytorun c t k"
proof -
  have "made_ready n t (upd_tcb t (\<lambda>x. x\<lparr>task_state := s\<rparr>) k) = made_ready n t k" for n
    by (simp add: made_ready_def upd_tcb_def)
  moreover have "select_cpu_loop (upd_tcb t (\<lambda>x. x\<lparr>task_state := s\<rparr>) k) a is m d = select_cpu_loop k a is m d" for a "is" m d
    by (induction "is" arbitrary: m d) (simp_all add: current_task_def is_idle_task_def Let_def)
  ultimately show ?thesis
    by (simp add: nxsched_add_readytorun_alt nxsched_select_cpu_def cpu_locked_def current_task_def Let_def)
qed

lemma tcb_state_prio:
  "(x :: frap_tcb_s)\<lparr>task_state := s, sched_priority := p\<rparr> = x\<lparr>sched_priority := p, task_state := s\<rparr>"
  by (cases x) simp

lemma nxsched_readytorun_setpriority_wf:
  assumes w: "sched_wf k" "c < ncpus k" and t: "tstate_of k t = TSTATE_TASK_READYTORUN"
  shows "sched_wf (snd (nxsched_readytorun_setpriority c t p k))"
proof -
  define k1 where "k1 = upd_tcb t (\<lambda>x. x\<lparr>task_state := TSTATE_TASK_INVALID\<rparr>) (tl_rem t L_readytorun k)"
  define k2 where "k2 = upd_tcb t (\<lambda>x. x\<lparr>sched_priority := word_of_int p\<rparr>) k1"
  have b: "tlist_blocked (tcbs k t) = Some L_readytorun" using t by (simp add: tlist_blocked_ready)
  then have 1: "sched_wf k1" unfolding k1_def by (intro delisted_wf [OF w(1)]) simp_all
  have n: "tcbs k1 t = (tcbs k t)\<lparr>task_state := TSTATE_TASK_INVALID\<rparr>" "ncpus k1 = ncpus k" by (simp_all add: k1_def tl_rem_def)
  have "\<not> is_idle_task k1 t"
    using 1 n by (intro idle_not_ready(1)) (auto simp: sched_wf_def)
  then have 2: "sched_wf k2"
    using 1 n unfolding k2_def by (intro set_prio_wf) (auto simp: sched_wf_def lists_wfD)
  have "sched_wf (snd (nxsched_add_readytorun c t k2))"
    using 2 w n by (intro nxsched_add_readytorun_wf) (auto simp: k2_def)
  also have "k2 = upd_tcb t (\<lambda>x. x\<lparr>task_state := TSTATE_TASK_INVALID\<rparr>)
      (upd_tcb t (\<lambda>x. x\<lparr>sched_priority := word_of_int p\<rparr>) (tl_rem t L_readytorun k))"
    by (simp add: k2_def k1_def upd_tcb_def tcb_state_prio)
  finally show ?thesis by (simp add: nxsched_readytorun_setpriority_def nxsched_add_readytorun_state del: tcbs_upd_tcb)
qed

lemma nxsched_blocked_setpriority_wf:
  assumes w: "sched_wf k" and t: "tstate_of k t \<notin> {TSTATE_TASK_RUNNING, TSTATE_TASK_ASSIGNED}"
  shows "sched_wf (nxsched_blocked_setpriority t p k)"
proof (cases "\<exists>l. tlist_blocked (tcbs k t) = Some l \<and> tl_prioritized l")
  case False
  have lw: "lists_wf k" "idle_wf k" using w by (simp_all add: sched_wf_def)
  have "nxsched_blocked_setpriority t p k = upd_tcb t (\<lambda>x. x\<lparr>sched_priority := word_of_int p\<rparr>) k"
    using False tlist_blocked_prioritized [of "tcbs k t"]
    by (cases "tlist_blocked (tcbs k t)") (auto simp: nxsched_blocked_setpriority_def Let_def split: bool.split)
  then show ?thesis using w t False
    by (auto intro!: set_prio_wf idle_not_ready(1) [OF lw(2)] simp: lists_wfD [OF lw(1)])
next
  case True
  then obtain l where l: "tlist_blocked (tcbs k t) = Some l" "tl_prioritized l" by blast
  have lw: "lists_wf k" using w by (simp add: sched_wf_def)
  define x where "x = (tcbs k t)\<lparr>sched_priority := word_of_int p\<rparr>"
  define k' where "k' = nxsched_blocked_setpriority t p k"
  define g where "g = (\<lambda>u. if u = t then sched_priority x else prio k u)"
  have p: "prio k' = g" "prio (upd_tcb t (\<lambda>x. x\<lparr>sched_priority := word_of_int p\<rparr>) (tl_rem t l k)) = g"
    using l tlist_blocked_prioritized [OF l(1)]
    by (auto simp: k'_def nxsched_blocked_setpriority_def tl_add_prioritized_def g_def x_def tl_rem_def)
  have tl: "tlists k' = (tlists k)(l := ins_desc g t (remove1 t (tlists k l)))"
    using l tlist_blocked_prioritized [OF l(1)] p(2)
    by (simp add: k'_def nxsched_blocked_setpriority_def tl_add_prioritized_def del: tcbs_upd_tcb) (simp add: tl_rem_def)
  have nl: "t \<in> set (tlists k m) \<longleftrightarrow> m = l" for m using lists_wfD(2) [OF lw] l by auto
  have d: "desc g (remove1 t (tlists k m))" if "tl_prioritized m" for m
    using desc_remove1 [OF lists_wfD(3) [OF lw that], of t] lists_wfD(1) [OF lw, of m]
    by (subst desc_cong [where g = "prio k"]) (auto simp: g_def)
  have "sched_wf k'"
  proof (rule sched_wf_single [OF w t, where x = x])
    show "tcbs k' = (tcbs k)(t := x)" "ncpus k' = ncpus k" "g_idletcb k' = g_idletcb k" "g_assignedtasks k' = g_assignedtasks k"
      using l tlist_blocked_prioritized [OF l(1)]
      by (auto simp: k'_def nxsched_blocked_setpriority_def tl_add_prioritized_def tl_rem_def x_def)
    show "distinct (tlists k' m)" for m using lists_wfD(1) [OF lw] by (simp add: tl distinct_ins_desc)
    show "set (tlists k' m) = (if tlist_blocked x = Some m then insert t (set (tlists k m)) else set (tlists k m) - {t})" for m
      using l nl [of m] lists_wfD(1) [OF lw] by (auto simp: tl set_ins_desc x_def)
    show "tl_prioritized m \<Longrightarrow> desc (prio k') (tlists k' m)" for m
      unfolding p tl using d [of m] nl [of m] by (auto intro!: desc_ins_desc simp: remove1_idem)
  qed (use t in \<open>simp_all add: x_def\<close>)
  then show ?thesis by (simp add: k'_def)
qed

lemma idle_assigned: "sched_wf k \<Longrightarrow> \<not> is_idle_task k t \<Longrightarrow> tstate_of k t \<noteq> TSTATE_TASK_ASSIGNED"
  by (auto simp: sched_wf_def idle_wf_def)

lemma tl_prios [simp]:
  "tcbs (tl_rem t l k) = tcbs k" "tcbs (tl_add_prioritized t l k) = tcbs k" "tcbs (tl_addlast t l k) = tcbs k"
  by (simp_all add: tl_rem_def tl_add_prioritized_def tl_addlast_def)

lemma nxsched_running_setpriority_prio:
  "prio (snd (nxsched_running_setpriority c t p k)) u = (if u = t then word_of_int p else prio k u)"
  by (simp add: nxsched_running_setpriority_def Let_def sched_eqD(1) [OF nxsched_deliver_task_eq] split: option.split)

lemma nxsched_set_priority_prio:
  assumes "SCHED_PRIORITY_MIN \<le> p" "p \<le> SCHED_PRIORITY_MAX"
  shows "prio (snd (snd (nxsched_set_priority c t p k))) u = (if u = t then word_of_int p else prio k u)"
  using assms
  by (simp add: nxsched_set_priority_def nxsched_running_setpriority_prio nxsched_readytorun_setpriority_def Let_def
      nxsched_blocked_setpriority_def sched_eqD(1) [OF nxsched_add_readytorun_eq] split: tstate.split option.split bool.split)

theorem nxsched_set_priority_wf:
  assumes "sched_wf k" "c < ncpus k" "\<not> is_idle_task k t"
  shows "sched_wf (snd (snd (nxsched_set_priority c t p k)))"
  using assms idle_assigned nxsched_running_setpriority_wf nxsched_readytorun_setpriority_wf nxsched_blocked_setpriority_wf
  by (auto simp: nxsched_set_priority_def split: tstate.split)

lemma nxsched_reprioritize_wf:
  assumes "sched_wf k" "c < ncpus k" "\<not> is_idle_task k t"
  shows "sched_wf (snd (snd (nxsched_reprioritize c t p k)))"
  using nxsched_set_priority_wf [OF assms, of p]
  by (auto simp: nxsched_reprioritize_def sched_wf_tcb split: prod.split)

lemma sched_yield_wf:
  assumes "sched_wf k" "c < ncpus k" "\<not> is_idle_task k (this_task c k)"
  shows "sched_wf (snd (snd (sched_yield c k)))"
  using nxsched_set_priority_wf [OF assms, of "uint (prio k (this_task c k))"]
  by (auto simp: sched_yield_def Let_def split: prod.split)

lemma sched_lock_wf: "sched_wf k \<Longrightarrow> sched_wf (sched_lock c k)"
  by (simp add: sched_lock_def sched_wf_tcb)

lemma sched_unlock_wf:
  assumes w: "sched_wf k" and c: "c < ncpus k"
  shows "sched_wf (snd (sched_unlock c k))"
proof -
  have "cpu (tcbs k (this_task c k)) = c"
    using w c by (simp add: this_task_def current_task_def sched_wf_def cpus_wf_def)
  then show ?thesis using w c
    by (auto simp: sched_unlock_def Let_def sched_wf_tcb nxsched_deliver_task_wf split: option.split)
qed

lemma nxsched_process_delivered_wf:
  assumes w: "sched_wf k" and c: "c < ncpus k"
  shows "sched_wf (nxsched_process_delivered c k)"
proof -
  define k1 where "k1 = k\<lparr>g_delivertasks := (g_delivertasks k)(c := SWITCH_NONE)\<rparr>"
  obtain sw k2 where k2: "nxsched_switch_running c (g_delivertasks k c = SWITCH_EQUAL) k1 = (sw, k2)" by fastforce
  have 1: "sched_wf k1" "c < ncpus k1" using w c by (auto simp: k1_def intro: sched_wf_cong)
  have 2: "sched_wf k2" using nxsched_switch_running_wf [OF 1] k2 by (metis snd_conv)
  have "ncpus k2 = ncpus k1"
    using sched_eqD nxsched_switch_running_eq k2 sched_eq_globals by (metis snd_conv)
  then have "sched_wf (snd (nxsched_deliver_task c target d k2))" for target d
    using 2 1 by (simp add: nxsched_deliver_task_wf)
  with 1 2 show ?thesis
    unfolding nxsched_process_delivered_def Let_def k1_def [symmetric] k2
    by (auto split: option.split)
qed

section \<open>What switching achieves\<close>

text \<open>The tasks of the ready-to-run list that CPU \<open>c\<close> may take.\<close>

abbreviation eligible :: "kernel \<Rightarrow> nat \<Rightarrow> tid \<Rightarrow> bool" where
  "eligible k c t \<equiv> t \<in> set (readytorun k) \<and> may_run_on k c t"

lemma rtr_search_first:
  assumes "rtr_search k c p xs = Some b" and "desc (prio k) xs" and "x \<in> set xs" and "may_run_on k c x"
  shows "prio k x \<le> prio k b"
proof -
  obtain us vs where "xs = us @ b # vs" "\<forall>u \<in> set us. \<not> may_run_on k c u"
    using rtr_search_Some [OF assms(1)] by blast
  with assms(2-) show ?thesis by (auto simp: desc_append)
qed

theorem nxsched_switch_running_best:
  assumes w: "sched_wf k" "c < ncpus k" and e: "eligible (snd (nxsched_switch_running c e k)) c t"
    and u: "\<not> nxsched_islocked_tcb (tcbs k (current_task k c))"
  shows "prio k t \<le> prio k (current_task (snd (nxsched_switch_running c e k)) c)"
  using w
proof (cases rule: nxsched_switch_running_cases [of k c e])
  case (none p)
  have "desc (prio k) (readytorun k)" using w by (simp add: sched_wf_def readytorun_wf)
  then have "uint (prio k t) \<le> p" using rtr_search_None [OF none(3)] e none(4) by auto
  with none show ?thesis by (auto simp: word_le_def)
next
  case (switch p b)
  have d: "desc (prio k) (readytorun k)" "distinct (readytorun k)" using w by (simp_all add: sched_wf_def readytorun_wf)
  have t: "t \<noteq> b" "t \<in> set (readytorun k) \<or> t = current_task k c"
    using e d switch by (auto simp: switched_sel [OF switch(5)] set_ins_desc split: if_splits)
  have "prio k (current_task k c) \<le> prio k b"
    using rtr_search_Some [OF switch(3)] switch(2) by (auto simp: word_le_def)
  moreover have "prio k t \<le> prio k b" if "t \<in> set (readytorun k)" "t \<noteq> current_task k c"
    using that e t rtr_search_first [OF switch(3) d(1)] switch
    by (auto simp: may_run_on_def switched_sel [OF switch(5)] cpu_locked_def)
  ultimately show ?thesis using t switch by (auto simp: current_task_def switched_sel)
qed (use u in simp)

section \<open>The choice of a CPU\<close>

lemma select_cpu_loop_idle:
  assumes "\<exists>i \<in> set xs. CPU_ISSET i aff \<and> is_idle_task k (current_task k i)"
  shows "\<exists>ys zs. xs = ys @ select_cpu_loop k aff xs m c # zs \<and> CPU_ISSET (select_cpu_loop k aff xs m c) aff \<and>
    is_idle_task k (current_task k (select_cpu_loop k aff xs m c)) \<and>
    (\<forall>i \<in> set ys. CPU_ISSET i aff \<longrightarrow> \<not> is_idle_task k (current_task k i))"
  using assms
proof (induction xs arbitrary: m c)
  case (Cons x xs)
  show ?case
  proof (cases "CPU_ISSET x aff \<and> is_idle_task k (current_task k x)")
    case True
    then show ?thesis by (intro exI [of _ "[]"] exI [of _ xs]) simp
  next
    case False
    define m' c' where "m' = (if CPU_ISSET x aff \<and> prio k (current_task k x) \<le> m then prio k (current_task k x) else m)"
      and "c' = (if CPU_ISSET x aff \<and> prio k (current_task k x) \<le> m then x else c)"
    have e: "select_cpu_loop k aff (x # xs) m c = select_cpu_loop k aff xs m' c'"
      using False by (simp add: m'_def c'_def Let_def)
    have "\<exists>i \<in> set xs. CPU_ISSET i aff \<and> is_idle_task k (current_task k i)" using Cons.prems False by auto
    then obtain ys zs where "xs = ys @ select_cpu_loop k aff xs m' c' # zs" "CPU_ISSET (select_cpu_loop k aff xs m' c') aff"
      "is_idle_task k (current_task k (select_cpu_loop k aff xs m' c'))"
      "\<forall>i \<in> set ys. CPU_ISSET i aff \<longrightarrow> \<not> is_idle_task k (current_task k i)" using Cons.IH [of m' c'] by blast
    then show ?thesis unfolding e using False by (intro exI [of _ "x # ys"] exI [of _ zs]) auto
  qed
qed simp

lemma select_cpu_loop_busy:
  assumes "\<forall>i \<in> set xs. CPU_ISSET i aff \<longrightarrow> \<not> is_idle_task k (current_task k i)"
  shows "(select_cpu_loop k aff xs m c = c \<or>
      select_cpu_loop k aff xs m c \<in> set xs \<and> CPU_ISSET (select_cpu_loop k aff xs m c) aff \<and>
      prio k (current_task k (select_cpu_loop k aff xs m c)) \<le> m) \<and>
    (\<forall>i \<in> set xs. CPU_ISSET i aff \<longrightarrow> prio k (current_task k i) \<le> m \<longrightarrow>
      select_cpu_loop k aff xs m c \<in> set xs \<and> CPU_ISSET (select_cpu_loop k aff xs m c) aff \<and>
      prio k (current_task k (select_cpu_loop k aff xs m c)) \<le> prio k (current_task k i))"
  using assms
proof (induction xs arbitrary: m c)
  case (Cons x xs)
  show ?case
  proof (cases "CPU_ISSET x aff \<and> prio k (current_task k x) \<le> m")
    case True
    then have e: "select_cpu_loop k aff (x # xs) m c = select_cpu_loop k aff xs (prio k (current_task k x)) x"
      using Cons.prems by (simp add: Let_def)
    define r where "r = select_cpu_loop k aff xs (prio k (current_task k x)) x"
    note ih = Cons.IH [of "prio k (current_task k x)" x, folded r_def]
    have r: "r \<in> set (x # xs)" "CPU_ISSET r aff" "prio k (current_task k r) \<le> prio k (current_task k x)"
      using ih Cons.prems True by auto
    have "prio k (current_task k r) \<le> prio k (current_task k i)" if "i \<in> set (x # xs)" "CPU_ISSET i aff" for i
      using that ih Cons.prems r(3) by (cases "prio k (current_task k i) \<le> prio k (current_task k x)") auto
    then show ?thesis unfolding e r_def [symmetric] using r True by (blast intro: order.trans)
  next
    case False
    then have e: "select_cpu_loop k aff (x # xs) m c = select_cpu_loop k aff xs m c"
      using Cons.prems by (auto simp: Let_def)
    show ?thesis unfolding e using Cons.IH [of m c] Cons.prems False by auto
  qed
qed simp

section \<open>No task is lost\<close>

text \<open>A task that can run stays in the ready-to-run list or on a CPU.\<close>

definition runnable :: "kernel \<Rightarrow> tid \<Rightarrow> bool" where
  "runnable k t \<longleftrightarrow> tstate_of k t \<in> {TSTATE_TASK_READYTORUN, TSTATE_TASK_RUNNING} \<and> \<not> is_idle_task k t"

lemma runnable_switch:
  assumes "sched_wf k" "c < ncpus k"
  shows "runnable (snd (nxsched_switch_running c e k)) t = runnable k t"
  using assms
proof (cases rule: nxsched_switch_running_cases [of k c e])
  case (switch p b)
  have "tstate_of k (current_task k c) = TSTATE_TASK_RUNNING"
    using assms by (simp add: sched_wf_def current_running)
  moreover have "tstate_of k b = TSTATE_TASK_READYTORUN"
    using assms(1) switch(4) by (simp add: sched_wf_def readytorun_wf)
  ultimately show ?thesis using switch by (auto simp: runnable_def switched_sel is_idle_task_def)
qed simp_all

lemma runnable_deliver:
  assumes "sched_wf k" "c < ncpus k"
  shows "runnable (snd (nxsched_deliver_task c g d k)) t = runnable k t"
proof -
  have "runnable (k\<lparr>g_delivertasks := (g_delivertasks k)(g := d)\<rparr>) t = runnable k t" by (simp add: runnable_def is_idle_task_def)
  then show ?thesis using assms by (simp add: nxsched_deliver_task_def runnable_switch)
qed

lemma runnable_add_readytorun:
  assumes "sched_wf k" "c < ncpus k" "tlist_blocked (tcbs k b) = None"
    "tstate_of k b \<notin> {TSTATE_TASK_RUNNING, TSTATE_TASK_ASSIGNED}"
  shows "runnable (snd (nxsched_add_readytorun c b k)) t \<longleftrightarrow> runnable k t \<or> t = b \<and> \<not> is_idle_task k b"
proof -
  have "runnable (made_ready n b k) t \<longleftrightarrow> runnable k t \<or> t = b \<and> \<not> is_idle_task k b" for n
    by (auto simp: runnable_def made_ready_sel is_idle_task_def)
  then show ?thesis using made_ready_wf [OF assms(1,3,4)] assms(2)
    by (simp add: nxsched_add_readytorun_alt Let_def runnable_deliver made_ready_sel)
qed

end
