(* ===== verification/Task_Setup.thy ===== *)
theory Task_Setup
  imports Sched_Inv
begin

text \<open>
  Task creation and the process-ID table: the idle tasks and the table of \<open>sched/init/nx_start.c\<close>,
  \<open>nxtask_assign_pid\<close> and \<open>nxthread_setup_scheduler\<close> of \<open>sched/task/task_setup.c\<close>,
  \<open>nxtask_activate\<close>, \<open>nxsched_releasepid\<close> and \<open>nxsched_get_tcb\<close>.

  \<open>pid_t\<close> is a 32-bit signed integer: an \<open>int\<close> here, with the wrap-around of the increment written
  out. Whether \<open>kmm_zalloc\<close> succeeds is the argument \<open>zalloc\<close>, a function of the number of table
  entries asked for. The control block of a task that does not exist yet has a process ID outside
  the idle tasks' range.
\<close>

section \<open>Operations\<close>

definition zero_tcb :: frap_tcb_s where
  "zero_tcb =
     \<lparr>pid = 0, sched_priority = 0, init_priority = 0, task_state = TSTATE_TASK_INVALID,
      boost_priority = 0, base_priority = 0, cpu = 0, affinity = 0, flags = 0, lockcount = 0,
      irqcount = 0, errcode = 0, timeslice = 0, waitobj = None,
      frap_waiting_res = None, frap_base_prio = 0, frap_spin_prio = 0, frap_saved_prio = 0,
      frap_in_cs = False, frap_enqueued = False, frap_cancelled = False, frap_queue_preempt_cnt = 0\<rparr>"

definition SCHED_ALL_CPUS :: "nat \<Rightarrow> u32" where
  "SCHED_ALL_CPUS n = push_bit n 1 - 1"

text \<open>One turn of the loop of \<open>idle_task_initialize\<close>; \<open>cpuset\<close> is \<open>CONFIG_SMP_DEFAULT_CPUSET\<close>.\<close>

definition idle_task_one :: "u32 \<Rightarrow> nat \<Rightarrow> kernel \<Rightarrow> kernel" where
  "idle_task_one cpuset i k =
     (let t = g_idletcb k i;
          k1 = upd_tcb t (\<lambda>_. zero_tcb\<lparr>pid := int i, task_state := TSTATE_TASK_RUNNING, lockcount := 1,
                 flags := TCB_FLAG_TTYPE_KERNEL OR TCB_FLAG_CPU_LOCKED, cpu := i,
                 affinity := cpuset AND SCHED_ALL_CPUS (ncpus k)\<rparr>) k
      in k1\<lparr>g_assignedtasks := (g_assignedtasks k1)(i := t),
            g_running_tasks := (g_running_tasks k1)(i := t)\<rparr>)"

definition idle_task_initialize :: "u32 \<Rightarrow> kernel \<Rightarrow> kernel" where
  "idle_task_initialize cpuset k = fold (idle_task_one cpuset) [0..<ncpus k] k"

text \<open>The size of the table: the loop doubles a power of two until it exceeds the number of CPUs.\<close>

function pidhash_size :: "nat \<Rightarrow> nat \<Rightarrow> nat" where
  "pidhash_size i n = (if 0 < i \<and> i \<le> n then pidhash_size (2 * i) n else i)"
  by pat_completeness auto
termination by (relation "measure (\<lambda>(i, n). Suc n - i)") auto

declare pidhash_size.simps [simp del]

text \<open>\<open>PIDHASH(pid)\<close> is a bitwise AND.\<close>

definition PIDHASH :: "nat \<Rightarrow> int \<Rightarrow> nat" where
  "PIDHASH n p = nat (p AND (int n - 1))"

definition pidhash_initialize :: "nat \<Rightarrow> kernel \<Rightarrow> kernel" where
  "pidhash_initialize size0 k =
     (let n = pidhash_size size0 (ncpus k)
      in k\<lparr>g_npidhash := n,
           g_pidhash := fold (\<lambda>i h. h(PIDHASH n (int i) := Some (g_idletcb k i))) [0..<ncpus k] (\<lambda>_. None),
           g_lastpid := int (ncpus k) - 1\<rparr>)"

definition pid_inc :: "int \<Rightarrow> int" where
  "pid_inc p = sint (word_of_int (p + 1) :: i32)"

text \<open>The search for a free entry, with the number of turns left.\<close>

fun pid_probe :: "kernel \<Rightarrow> nat \<Rightarrow> int \<Rightarrow> int option" where
  "pid_probe k 0 next_pid = None"
| "pid_probe k (Suc i) next_pid =
     (let p = (if next_pid \<le> 0 then 1 else next_pid)
      in if g_pidhash k (PIDHASH (g_npidhash k) p) = None then Some p
         else pid_probe k i (pid_inc p))"

text \<open>The table of twice the size, filled from the old one.\<close>

definition pid_rehash :: "kernel \<Rightarrow> nat \<Rightarrow> tid option" where
  "pid_rehash k =
     fold (\<lambda>i h. case g_pidhash k i of
                   None \<Rightarrow> h
                 | Some t \<Rightarrow> h(PIDHASH (2 * g_npidhash k) (pid (tcbs k t)) := Some t))
       [0..<g_npidhash k] (\<lambda>_. None)"

text \<open>
  The rounds separated by \<open>goto retry\<close>; nobody else replaces the table during the allocation.
  \<open>None\<close>: the given number of rounds was not enough.
\<close>

fun nxtask_assign_pid :: "nat \<Rightarrow> (nat \<Rightarrow> bool) \<Rightarrow> tid \<Rightarrow> kernel \<Rightarrow> (int \<times> kernel) option" where
  "nxtask_assign_pid 0 zalloc t k = None"
| "nxtask_assign_pid (Suc rounds) zalloc t k =
     (case pid_probe k (g_npidhash k) (pid_inc (g_lastpid k)) of
        Some p \<Rightarrow>
          Some (OK, (upd_tcb t (\<lambda>x. x\<lparr>pid := p\<rparr>) k)
                      \<lparr>g_pidhash := (g_pidhash k)(PIDHASH (g_npidhash k) p := Some t), g_lastpid := p\<rparr>)
      | None \<Rightarrow>
          if \<not> zalloc (g_npidhash k * 2) then Some (- ENOMEM, k)
          else nxtask_assign_pid rounds zalloc t
                 (k\<lparr>g_npidhash := 2 * g_npidhash k, g_pidhash := pid_rehash k\<rparr>))"

definition nxsched_get_tcb :: "int \<Rightarrow> kernel \<Rightarrow> tid option" where
  "nxsched_get_tcb p k =
     (if p \<ge> 0 then
        (case g_pidhash k (PIDHASH (g_npidhash k) p) of
           None \<Rightarrow> None
         | Some t \<Rightarrow> if p = pid (tcbs k t) then Some t else None)
      else None)"

definition nxsched_releasepid :: "int \<Rightarrow> kernel \<Rightarrow> kernel" where
  "nxsched_releasepid p k = k\<lparr>g_pidhash := (g_pidhash k)(PIDHASH (g_npidhash k) p := None)\<rparr>"

definition TCB_FLAG_TTYPE_MASK :: u32 where "TCB_FLAG_TTYPE_MASK = push_bit 0 3"

definition nxtask_inherit_affinity :: "nat \<Rightarrow> tid \<Rightarrow> kernel \<Rightarrow> kernel" where
  "nxtask_inherit_affinity c t k = upd_tcb t (\<lambda>x. x\<lparr>affinity := affinity (tcbs k (this_task c k))\<rparr>) k"

text \<open>
  The scheduler's part of \<open>nxthread_setup_scheduler\<close>: the entry point, parent, signal mask, D-space
  and register context are not part of the state. \<open>nxthread_setup_tcb\<close> is the code after a
  successful \<open>nxtask_assign_pid\<close>.
\<close>

definition nxthread_setup_tcb :: "nat \<Rightarrow> tid \<Rightarrow> int \<Rightarrow> u32 \<Rightarrow> kernel \<Rightarrow> kernel" where
  "nxthread_setup_tcb c t priority ttype k =
     (let k1 = upd_tcb t (\<lambda>x. x\<lparr>sched_priority := word_of_int priority, init_priority := word_of_int priority,
                 base_priority := word_of_int priority,
                 flags := (((flags x AND NOT TCB_FLAG_TTYPE_MASK) OR (ttype AND TCB_FLAG_TTYPE_MASK))
                             AND NOT TCB_FLAG_POLICY_MASK) OR TCB_FLAG_SCHED_RR,
                 timeslice := rr_interval k\<rparr>) k;
          k2 = nxtask_inherit_affinity c t k1;
          k3 = upd_tcb t (\<lambda>x. x\<lparr>task_state := TSTATE_TASK_INVALID\<rparr>) k2;
          k4 = upd_list L_inactivetasks (\<lambda>xs. t # xs) k3
      in upd_tcb t (\<lambda>x. x\<lparr>task_state := TSTATE_TASK_INACTIVE\<rparr>) k4)"

definition nxthread_setup_scheduler ::
    "nat \<Rightarrow> (nat \<Rightarrow> bool) \<Rightarrow> nat \<Rightarrow> tid \<Rightarrow> int \<Rightarrow> u32 \<Rightarrow> kernel \<Rightarrow> (int \<times> kernel) option" where
  "nxthread_setup_scheduler rounds zalloc c t priority ttype k =
     do {
       (ret, k1) \<leftarrow> nxtask_assign_pid rounds zalloc t k;
       if ret = OK then Some (ret, nxthread_setup_tcb c t priority ttype k1)
       else Some (ret, k1)
     }"

definition nxtask_activate :: "nat \<Rightarrow> tid \<Rightarrow> kernel \<Rightarrow> bool \<times> kernel" where
  "nxtask_activate c t k = nxsched_add_readytorun c t (nxsched_remove_blocked t k)"

section \<open>The process-ID table\<close>

text \<open>
  The table is well formed when its size is a power of two, every entry stands in the slot its
  process ID hashes to, and slot 0 holds the idle task of process ID 0.
\<close>

definition pid_wf :: "kernel \<Rightarrow> bool" where
  "pid_wf k \<longleftrightarrow>
     (\<exists>m. g_npidhash k = 2 ^ m) \<and> g_npidhash k \<le> 2 ^ 31 \<and> 0 \<le> g_lastpid k \<and> g_lastpid k < 2 ^ 31 \<and>
     (\<forall>i t. g_pidhash k i = Some t \<longrightarrow>
        i < g_npidhash k \<and> 0 \<le> pid (tcbs k t) \<and> pid (tcbs k t) < 2 ^ 31 \<and> PIDHASH (g_npidhash k) (pid (tcbs k t)) = i) \<and>
     (\<exists>t. g_pidhash k 0 = Some t \<and> pid (tcbs k t) = 0)"

lemma PIDHASH_pow: "PIDHASH (2 ^ m) p = nat (p mod 2 ^ m)"
proof -
  have "p AND (2 ^ m - 1) = take_bit m p" by (simp add: take_bit_eq_mask mask_eq_exp_minus_1)
  then show ?thesis by (simp add: PIDHASH_def take_bit_eq_mod)
qed

lemma PIDHASH_int: "int (PIDHASH (2 ^ m) p) = p mod 2 ^ m"
  by (simp add: PIDHASH_pow)

lemma PIDHASH_less: "PIDHASH (2 ^ m) p < 2 ^ m"
proof -
  have "p mod 2 ^ m < 2 ^ m" by simp
  then show ?thesis unfolding PIDHASH_pow by (simp add: nat_less_iff)
qed

lemma pid_inc_less: "pid_inc p < 2 ^ 31"
  using sint_lt [of "word_of_int (p + 1) :: i32"] by (simp add: pid_inc_def)

lemma pid_inc_plain:
  assumes "0 \<le> p" "p < 2 ^ 31 - 1"
  shows "pid_inc p = p + 1"
proof -
  have "sint (word_of_int (p + 1) :: i32) = (p + 1 + 2 ^ 31) mod 2 ^ 32 - 2 ^ 31"
    by (subst int_word_sint) simp
  then show ?thesis using assms unfolding pid_inc_def by (simp add: mod_pos_pos_trivial)
qed

lemma pid_inc_wrap: "pid_inc (2 ^ 31 - 1) \<le> 0"
  by (simp add: pid_inc_def)

definition pid_norm :: "int \<Rightarrow> int" where
  "pid_norm p = (if p \<le> 0 then 1 else p)"

lemma pid_probe_Suc:
  "pid_probe k (Suc i) p =
     (if g_pidhash k (PIDHASH (g_npidhash k) (pid_norm p)) = None then Some (pid_norm p)
      else pid_probe k i (pid_inc (pid_norm p)))"
  by (simp add: pid_norm_def Let_def)

lemma pid_norm_range: "p < 2 ^ 31 \<Longrightarrow> 1 \<le> pid_norm p \<and> pid_norm p < 2 ^ 31"
  by (simp add: pid_norm_def)

lemma pid_probe_Some:
  "pid_probe k i p = Some q \<Longrightarrow> p < 2 ^ 31 \<Longrightarrow> 1 \<le> q \<and> q < 2 ^ 31 \<and> g_pidhash k (PIDHASH (g_npidhash k) q) = None"
proof (induction i arbitrary: p)
  case (Suc i)
  show ?case
  proof (cases "g_pidhash k (PIDHASH (g_npidhash k) (pid_norm p)) = None")
    case True
    then show ?thesis using Suc.prems pid_norm_range [of p] by (simp add: pid_probe_Suc del: pid_probe.simps)
  next
    case False
    then have "pid_probe k i (pid_inc (pid_norm p)) = Some q"
      using Suc.prems by (auto simp: pid_probe_Suc simp del: pid_probe.simps)
    then show ?thesis using pid_inc_less by (rule Suc.IH)
  qed
qed simp

text \<open>How far the slot \<open>j\<close> is ahead of the candidate \<open>p\<close>, and that a turn comes closer to it.\<close>

lemma pid_turn_closer:
  assumes "1 \<le> p" "p < 2 ^ 31" "m \<le> 31" "0 < j" "j < (2::int) ^ m" "(j - p) mod 2 ^ m \<noteq> 0"
  shows "(j - pid_norm (pid_inc p)) mod 2 ^ m < (j - p) mod 2 ^ m"
proof (cases "p < 2 ^ 31 - 1")
  case True
  then have "pid_norm (pid_inc p) = p + 1" using assms by (simp add: pid_inc_plain pid_norm_def)
  moreover have "(j - (p + 1)) mod 2 ^ m = (j - p) mod 2 ^ m - 1"
  proof -
    have b: "0 \<le> (j - p) mod 2 ^ m" "(j - p) mod 2 ^ m < 2 ^ m" by simp_all
    have "(j - (p + 1)) mod 2 ^ m = ((j - p) mod 2 ^ m - 1) mod 2 ^ m" by (simp add: mod_simps algebra_simps)
    also have "\<dots> = (j - p) mod 2 ^ m - 1"
      using assms(6) b by (intro mod_pos_pos_trivial) linarith+
    finally show ?thesis .
  qed
  ultimately show ?thesis by simp
next
  case False
  then have p: "p = 2 ^ 31 - 1" using assms by simp
  then have n: "pid_norm (pid_inc p) = 1" using pid_inc_wrap by (simp add: pid_norm_def)
  have "(2::int) ^ m dvd 2 ^ 31" using assms(3) by (rule le_imp_power_dvd)
  then have "(j - p) mod 2 ^ m = (j + 1) mod 2 ^ m"
    unfolding p by (metis (no_types, opaque_lifting) add.commute diff_diff_eq2 dvd_eq_mod_eq_0 mod_diff_right_eq diff_zero)
  moreover have "(j + 1) mod 2 ^ m = (if j + 1 = 2 ^ m then 0 else j + 1)" using assms by auto
  moreover have "(j - 1) mod 2 ^ m = j - 1" using assms by simp
  ultimately show ?thesis using assms(6) n by (auto split: if_splits)
qed

lemma pid_probe_finds:
  assumes n: "g_npidhash k = 2 ^ m" "m \<le> 31" and j: "0 < j" "j < 2 ^ m" "g_pidhash k j = None"
  shows "p < 2 ^ 31 \<Longrightarrow> (int j - pid_norm p) mod 2 ^ m < int i \<Longrightarrow> \<exists>q. pid_probe k i p = Some q"
proof (induction i arbitrary: p)
  case 0
  moreover have "0 \<le> (int j - pid_norm p) mod 2 ^ m" by simp
  ultimately show ?case by linarith
next
  case (Suc i)
  show ?case
  proof (cases "g_pidhash k (PIDHASH (g_npidhash k) (pid_norm p)) = None")
    case True
    then show ?thesis by (simp add: pid_probe_Suc del: pid_probe.simps)
  next
    case False
    have r: "1 \<le> pid_norm p" "pid_norm p < 2 ^ 31" using pid_norm_range Suc.prems by auto
    have "(int j - pid_norm p) mod 2 ^ m \<noteq> 0"
    proof
      assume "(int j - pid_norm p) mod 2 ^ m = 0"
      then have "pid_norm p mod 2 ^ m = int j mod 2 ^ m" by (metis mod_eq_dvd_iff dvd_eq_mod_eq_0)
      then have "PIDHASH (g_npidhash k) (pid_norm p) = j" using j by (simp add: n PIDHASH_pow)
      then show False using False j by simp
    qed
    then have "(int j - pid_norm (pid_inc (pid_norm p))) mod 2 ^ m < int i"
      using pid_turn_closer [OF r n(2), of "int j"] j Suc.prems(2) by simp
    then show ?thesis using False Suc.IH [OF pid_inc_less] by (simp add: pid_probe_Suc del: pid_probe.simps)
  qed
qed


lemma pid_wfD:
  assumes "pid_wf k" "g_pidhash k i = Some t"
  shows "i < g_npidhash k" "0 \<le> pid (tcbs k t)" "pid (tcbs k t) < 2 ^ 31" "PIDHASH (g_npidhash k) (pid (tcbs k t)) = i"
  using assms unfolding pid_wf_def by blast+

lemma pid_wf_size:
  assumes "pid_wf k"
  obtains m where "g_npidhash k = 2 ^ m" "m \<le> 31"
proof -
  obtain m where m: "g_npidhash k = 2 ^ m" "g_npidhash k \<le> 2 ^ 31" using assms unfolding pid_wf_def by blast
  then have "m \<le> 31" using power_le_imp_le_exp [of "2 :: nat" m 31] by simp
  with m that show thesis by blast
qed

text \<open>The table finds exactly the tasks whose process ID leads to their slot.\<close>

lemma nxsched_get_tcb_Some:
  assumes "pid_wf k"
  shows "nxsched_get_tcb p k = Some t \<longleftrightarrow> (\<exists>i. g_pidhash k i = Some t) \<and> pid (tcbs k t) = p"
proof
  assume "nxsched_get_tcb p k = Some t"
  then show "(\<exists>i. g_pidhash k i = Some t) \<and> pid (tcbs k t) = p"
    by (auto simp: nxsched_get_tcb_def split: option.splits if_splits)
next
  assume "(\<exists>i. g_pidhash k i = Some t) \<and> pid (tcbs k t) = p"
  then obtain i where i: "g_pidhash k i = Some t" "pid (tcbs k t) = p" by blast
  then show "nxsched_get_tcb p k = Some t" using pid_wfD [OF assms i(1)] by (simp add: nxsched_get_tcb_def)
qed

lemma PIDHASH_double: "PIDHASH (2 * 2 ^ m) p = PIDHASH (2 * 2 ^ m) q \<Longrightarrow> PIDHASH (2 ^ m) p = PIDHASH (2 ^ m) q"
proof -
  assume "PIDHASH (2 * 2 ^ m) p = PIDHASH (2 * 2 ^ m) q"
  then have "p mod 2 ^ Suc m = q mod 2 ^ Suc m" unfolding power_Suc [symmetric] PIDHASH_int [symmetric] by (rule arg_cong)
  then have "p mod 2 ^ Suc m mod 2 ^ m = q mod 2 ^ Suc m mod 2 ^ m" by (rule arg_cong)
  moreover have "x mod 2 ^ Suc m mod 2 ^ m = x mod 2 ^ m" for x :: int by (rule mod_mod_cancel) simp
  ultimately show ?thesis by (simp only: PIDHASH_pow)
qed

lemma pid_rehash_Some:
  assumes w: "pid_wf k"
  shows "pid_rehash k i = Some t \<longleftrightarrow> (\<exists>j. g_pidhash k j = Some t) \<and> PIDHASH (2 * g_npidhash k) (pid (tcbs k t)) = i"
proof -
  let ?H = "\<lambda>t. PIDHASH (2 * g_npidhash k) (pid (tcbs k t))"
  obtain m where m: "g_npidhash k = 2 ^ m" by (rule pid_wf_size [OF w])
  have inj: "a = b" if "g_pidhash k a = Some x" "g_pidhash k b = Some y" "?H x = ?H y" for a b x y
    using PIDHASH_double [of m "pid (tcbs k x)" "pid (tcbs k y)"] pid_wfD(4) [OF w that(1)] pid_wfD(4) [OF w that(2)] that(3) m
    by simp
  define F where "F n = fold (\<lambda>i h. case g_pidhash k i of None \<Rightarrow> h | Some t \<Rightarrow> h(?H t := Some t)) [0..<n] (\<lambda>_. None)" for n
  have "F n i = Some t \<longleftrightarrow> (\<exists>j < n. g_pidhash k j = Some t) \<and> ?H t = i" for n
  proof (induction n)
    case 0
    show ?case by (simp add: F_def)
  next
    case (Suc n)
    have e: "F (Suc n) i = (case g_pidhash k n of None \<Rightarrow> F n i | Some u \<Rightarrow> if i = ?H u then Some u else F n i)"
      by (simp add: F_def split: option.split)
    consider "g_pidhash k n = None" | u where "g_pidhash k n = Some u" "i = ?H u" | u where "g_pidhash k n = Some u" "i \<noteq> ?H u"
      by (cases "g_pidhash k n") auto
    then show ?case
    proof cases
      case 1
      then show ?thesis unfolding e using Suc by (simp add: less_Suc_eq) auto
    next
      case 2
      have "t = u" if "g_pidhash k j = Some t" "?H t = ?H u" for j
        using that(1) 2(1) inj [OF that(1) 2(1) that(2)] by simp
      then have "(\<exists>j < Suc n. g_pidhash k j = Some t) \<and> ?H t = i \<longleftrightarrow> t = u" using 2 by blast
      moreover have "F (Suc n) i = Some u" unfolding e using 2 by simp
      ultimately show ?thesis by auto
    next
      case 3
      then have "g_pidhash k n \<noteq> Some t" if "?H t = i" using that by auto
      with 3 show ?thesis unfolding e using Suc by (simp add: less_Suc_eq) auto
    qed
  qed
  from this [of "g_npidhash k"] have "pid_rehash k i = Some t \<longleftrightarrow> (\<exists>j < g_npidhash k. g_pidhash k j = Some t) \<and> ?H t = i"
    by (simp only: F_def pid_rehash_def)
  then show ?thesis using pid_wfD(1) [OF w] by blast
qed

definition pid_grown :: "kernel \<Rightarrow> kernel" where
  "pid_grown k = k\<lparr>g_npidhash := 2 * g_npidhash k, g_pidhash := pid_rehash k\<rparr>"

lemma pid_grown_sel [simp]:
  "g_npidhash (pid_grown k) = 2 * g_npidhash k" "g_pidhash (pid_grown k) = pid_rehash k" "tcbs (pid_grown k) = tcbs k"
  "g_lastpid (pid_grown k) = g_lastpid k" "tlists (pid_grown k) = tlists k" "ncpus (pid_grown k) = ncpus k"
  "g_idletcb (pid_grown k) = g_idletcb k" "g_assignedtasks (pid_grown k) = g_assignedtasks k" "rr_interval (pid_grown k) = rr_interval k"
  by (simp_all add: pid_grown_def)

lemma pid_grown_wf:
  assumes w: "pid_wf k" and n: "g_npidhash k \<le> 2 ^ 30"
  shows "pid_wf (pid_grown k)"
  unfolding pid_wf_def
proof (intro conjI allI impI)
  obtain m where m: "g_npidhash k = 2 ^ m" by (rule pid_wf_size [OF w])
  show "\<exists>m. g_npidhash (pid_grown k) = 2 ^ m" using m by (intro exI [of _ "Suc m"]) simp
  show "g_npidhash (pid_grown k) \<le> 2 ^ 31" using n by simp
  show "0 \<le> g_lastpid (pid_grown k)" "g_lastpid (pid_grown k) < 2 ^ 31" using w by (simp_all add: pid_wf_def)
  fix i t
  assume "g_pidhash (pid_grown k) i = Some t"
  then obtain j where j: "g_pidhash k j = Some t" "PIDHASH (2 * g_npidhash k) (pid (tcbs k t)) = i"
    using pid_rehash_Some [OF w] by auto
  have "PIDHASH (2 ^ Suc m) (pid (tcbs k t)) < 2 ^ Suc m" by (rule PIDHASH_less)
  then show "i < g_npidhash (pid_grown k)" using j m by simp
  show "0 \<le> pid (tcbs (pid_grown k) t)" "pid (tcbs (pid_grown k) t) < 2 ^ 31"
    "PIDHASH (g_npidhash (pid_grown k)) (pid (tcbs (pid_grown k) t)) = i"
    using j pid_wfD [OF w j(1)] by simp_all
next
  obtain t where t: "g_pidhash k 0 = Some t" "pid (tcbs k t) = 0" using w unfolding pid_wf_def by blast
  then have "pid_rehash k 0 = Some t" using pid_rehash_Some [OF w] by (auto simp: PIDHASH_def)
  then show "\<exists>t. g_pidhash (pid_grown k) 0 = Some t \<and> pid (tcbs (pid_grown k) t) = 0" using t by auto
qed

lemma pid_grown_get_tcb:
  assumes "pid_wf k" "g_npidhash k \<le> 2 ^ 30"
  shows "nxsched_get_tcb p (pid_grown k) = nxsched_get_tcb p k"
proof -
  have "nxsched_get_tcb p (pid_grown k) = Some t \<longleftrightarrow> nxsched_get_tcb p k = Some t" for t
    using nxsched_get_tcb_Some [OF pid_grown_wf [OF assms]] nxsched_get_tcb_Some [OF assms(1)] pid_rehash_Some [OF assms(1)]
    by auto
  then show ?thesis by (metis not_Some_eq)
qed

text \<open>The new table has a free slot: only the entry of slot 0 could move to slot \<open>g_npidhash\<close>, and it does not.\<close>

lemma pid_grown_free:
  assumes w: "pid_wf k"
  shows "pid_rehash k (g_npidhash k) = None"
proof (rule ccontr)
  obtain m where m: "g_npidhash k = 2 ^ m" by (rule pid_wf_size [OF w])
  assume "pid_rehash k (g_npidhash k) \<noteq> None"
  then obtain t j where t: "g_pidhash k j = Some t" "PIDHASH (2 * g_npidhash k) (pid (tcbs k t)) = g_npidhash k"
    using pid_rehash_Some [OF w] by auto
  have "PIDHASH (2 * 2 ^ m) (2 ^ m) = 2 ^ m" unfolding power_Suc [symmetric] PIDHASH_pow by simp
  then have "PIDHASH (2 ^ m) (pid (tcbs k t)) = PIDHASH (2 ^ m) (2 ^ m)"
    using PIDHASH_double [of m "pid (tcbs k t)" "2 ^ m"] t(2) m by simp
  then have "j = 0" using pid_wfD(4) [OF w t(1)] m by (simp add: PIDHASH_pow)
  then have "pid (tcbs k t) = 0" using t(1) w unfolding pid_wf_def by auto
  then show False using t(2) m by (simp add: PIDHASH_def)
qed


text \<open>What a successful assignment leaves: the new entry, and every other lookup as before.\<close>

definition pid_assigned :: "tid \<Rightarrow> kernel \<Rightarrow> kernel \<Rightarrow> bool" where
  "pid_assigned t k k' \<longleftrightarrow>
     pid_wf k' \<and> 0 < pid (tcbs k' t) \<and> nxsched_get_tcb (pid (tcbs k' t)) k = None \<and>
     (\<forall>q. nxsched_get_tcb q k' = (if q = pid (tcbs k' t) then Some t else nxsched_get_tcb q k)) \<and>
     tcbs k' = (tcbs k)(t := (tcbs k t)\<lparr>pid := pid (tcbs k' t)\<rparr>) \<and> tlists k' = tlists k \<and> ncpus k' = ncpus k \<and>
     g_idletcb k' = g_idletcb k \<and> g_assignedtasks k' = g_assignedtasks k \<and> rr_interval k' = rr_interval k"

definition pid_taken :: "int \<Rightarrow> tid \<Rightarrow> kernel \<Rightarrow> kernel" where
  "pid_taken p t k = (upd_tcb t (\<lambda>x. x\<lparr>pid := p\<rparr>) k)\<lparr>g_pidhash := (g_pidhash k)(PIDHASH (g_npidhash k) p := Some t), g_lastpid := p\<rparr>"

lemma pid_taken_sel [simp]:
  "g_npidhash (pid_taken p t k) = g_npidhash k" "g_pidhash (pid_taken p t k) = (g_pidhash k)(PIDHASH (g_npidhash k) p := Some t)"
  "tcbs (pid_taken p t k) = (tcbs k)(t := (tcbs k t)\<lparr>pid := p\<rparr>)" "g_lastpid (pid_taken p t k) = p"
  "tlists (pid_taken p t k) = tlists k" "ncpus (pid_taken p t k) = ncpus k" "g_idletcb (pid_taken p t k) = g_idletcb k"
  "g_assignedtasks (pid_taken p t k) = g_assignedtasks k" "rr_interval (pid_taken p t k) = rr_interval k"
  by (simp_all add: pid_taken_def)

lemma pid_taken_wf:
  assumes w: "pid_wf k" and p: "1 \<le> p" "p < 2 ^ 31" "g_pidhash k (PIDHASH (g_npidhash k) p) = None"
    and t: "\<forall>i. g_pidhash k i \<noteq> Some t"
  shows "pid_wf (pid_taken p t k)"
  unfolding pid_wf_def
proof (intro conjI allI impI)
  obtain m where m: "g_npidhash k = 2 ^ m" by (rule pid_wf_size [OF w])
  show "\<exists>m. g_npidhash (pid_taken p t k) = 2 ^ m" "g_npidhash (pid_taken p t k) \<le> 2 ^ 31"
    "0 \<le> g_lastpid (pid_taken p t k)" "g_lastpid (pid_taken p t k) < 2 ^ 31"
    using w p by (simp_all add: pid_wf_def)
  fix i u
  assume a: "g_pidhash (pid_taken p t k) i = Some u"
  have "u \<noteq> t \<and> g_pidhash k i = Some u \<or> u = t \<and> i = PIDHASH (g_npidhash k) p"
    using a t by (auto split: if_splits)
  then show "i < g_npidhash (pid_taken p t k)" "0 \<le> pid (tcbs (pid_taken p t k) u)" "pid (tcbs (pid_taken p t k) u) < 2 ^ 31"
    "PIDHASH (g_npidhash (pid_taken p t k)) (pid (tcbs (pid_taken p t k) u)) = i"
    using pid_wfD [OF w, of i u] p PIDHASH_less [of m p] m by auto
next
  obtain u where u: "g_pidhash k 0 = Some u" "pid (tcbs k u) = 0" using w unfolding pid_wf_def by blast
  moreover have "u \<noteq> t" using u t by blast
  moreover have "PIDHASH (g_npidhash k) p \<noteq> 0" using u p by (metis option.distinct(1))
  ultimately show "\<exists>u. g_pidhash (pid_taken p t k) 0 = Some u \<and> pid (tcbs (pid_taken p t k) u) = 0" by auto
qed

lemma pid_taken_assigned:
  assumes w: "pid_wf k" and p: "1 \<le> p" "p < 2 ^ 31" "g_pidhash k (PIDHASH (g_npidhash k) p) = None"
    and t: "\<forall>i. g_pidhash k i \<noteq> Some t"
  shows "pid_assigned t k (pid_taken p t k)"
proof -
  note w' = pid_taken_wf [OF assms]
  have n: "nxsched_get_tcb p k = None" using p by (simp add: nxsched_get_tcb_def)
  have s: "(\<exists>i. g_pidhash (pid_taken p t k) i = Some u) \<longleftrightarrow> u = t \<or> (\<exists>i. g_pidhash k i = Some u)" for u
  proof -
    have "u \<in> ran (g_pidhash (pid_taken p t k)) \<longleftrightarrow> u = t \<or> u \<in> ran (g_pidhash k)" using p(3) by simp
    then show ?thesis unfolding ran_def mem_Collect_eq .
  qed
  have "nxsched_get_tcb q (pid_taken p t k) = Some u \<longleftrightarrow> (if q = p then u = t else nxsched_get_tcb q k = Some u)" for q u
    unfolding nxsched_get_tcb_Some [OF w'] nxsched_get_tcb_Some [OF w] s
    using n t nxsched_get_tcb_Some [OF w, of p] by auto
  then have "nxsched_get_tcb q (pid_taken p t k) = (if q = p then Some t else nxsched_get_tcb q k)" for q
    by (metis not_Some_eq)
  then show ?thesis using w' n p by (simp add: pid_assigned_def)
qed

lemma nxtask_assign_pid_probe:
  "nxtask_assign_pid (Suc r) zalloc t k =
     (case pid_probe k (g_npidhash k) (pid_inc (g_lastpid k)) of
        Some p \<Rightarrow> Some (OK, pid_taken p t k)
      | None \<Rightarrow> if \<not> zalloc (g_npidhash k * 2) then Some (- ENOMEM, k) else nxtask_assign_pid r zalloc t (pid_grown k))"
  by (simp add: pid_taken_def pid_grown_def split: option.split)

lemma pid_probe_free:
  assumes w: "pid_wf k" and j: "j < g_npidhash k" "g_pidhash k j = None"
  shows "\<exists>p. pid_probe k (g_npidhash k) (pid_inc (g_lastpid k)) = Some p"
proof -
  obtain m where m: "g_npidhash k = 2 ^ m" "m \<le> 31" by (rule pid_wf_size [OF w])
  have "j \<noteq> 0" using w j unfolding pid_wf_def by (metis option.distinct(1))
  moreover have "(int j - pid_norm (pid_inc (g_lastpid k))) mod 2 ^ m < 2 ^ m" by simp
  ultimately show ?thesis using pid_probe_finds [OF m, of j "pid_inc (g_lastpid k)" "g_npidhash k"] pid_inc_less j m by simp
qed

lemma nxtask_assign_pid_ok:
  assumes w: "pid_wf k" and n: "g_npidhash k \<le> 2 ^ 30" and t: "\<forall>i. g_pidhash k i \<noteq> Some t"
    and z: "zalloc (g_npidhash k * 2) \<or> (\<exists>j < g_npidhash k. g_pidhash k j = None)"
  shows "\<exists>k'. nxtask_assign_pid (Suc (Suc r)) zalloc t k = Some (OK, k') \<and> pid_assigned t k k'"
proof (cases "pid_probe k (g_npidhash k) (pid_inc (g_lastpid k))")
  case (Some p)
  then show ?thesis using pid_taken_assigned [OF w _ _ _ t] pid_probe_Some [OF Some pid_inc_less]
    by (simp add: nxtask_assign_pid_probe del: nxtask_assign_pid.simps)
next
  case None
  then have z': "zalloc (g_npidhash k * 2)" using z pid_probe_free [OF w] by auto
  note w' = pid_grown_wf [OF w n]
  have "g_npidhash k < 2 * g_npidhash k" using w unfolding pid_wf_def by auto
  then obtain p where p: "pid_probe (pid_grown k) (g_npidhash (pid_grown k)) (pid_inc (g_lastpid (pid_grown k))) = Some p"
    using pid_probe_free [OF w', of "g_npidhash k"] pid_grown_free [OF w] by auto
  have "\<forall>i. g_pidhash (pid_grown k) i \<noteq> Some t" using t pid_rehash_Some [OF w] by auto
  then have "pid_assigned t (pid_grown k) (pid_taken p t (pid_grown k))"
    using pid_taken_assigned [OF w'] pid_probe_Some [OF p pid_inc_less] by blast
  then have "pid_assigned t k (pid_taken p t (pid_grown k))"
    by (simp add: pid_assigned_def pid_grown_get_tcb [OF w n])
  then show ?thesis using None z' p by (simp add: nxtask_assign_pid_probe del: nxtask_assign_pid.simps)
qed

lemma nxtask_assign_pid_full:
  assumes w: "pid_wf k" and f: "\<forall>j < g_npidhash k. g_pidhash k j \<noteq> None" and z: "\<not> zalloc (g_npidhash k * 2)"
  shows "nxtask_assign_pid (Suc r) zalloc t k = Some (- ENOMEM, k)"
proof -
  obtain m where m: "g_npidhash k = 2 ^ m" by (rule pid_wf_size [OF w])
  have "pid_probe k (g_npidhash k) (pid_inc (g_lastpid k)) = None"
    using pid_probe_Some [OF _ pid_inc_less] f PIDHASH_less [of m] m by (metis not_Some_eq)
  then show ?thesis using z by (simp add: nxtask_assign_pid_probe del: nxtask_assign_pid.simps)
qed

lemma nxsched_releasepid_ok:
  assumes w: "pid_wf k" and p: "nxsched_get_tcb p k = Some t" "p \<noteq> 0"
  shows "pid_wf (nxsched_releasepid p k) \<and>
    (\<forall>q. nxsched_get_tcb q (nxsched_releasepid p k) = (if q = p then None else nxsched_get_tcb q k))"
proof
  obtain i where i: "g_pidhash k i = Some t" "pid (tcbs k t) = p" using p nxsched_get_tcb_Some [OF w] by blast
  have h: "PIDHASH (g_npidhash k) p = i" using pid_wfD(4) [OF w i(1)] i(2) by simp
  have s: "tcbs (nxsched_releasepid p k) = tcbs k" "g_pidhash (nxsched_releasepid p k) = (g_pidhash k)(i := None)"
    "g_npidhash (nxsched_releasepid p k) = g_npidhash k" "g_lastpid (nxsched_releasepid p k) = g_lastpid k"
    by (simp_all add: nxsched_releasepid_def h)
  have "i \<noteq> 0" using w i p(2) unfolding pid_wf_def by (metis option.inject)
  then show w': "pid_wf (nxsched_releasepid p k)" using w unfolding pid_wf_def s by auto
  have "(\<exists>j. ((g_pidhash k)(i := None)) j = Some u) \<longleftrightarrow> (\<exists>j. g_pidhash k j = Some u) \<and> u \<noteq> t" for u
  proof -
    have "j = i" if "g_pidhash k j = Some t" for j using pid_wfD(4) [OF w that] pid_wfD(4) [OF w i(1)] by simp
    then show ?thesis using i(1) by (metis fun_upd_apply option.distinct(1) option.inject)
  qed
  then have "nxsched_get_tcb q (nxsched_releasepid p k) = Some u \<longleftrightarrow> nxsched_get_tcb q k = Some u \<and> u \<noteq> t" for q u
    unfolding nxsched_get_tcb_Some [OF w'] nxsched_get_tcb_Some [OF w] s by blast
  moreover have "q = p" if "nxsched_get_tcb q k = Some t" for q using that i(2) nxsched_get_tcb_Some [OF w, of q t] by simp
  ultimately have "nxsched_get_tcb q (nxsched_releasepid p k) = Some u \<longleftrightarrow> q \<noteq> p \<and> nxsched_get_tcb q k = Some u" for q u
    using p(1) by (metis option.inject)
  then show "\<forall>q. nxsched_get_tcb q (nxsched_releasepid p k) = (if q = p then None else nxsched_get_tcb q k)"
    by (metis not_Some_eq)
qed


text \<open>The size is a power of two that exceeds the number of CPUs.\<close>

lemma pidhash_size_pow:
  assumes "i = 2 ^ a"
  shows "\<exists>b. a \<le> b \<and> pidhash_size i n = 2 ^ b \<and> n < pidhash_size i n \<and> (pidhash_size i n = i \<or> pidhash_size i n \<le> 2 * n)"
  using assms
proof (induction i n arbitrary: a rule: pidhash_size.induct)
  case (1 i n)
  show ?case
  proof (cases "i \<le> n")
    case True
    have "2 * i = 2 ^ Suc a" using 1(2) by simp
    then obtain b where b: "Suc a \<le> b" "pidhash_size (2 * i) n = 2 ^ b" "n < pidhash_size (2 * i) n"
      "pidhash_size (2 * i) n = 2 * i \<or> pidhash_size (2 * i) n \<le> 2 * n"
      using 1(1) [OF _ \<open>2 * i = 2 ^ Suc a\<close>] True 1(2) by auto
    have "pidhash_size i n = pidhash_size (2 * i) n" using True 1(2) by (subst pidhash_size.simps) simp
    then show ?thesis using b True by (intro exI [of _ b]) auto
  next
    case False
    then have "pidhash_size i n = i" by (subst pidhash_size.simps) simp
    then show ?thesis using False 1(2) by (intro exI [of _ a]) simp
  qed
qed

lemma idle_table:
  assumes "n \<le> 2 ^ m"
  shows "fold (\<lambda>i h. h(PIDHASH (2 ^ m) (int i) := Some (f i))) [0..<n] (\<lambda>_. None) = (\<lambda>i. if i < n then Some (f i) else None)"
  using assms
proof (induction n)
  case (Suc n)
  then have "PIDHASH (2 ^ m) (int n) = n" by (simp add: PIDHASH_pow nat_mod_as_int [symmetric])
  then show ?case using Suc by (auto simp: fun_eq_iff)
qed simp

lemma pidhash_initialize_wf:
  assumes c: "0 < ncpus k" "ncpus k < 2 ^ 30" and s: "a \<le> 31" and i: "\<forall>i < ncpus k. pid (tcbs k (g_idletcb k i)) = int i"
  shows "pid_wf (pidhash_initialize (2 ^ a) k) \<and>
    (\<forall>i < ncpus k. nxsched_get_tcb (int i) (pidhash_initialize (2 ^ a) k) = Some (g_idletcb k i))"
proof
  define n where "n = pidhash_size (2 ^ a) (ncpus k)"
  obtain b where b: "n = 2 ^ b" "ncpus k < n" "n = 2 ^ a \<or> n \<le> 2 * ncpus k"
    using pidhash_size_pow [OF refl, of a "ncpus k"] unfolding n_def by blast
  define k' where "k' = pidhash_initialize (2 ^ a) k"
  have k': "g_npidhash k' = n" "g_lastpid k' = int (ncpus k) - 1" "tcbs k' = tcbs k"
    "g_pidhash k' = (\<lambda>i. if i < ncpus k then Some (g_idletcb k i) else None)"
    using idle_table [of "ncpus k" b "g_idletcb k"] b
    by (simp_all add: k'_def pidhash_initialize_def Let_def n_def [symmetric])
  have h: "PIDHASH n (int i) = i" if "i < ncpus k" for i
    using that b by (simp add: b(1) PIDHASH_pow nat_mod_as_int [symmetric])
  have "n \<le> 2 ^ 31" using b(3) c(2) power_increasing [OF s, of "2 :: nat"] by auto
  then show w: "pid_wf (pidhash_initialize (2 ^ a) k)"
    unfolding pid_wf_def k'_def [symmetric] k' using c b h i by (auto split: if_splits)
  show "\<forall>i < ncpus k. nxsched_get_tcb (int i) (pidhash_initialize (2 ^ a) k) = Some (g_idletcb k i)"
    unfolding k'_def [symmetric] using k' h i by (simp add: nxsched_get_tcb_def)
qed

section \<open>Creating and activating a task\<close>

lemma pid_assigned_idle:
  assumes "pid_assigned t k k'" and "\<forall>c < ncpus k. nxsched_get_tcb (int c) k = Some (g_idletcb k c)"
  shows "int (ncpus k) \<le> pid (tcbs k' t)"
proof (rule ccontr)
  assume "\<not> int (ncpus k) \<le> pid (tcbs k' t)"
  then obtain c where "pid (tcbs k' t) = int c" "c < ncpus k"
    using assms(1) unfolding pid_assigned_def by (metis less_imp_le not_le nonneg_int_cases of_nat_less_iff)
  then show False using assms by (auto simp: pid_assigned_def)
qed

lemma nxthread_setup_scheduler_ok:
  assumes w: "sched_wf k" "pid_wf k" and n: "g_npidhash k \<le> 2 ^ 30" and z: "zalloc (g_npidhash k * 2)"
    and t: "\<forall>i. g_pidhash k i \<noteq> Some t" "tstate_of k t = TSTATE_TASK_INVALID" "\<not> is_idle_task k t"
    and i: "\<forall>c < ncpus k. nxsched_get_tcb (int c) k = Some (g_idletcb k c)"
  obtains k' where "nxthread_setup_scheduler (Suc (Suc r)) zalloc c t priority ttype k = Some (OK, k')"
    "sched_wf k'" "pid_wf k'" "tlists k' L_inactivetasks = t # tlists k L_inactivetasks" "tstate_of k' t = TSTATE_TASK_INACTIVE"
    "prio k' t = word_of_int priority" "int (ncpus k) \<le> pid (tcbs k' t)" "nxsched_get_tcb (pid (tcbs k' t)) k' = Some t"
    "ncpus k' = ncpus k"
proof -
  obtain k1 where k1: "nxtask_assign_pid (Suc (Suc r)) zalloc t k = Some (OK, k1)" "pid_assigned t k k1"
    using nxtask_assign_pid_ok [OF w(2) n t(1), of zalloc r] z by blast
  obtain p where t1: "tcbs k1 = (tcbs k)(t := (tcbs k t)\<lparr>pid := p\<rparr>)" using k1(2) unfolding pid_assigned_def by blast
  have f: "tlists k1 = tlists k" "ncpus k1 = ncpus k" "g_idletcb k1 = g_idletcb k" "g_assignedtasks k1 = g_assignedtasks k"
      "pid_wf k1" "nxsched_get_tcb (pid (tcbs k1 t)) k1 = Some t"
    using k1(2) unfolding pid_assigned_def by auto
  define k' where "k' = nxthread_setup_tcb c t priority ttype k1"
  have e: "nxthread_setup_scheduler (Suc (Suc r)) zalloc c t priority ttype k = Some (OK, k')"
    using k1(1) by (simp add: nxthread_setup_scheduler_def k'_def del: nxtask_assign_pid.simps)
  define x where "x = tcbs k' t"
  have x: "tcbs k' = (tcbs k)(t := x)" "task_state x = TSTATE_TASK_INACTIVE" "sched_priority x = word_of_int priority"
    "pid x = p" "tlists k' = (tlists k)(L_inactivetasks := t # tlists k L_inactivetasks)" "ncpus k' = ncpus k"
    "g_idletcb k' = g_idletcb k" "g_assignedtasks k' = g_assignedtasks k" "g_npidhash k' = g_npidhash k1"
    "g_pidhash k' = g_pidhash k1" "g_lastpid k' = g_lastpid k1"
    by (simp_all add: x_def k'_def nxthread_setup_tcb_def Let_def nxtask_inherit_affinity_def t1 f)
  have p: "int (ncpus k) \<le> pid x" using pid_assigned_idle [OF k1(2) i] by (simp add: x t1)
  have lw: "lists_wf k" using w by (simp add: sched_wf_def)
  have nl: "t \<notin> set (tlists k l)" for l using lists_wfD(2) [OF lw] t(2) by (simp add: tlist_blocked_def)
  have b: "tlist_blocked x = Some L_inactivetasks" using x(2) by (simp add: tlist_blocked_def)
  have "sched_wf k'"
  proof (rule sched_wf_replace [OF w(1) _ _ _ x(1,6-8)])
    show "pid x < int (ncpus k) \<longleftrightarrow> is_idle_task k t" using p t(3) by simp
    show "distinct (tlists k' l)" for l using lists_wfD(1) [OF lw] nl by (simp add: x)
    show "set (tlists k' l) = (if tlist_blocked x = Some l then insert t (set (tlists k l)) else set (tlists k l) - {t})" for l
      using nl by (auto simp: x b)
    show "desc (prio k') (tlists k' l)" if "tl_prioritized l" for l
    proof -
      have "desc (prio k) (tlists k l)" using lists_wfD(3) [OF lw that] .
      moreover have "desc (prio k') (tlists k l) = desc (prio k) (tlists k l)"
        by (rule desc_cong) (use nl [of l] x(1) in auto)
      moreover have "tlists k' l = tlists k l" using that x(5) by (auto simp: tl_prioritized_def)
      ultimately show ?thesis by simp
    qed
  qed (use t x in simp_all)
  moreover have g: "pid (tcbs k' u) = pid (tcbs k1 u)" for u by (simp add: x t1)
  have "pid_wf k'" using f(5) unfolding pid_wf_def x(9-11) g .
  moreover have "nxsched_get_tcb q k' = nxsched_get_tcb q k1" for q unfolding nxsched_get_tcb_def x(9,10) g ..
  ultimately show thesis using p f(6) by (intro that [OF e]) (simp_all add: x g t1)
qed

lemma nxtask_activate_ok:
  assumes w: "sched_wf k" and c: "c < ncpus k" and t: "tstate_of k t = TSTATE_TASK_INACTIVE" "\<not> is_idle_task k t"
  shows "sched_wf (snd (nxtask_activate c t k))" "runnable (snd (nxtask_activate c t k)) t"
proof -
  define k1 where "k1 = nxsched_remove_blocked t k"
  have b: "tlist_blocked (tcbs k t) = Some L_inactivetasks" using t by (simp add: tlist_blocked_def)
  have 1: "sched_wf k1" unfolding k1_def by (rule nxsched_remove_blocked_wf [OF w b])
  have 2: "tlist_blocked (tcbs k1 t) = None" "tstate_of k1 t = TSTATE_TASK_INVALID" "ncpus k1 = ncpus k" "\<not> is_idle_task k1 t"
    using b t(2) by (simp_all add: k1_def nxsched_remove_blocked_def tl_rem_def tlist_blocked_def is_idle_task_def)
  show "sched_wf (snd (nxtask_activate c t k))"
    unfolding nxtask_activate_def k1_def [symmetric] using 1 2 c by (intro nxsched_add_readytorun_wf) simp_all
  show "runnable (snd (nxtask_activate c t k)) t"
    unfolding nxtask_activate_def k1_def [symmetric] using runnable_add_readytorun [OF 1, of c t t] 2 c by simp
qed

end
