(* ===== verification/Sem.thy ===== *)
theory Sem
  imports Task_Setup
begin

text \<open>
  Counting semaphores and mutexes with priority inheritance and priority protection:
  \<open>sched/semaphore\<close> and the fast paths of \<open>libs/libc/semaphore\<close>, configured with preallocated
  holders.

  The count and the mutex holder share one 32-bit word, as in the union of \<open>struct sem_s\<close>. The wait
  list of a semaphore is the task list \<open>L_sem\<close> of the kernel. A holder container is named by its
  number; the lists through \<open>flink\<close> (the holders of a semaphore, the free containers) and through
  \<open>tlink\<close> (the semaphores a task holds) are lists of containers. The result \<open>None\<close> is a
  \<open>PANIC\<close> or a NULL dereference.

  Every operation runs in a critical section and is one step, up to \<open>up_switch_context\<close>: a waiting
  task continues with \<open>nxsem_wait_resume\<close> when it is back on a CPU. A compare-and-swap loop succeeds in its
  first turn. Address mappings and assertions are left out; theory \<open>Timer\<close> adds the watchdog of a timed wait.
\<close>

section \<open>Data\<close>

type_synonym hid = nat

record semholder_s =
  hsem :: "oid option"
  htcb :: "tid option"
  counts :: int

record sem_s =
  sval :: u32
  sflags :: u8
  hhead :: "hid list"
  sceiling :: u8
  ssaved :: u8

record semsys =
  sk :: kernel
  sems :: "oid \<Rightarrow> sem_s"
  holders :: "hid \<Rightarrow> semholder_s"
  holdsem :: "tid \<Rightarrow> hid list"
  g_freeholders :: "hid list"

definition SEM_PRIO_NONE :: u8 where "SEM_PRIO_NONE = 0"
definition SEM_PRIO_INHERIT :: u8 where "SEM_PRIO_INHERIT = 1"
definition SEM_PRIO_PROTECT :: u8 where "SEM_PRIO_PROTECT = 2"
definition SEM_PRIO_MASK :: u8 where "SEM_PRIO_MASK = 3"
definition SEM_TYPE_MUTEX :: u8 where "SEM_TYPE_MUTEX = 4"
definition SEM_VALUE_MAX :: int where "SEM_VALUE_MAX = 2147483647"
definition NXSEM_MBLOCKING_BIT :: u32 where "NXSEM_MBLOCKING_BIT = 0x80000000"
definition NXSEM_NO_MHOLDER :: u32 where "NXSEM_NO_MHOLDER = 0x7ffffffe"
definition NXSEM_MRESET :: u32 where "NXSEM_MRESET = 0x7fffffff"

definition NXSEM_IS_MUTEX :: "sem_s \<Rightarrow> bool" where
  "NXSEM_IS_MUTEX s \<longleftrightarrow> sflags s AND SEM_TYPE_MUTEX \<noteq> 0"

definition NXSEM_MACQUIRED :: "u32 \<Rightarrow> bool" where
  "NXSEM_MACQUIRED h \<longleftrightarrow> h AND NXSEM_NO_MHOLDER \<noteq> NXSEM_NO_MHOLDER"

definition NXSEM_MBLOCKING :: "u32 \<Rightarrow> bool" where
  "NXSEM_MBLOCKING h \<longleftrightarrow> h AND NXSEM_MBLOCKING_BIT \<noteq> 0"

text \<open>The protocol of a semaphore, and its word read as the count.\<close>

definition sem_proto :: "sem_s \<Rightarrow> u8" where
  "sem_proto s = sflags s AND SEM_PRIO_MASK"

definition semcount :: "sem_s \<Rightarrow> int" where
  "semcount s = sint (sval s)"

definition upd_sem :: "oid \<Rightarrow> (sem_s \<Rightarrow> sem_s) \<Rightarrow> semsys \<Rightarrow> semsys" where
  "upd_sem s f y = y\<lparr>sems := (sems y)(s := f (sems y s))\<rparr>"

definition upd_holder :: "hid \<Rightarrow> (semholder_s \<Rightarrow> semholder_s) \<Rightarrow> semsys \<Rightarrow> semsys" where
  "upd_holder p f y = y\<lparr>holders := (holders y)(p := f (holders y p))\<rparr>"

definition upd_sk :: "(kernel \<Rightarrow> kernel) \<Rightarrow> semsys \<Rightarrow> semsys" where
  "upd_sk f y = y\<lparr>sk := f (sk y)\<rparr>"

definition set_sval :: "oid \<Rightarrow> u32 \<Rightarrow> semsys \<Rightarrow> semsys" where
  "set_sval s v y = upd_sem s (\<lambda>x. x\<lparr>sval := v\<rparr>) y"

abbreviation SEM_WAITLIST :: "oid \<Rightarrow> semsys \<Rightarrow> tid list" where
  "SEM_WAITLIST s y \<equiv> tlists (sk y) (L_sem s)"

text \<open>\<open>((uint32_t)tcb->pid) | blocking_bit\<close>, the bit being set when tasks are left waiting.\<close>

definition mholder_of :: "oid \<Rightarrow> tid \<Rightarrow> semsys \<Rightarrow> u32" where
  "mholder_of s t y =
     word_of_int (pid (tcbs (sk y) t)) OR (if SEM_WAITLIST s y = [] then 0 else NXSEM_MBLOCKING_BIT)"

section \<open>Holders\<close>

definition nxsem_initialize_holders :: "nat \<Rightarrow> semsys \<Rightarrow> semsys" where
  "nxsem_initialize_holders n y = y\<lparr>g_freeholders := [0..<n]\<rparr>"

definition nxsem_allocholder :: "oid \<Rightarrow> tid \<Rightarrow> semsys \<Rightarrow> (hid \<times> semsys) option" where
  "nxsem_allocholder s h y =
     (case g_freeholders y of
        [] \<Rightarrow> None
      | p # ps \<Rightarrow>
          let y1 = y\<lparr>g_freeholders := ps\<rparr>;
              y2 = upd_sem s (\<lambda>x. x\<lparr>hhead := p # hhead x\<rparr>) y1;
              y3 = upd_holder p (\<lambda>_. \<lparr>hsem = Some s, htcb = Some h, counts = 0\<rparr>) y2
          in Some (p, y3\<lparr>holdsem := (holdsem y3)(h := p # holdsem y3 h)\<rparr>))"

definition nxsem_findholder :: "oid \<Rightarrow> tid \<Rightarrow> semsys \<Rightarrow> hid option" where
  "nxsem_findholder s h y = find (\<lambda>p. htcb (holders y p) = Some h) (hhead (sems y s))"

definition nxsem_findorallocateholder :: "oid \<Rightarrow> tid \<Rightarrow> semsys \<Rightarrow> (hid \<times> semsys) option" where
  "nxsem_findorallocateholder s h y =
     (case nxsem_findholder s h y of
        None \<Rightarrow> nxsem_allocholder s h y
      | Some p \<Rightarrow> Some (p, y))"

definition nxsem_freeholder :: "oid \<Rightarrow> hid \<Rightarrow> semsys \<Rightarrow> semsys option" where
  "nxsem_freeholder s p y = do {
     h \<leftarrow> htcb (holders y p);
     let y1 = y\<lparr>holdsem := (holdsem y)(h := remove1 p (holdsem y h))\<rparr>;
     let y2 = upd_holder p (\<lambda>_. \<lparr>hsem = None, htcb = None, counts = 0\<rparr>) y1;
     let y3 = upd_sem s (\<lambda>x. x\<lparr>hhead := remove1 p (hhead x)\<rparr>) y2;
     Some (y3\<lparr>g_freeholders := p # g_freeholders y3\<rparr>)
   }"

text \<open>The loop of \<open>nxsem_foreachholder\<close>: it reads the next container before it calls the handler.\<close>

type_synonym holderhandler = "hid \<Rightarrow> semsys \<Rightarrow> (int \<times> semsys) option"

fun foreach_loop :: "holderhandler \<Rightarrow> hid list \<Rightarrow> semsys \<Rightarrow> (int \<times> semsys) option" where
  "foreach_loop handler [] y = Some (0, y)"
| "foreach_loop handler (p # ps) y = do {
     (ret, y1) \<leftarrow> handler p y;
     if ret = 0 then foreach_loop handler ps y1 else Some (ret, y1)
   }"

definition nxsem_foreachholder :: "oid \<Rightarrow> holderhandler \<Rightarrow> semsys \<Rightarrow> semsys option" where
  "nxsem_foreachholder s handler y = map_option snd (foreach_loop handler (hhead (sems y s)) y)"

definition nxsem_freecount0holder :: "oid \<Rightarrow> holderhandler" where
  "nxsem_freecount0holder s p y =
     (if counts (holders y p) \<le> 0 \<or> NXSEM_IS_MUTEX (sems y s)
      then map_option (Pair 1) (nxsem_freeholder s p y)
      else Some (0, y))"

definition nxsem_recoverholders :: "oid \<Rightarrow> holderhandler" where
  "nxsem_recoverholders s p y = map_option (Pair 0) (nxsem_freeholder s p y)"

definition set_priority :: "nat \<Rightarrow> tid \<Rightarrow> u8 \<Rightarrow> semsys \<Rightarrow> semsys" where
  "set_priority c t p y = upd_sk (\<lambda>k. snd (snd (nxsched_set_priority c t (uint p) k))) y"

definition nxsem_boostholderprio :: "nat \<Rightarrow> tid \<Rightarrow> holderhandler" where
  "nxsem_boostholderprio c rtcb p y =
     (case htcb (holders y p) of
        None \<Rightarrow> Some (0, y)
      | Some h \<Rightarrow>
          if prio (sk y) rtcb > prio (sk y) h then Some (0, set_priority c h (prio (sk y) rtcb) y)
          else Some (0, y))"

text \<open>The highest priority among the first waiters of the semaphores a task holds, at least \<open>hp\<close>.\<close>

fun waiter_prio :: "semsys \<Rightarrow> hid list \<Rightarrow> u8 \<Rightarrow> u8 option" where
  "waiter_prio y [] hp = Some hp"
| "waiter_prio y (p # ps) hp = do {
     s \<leftarrow> hsem (holders y p);
     waiter_prio y ps
       (case SEM_WAITLIST s y of
          [] \<Rightarrow> hp
        | t # _ \<Rightarrow> if prio (sk y) t > hp then prio (sk y) t else hp)
   }"

definition nxsem_restore_priority :: "nat \<Rightarrow> tid \<Rightarrow> semsys \<Rightarrow> semsys option" where
  "nxsem_restore_priority c h y =
     (let x = tcbs (sk y) h;
          hp = (if boost_priority x > base_priority x then boost_priority x else base_priority x)
      in if sched_priority x \<noteq> hp then do {
           p \<leftarrow> waiter_prio y (holdsem y h) hp;
           Some (set_priority c h p y)
         } else Some y)"

definition nxsem_restoreholderprio :: "nat \<Rightarrow> oid \<Rightarrow> holderhandler" where
  "nxsem_restoreholderprio c s p y = do {
     h \<leftarrow> htcb (holders y p);
     y1 \<leftarrow> (if counts (holders y p) \<le> 0 \<or> NXSEM_IS_MUTEX (sems y s) then nxsem_freeholder s p y else Some y);
     y2 \<leftarrow> nxsem_restore_priority c h y1;
     Some (0, y2)
   }"

definition nxsem_restoreholderprio_others :: "nat \<Rightarrow> oid \<Rightarrow> holderhandler" where
  "nxsem_restoreholderprio_others c s p y =
     (if htcb (holders y p) \<noteq> Some (this_task c (sk y)) then nxsem_restoreholderprio c s p y else Some (0, y))"

definition nxsem_restoreholderprio_self :: "nat \<Rightarrow> oid \<Rightarrow> holderhandler" where
  "nxsem_restoreholderprio_self c s p y =
     (if htcb (holders y p) = Some (this_task c (sk y))
      then map_option (\<lambda>(_, y1). (1, y1)) (nxsem_restoreholderprio c s p y)
      else Some (0, y))"

definition nxsem_destroyholder :: "oid \<Rightarrow> semsys \<Rightarrow> semsys option" where
  "nxsem_destroyholder s y = nxsem_foreachholder s (nxsem_recoverholders s) y"

definition nxsem_add_holder_tcb :: "tid \<Rightarrow> oid \<Rightarrow> semsys \<Rightarrow> semsys option" where
  "nxsem_add_holder_tcb h s y =
     (if \<not> is_idle_task (sk y) h \<and> sem_proto (sems y s) = SEM_PRIO_INHERIT then do {
        (p, y1) \<leftarrow> nxsem_findorallocateholder s h y;
        Some (if counts (holders y1 p) < SEM_VALUE_MAX then upd_holder p (\<lambda>x. x\<lparr>counts := counts x + 1\<rparr>) y1 else y1)
      } else Some y)"

definition nxsem_add_holder :: "nat \<Rightarrow> oid \<Rightarrow> semsys \<Rightarrow> semsys option" where
  "nxsem_add_holder c s y = nxsem_add_holder_tcb (this_task c (sk y)) s y"

definition nxsem_boost_priority :: "nat \<Rightarrow> oid \<Rightarrow> semsys \<Rightarrow> semsys option" where
  "nxsem_boost_priority c s y = nxsem_foreachholder s (nxsem_boostholderprio c (this_task c (sk y))) y"

definition nxsem_release_holder :: "nat \<Rightarrow> oid \<Rightarrow> semsys \<Rightarrow> semsys" where
  "nxsem_release_holder c s y =
     (let rtcb = this_task c (sk y)
      in if \<not> is_idle_task (sk y) rtcb \<and> sem_proto (sems y s) = SEM_PRIO_INHERIT then
           (case find (\<lambda>p. htcb (holders y p) = Some rtcb) (hhead (sems y s)) of
              None \<Rightarrow> y
            | Some p \<Rightarrow> upd_holder p (\<lambda>x. x\<lparr>counts := counts x - 1\<rparr>) y)
         else y)"

definition nxsem_restore_baseprio :: "nat \<Rightarrow> tid option \<Rightarrow> oid \<Rightarrow> semsys \<Rightarrow> semsys option" where
  "nxsem_restore_baseprio c stcb s y =
     (case stcb of
        Some _ \<Rightarrow> do {
          y1 \<leftarrow> nxsem_foreachholder s (nxsem_restoreholderprio_others c s) y;
          nxsem_foreachholder s (nxsem_restoreholderprio_self c s) y1
        }
      | None \<Rightarrow> nxsem_foreachholder s (nxsem_freecount0holder s) y)"

definition nxsem_canceled :: "nat \<Rightarrow> oid \<Rightarrow> semsys \<Rightarrow> semsys option" where
  "nxsem_canceled c s y = nxsem_foreachholder s (nxsem_restoreholderprio c s) y"

text \<open>A loop on the first container of the task, until there is none.\<close>

partial_function (option) nxsem_release_all :: "tid \<Rightarrow> semsys \<Rightarrow> semsys option" where
  "nxsem_release_all h y =
     (case holdsem y h of
        [] \<Rightarrow> Some y
      | p # _ \<Rightarrow> do {
          s \<leftarrow> hsem (holders y p);
          y1 \<leftarrow> nxsem_freeholder s p y;
          nxsem_release_all h
            (if NXSEM_IS_MUTEX (sems y1 s) then y1 else set_sval s (sval (sems y1 s) + 1) y1)
        })"

section \<open>Priority protection\<close>

definition nxsem_protect_wait :: "nat \<Rightarrow> oid \<Rightarrow> semsys \<Rightarrow> int \<times> semsys" where
  "nxsem_protect_wait c s y =
     (if sem_proto (sems y s) = SEM_PRIO_PROTECT then
        let rtcb = this_task c (sk y)
        in if prio (sk y) rtcb > sceiling (sems y s) then (- EINVAL, y)
           else (OK, upd_sk (upd_tcb rtcb (\<lambda>x. x\<lparr>sched_priority := sceiling (sems y s)\<rparr>))
                       (upd_sem s (\<lambda>x. x\<lparr>ssaved := prio (sk y) rtcb\<rparr>) y))
      else (OK, y))"

definition nxsem_protect_post :: "nat \<Rightarrow> oid \<Rightarrow> semsys \<Rightarrow> semsys" where
  "nxsem_protect_post c s y =
     (if ssaved (sems y s) > 0
      then upd_sem s (\<lambda>x. x\<lparr>ssaved := 0\<rparr>) (set_priority c (this_task c (sk y)) (ssaved (sems y s)) y)
      else y)"

section \<open>Waiting\<close>

datatype wait_end = WReturned int | WBlocked

text \<open>Give back what a wait took before the priority protection refused it.\<close>

definition sem_undo :: "oid \<Rightarrow> semsys \<Rightarrow> semsys" where
  "sem_undo s y =
     set_sval s (if NXSEM_IS_MUTEX (sems y s) then NXSEM_NO_MHOLDER else sval (sems y s) + 1) y"

text \<open>The part of \<open>nxsem_wait_slow\<close> that blocks the task, up to the context switch.\<close>

definition nxsem_block :: "nat \<Rightarrow> oid \<Rightarrow> tid option \<Rightarrow> semsys \<Rightarrow> semsys option" where
  "nxsem_block c s holder y = do {
     let rtcb = this_task c (sk y);
     let inherit = sem_proto (sems y s) = SEM_PRIO_INHERIT;
     let y1 = upd_sk (upd_tcb rtcb (\<lambda>x. x\<lparr>waitobj := Some (WSem s)\<rparr>)) y;
     y2 \<leftarrow> (case holder of Some h \<Rightarrow> nxsem_add_holder_tcb h s y1 | None \<Rightarrow> Some y1);
     y3 \<leftarrow> (if inherit then nxsem_boost_priority c s (upd_sk (sched_lock c) y2) else Some y2);
     let y4 = upd_sk (upd_tcb rtcb (\<lambda>x. x\<lparr>errcode := OK\<rparr>)) y3;
     let y5 = upd_sk (nxsched_remove_self rtcb) y4;
     let y6 = upd_sk (upd_tcb rtcb (\<lambda>x. x\<lparr>task_state := TSTATE_WAIT_SEM\<rparr>)) y5;
     Some (upd_sk (tl_add_prioritized rtcb (L_sem s)) y6)
   }"

definition nxsem_wait_slow :: "nat \<Rightarrow> oid \<Rightarrow> semsys \<Rightarrow> (wait_end \<times> semsys) option" where
  "nxsem_wait_slow c s y =
     (let rtcb = this_task c (sk y);
          mutex = NXSEM_IS_MUTEX (sems y s);
          old = sval (sems y s);
          y1 = set_sval s (if mutex then old OR NXSEM_MBLOCKING_BIT else old - 1) y;
          holder = (if mutex \<and> NXSEM_MACQUIRED old
                    then nxsched_get_tcb (uint (old AND NOT NXSEM_MBLOCKING_BIT)) (sk y) else None);
          unlocked = (if mutex then holder = None else sint old > 0)
      in if unlocked then
           let (ret, y2) = nxsem_protect_wait c s y1
           in if ret < 0 then Some (WReturned ret, sem_undo s y2)
              else if mutex then Some (WReturned OK, set_sval s (mholder_of s rtcb y2) y2)
              else do { y3 \<leftarrow> nxsem_add_holder c s y2; Some (WReturned OK, y3) }
         else do { y2 \<leftarrow> nxsem_block c s holder y1; Some (WBlocked, y2) })"

text \<open>
  The rest of \<open>nxsem_wait_slow\<close>, executed by the task \<open>t\<close> when it runs again; \<open>prioinherit\<close> is the
  protocol that was read before the wait.
\<close>

definition nxsem_wait_resume :: "nat \<Rightarrow> oid \<Rightarrow> u8 \<Rightarrow> semsys \<Rightarrow> int \<times> semsys" where
  "nxsem_wait_resume c s prioinherit y =
     (let rtcb = this_task c (sk y);
          ret = (if errcode (tcbs (sk y) rtcb) \<noteq> OK then - errcode (tcbs (sk y) rtcb) else OK);
          y1 = (if prioinherit \<noteq> 0 then upd_sk (\<lambda>k. snd (sched_unlock c k)) y else y)
      in (ret, if NXSEM_IS_MUTEX (sems y1 s) \<and> ret = OK then set_sval s (mholder_of s rtcb y1) y1 else y1))"

text \<open>The fast path needs no kernel service; \<open>None\<close> means that the slow path has to be taken.\<close>

definition sem_fastpath :: "sem_s \<Rightarrow> bool" where
  "sem_fastpath x \<longleftrightarrow> sem_proto x \<noteq> SEM_PRIO_PROTECT \<and> (NXSEM_IS_MUTEX x \<or> sem_proto x = SEM_PRIO_NONE)"

definition nxsem_wait :: "nat \<Rightarrow> oid \<Rightarrow> semsys \<Rightarrow> (wait_end \<times> semsys) option" where
  "nxsem_wait c s y =
     (let x = sems y s
      in if sem_fastpath x \<and> NXSEM_IS_MUTEX x \<and> sval x = NXSEM_NO_MHOLDER
         then Some (WReturned OK, set_sval s (word_of_int (pid (tcbs (sk y) (this_task c (sk y))))) y)
         else if sem_fastpath x \<and> \<not> NXSEM_IS_MUTEX x \<and> \<not> semcount x < 1
         then Some (WReturned OK, set_sval s (sval x - 1) y)
         else nxsem_wait_slow c s y)"

definition nxsem_trywait_slow :: "nat \<Rightarrow> oid \<Rightarrow> semsys \<Rightarrow> (int \<times> semsys) option" where
  "nxsem_trywait_slow c s y =
     (let x = sems y s; mutex = NXSEM_IS_MUTEX x
      in if (if mutex then NXSEM_MACQUIRED (sval x) else semcount x \<le> 0) then Some (- EAGAIN, y)
         else
           let y1 = set_sval s (if mutex then word_of_int (pid (tcbs (sk y) (this_task c (sk y)))) else sval x - 1) y;
               (ret, y2) = nxsem_protect_wait c s y1
           in if ret < 0 then Some (ret, sem_undo s y2)
              else if mutex then Some (ret, y2)
              else do { y3 \<leftarrow> nxsem_add_holder c s y2; Some (ret, y3) })"

definition nxsem_trywait :: "nat \<Rightarrow> oid \<Rightarrow> semsys \<Rightarrow> (int \<times> semsys) option" where
  "nxsem_trywait c s y =
     (let x = sems y s
      in if sem_fastpath x then
           if NXSEM_IS_MUTEX x then
             if sval x \<noteq> NXSEM_NO_MHOLDER then Some (- EAGAIN, y)
             else Some (OK, set_sval s (word_of_int (pid (tcbs (sk y) (this_task c (sk y))))) y)
           else if semcount x < 1 then Some (- EAGAIN, y)
           else Some (OK, set_sval s (sval x - 1) y)
         else nxsem_trywait_slow c s y)"

section \<open>Posting\<close>

text \<open>Hand the semaphore to the first waiter: the task, the switch flag and the new state.\<close>

definition nxsem_wake_first :: "nat \<Rightarrow> oid \<Rightarrow> semsys \<Rightarrow> (tid option \<times> bool \<times> semsys) option" where
  "nxsem_wake_first c s y =
     (case SEM_WAITLIST s y of
        [] \<Rightarrow> Some (None, False, y)
      | t # ts \<Rightarrow> do {
          let y1 = upd_sk (upd_list (L_sem s) (\<lambda>_. ts)) y;
          y2 \<leftarrow> (if NXSEM_IS_MUTEX (sems y1 s) then Some (set_sval s (mholder_of s t y1) y1)
                 else nxsem_add_holder_tcb t s y1);
          let y3 = upd_sk (upd_tcb t (\<lambda>x. x\<lparr>waitobj := None\<rparr>)) y2;
          let (sw, k) = nxsched_add_readytorun c t (sk y3);
          Some (Some t, sw, y3\<lparr>sk := k\<rparr>)
        })"

text \<open>Everything after the count or the mutex holder has been updated.\<close>

definition nxsem_post_release :: "nat \<Rightarrow> oid \<Rightarrow> bool \<Rightarrow> semsys \<Rightarrow> (bool \<times> semsys) option" where
  "nxsem_post_release c s blocking y = do {
     let y1 = (if \<not> NXSEM_IS_MUTEX (sems y s) \<or> blocking then nxsem_release_holder c s y else y);
     let proto = sem_proto (sems y1 s);
     let y2 = (if proto \<noteq> SEM_PRIO_NONE then upd_sk (sched_lock c) y1 else y1);
     (stcb, sw, y3) \<leftarrow> (if blocking then nxsem_wake_first c s y2 else Some (None, False, y2));
     if proto \<noteq> SEM_PRIO_NONE then do {
       y4 \<leftarrow> (if proto = SEM_PRIO_INHERIT then nxsem_restore_baseprio c stcb s y3
              else if proto = SEM_PRIO_PROTECT then Some (nxsem_protect_post c s y3)
              else Some y3);
       let (sw', k) = sched_unlock c (sk y4);
       Some (sw \<or> sw', y4\<lparr>sk := k\<rparr>)
     } else Some (sw, y3)
   }"

definition nxsem_post_slow :: "nat \<Rightarrow> oid \<Rightarrow> semsys \<Rightarrow> (int \<times> bool \<times> semsys) option" where
  "nxsem_post_slow c s y =
     (let old = sval (sems y s)
      in if NXSEM_IS_MUTEX (sems y s) then do {
           let blocking = NXSEM_MBLOCKING old;
           let y1 = set_sval s (if blocking then old OR NXSEM_MBLOCKING_BIT
                                else if old \<noteq> NXSEM_MRESET then NXSEM_NO_MHOLDER else old) y;
           (sw, y2) \<leftarrow> nxsem_post_release c s blocking y1;
           Some (OK, sw, y2)
         }
         else if sint old \<ge> SEM_VALUE_MAX then Some (- EOVERFLOW, False, y)
         else do {
           (sw, y2) \<leftarrow> nxsem_post_release c s (sint old < 0) (set_sval s (old + 1) y);
           Some (OK, sw, y2)
         })"

definition nxsem_post :: "nat \<Rightarrow> oid \<Rightarrow> semsys \<Rightarrow> (int \<times> bool \<times> semsys) option" where
  "nxsem_post c s y =
     (let x = sems y s
      in if sem_fastpath x \<and> NXSEM_IS_MUTEX x \<and> \<not> NXSEM_MBLOCKING (sval x)
         then Some (OK, False, set_sval s NXSEM_NO_MHOLDER y)
         else if sem_fastpath x \<and> \<not> NXSEM_IS_MUTEX x \<and> \<not> semcount x < 0
         then Some (OK, False, set_sval s (sval x + 1) y)
         else nxsem_post_slow c s y)"

section \<open>Interrupted waits\<close>

abbreviation ECANCELED :: int where "ECANCELED \<equiv> 125"

text \<open>The task stops waiting for the semaphore in its \<open>waitobj\<close>, with an error code.\<close>

definition nxsem_wait_irq :: "nat \<Rightarrow> tid \<Rightarrow> int \<Rightarrow> semsys \<Rightarrow> (bool \<times> semsys) option" where
  "nxsem_wait_irq c wtcb e y =
     (case waitobj (tcbs (sk y) wtcb) of
        Some (WSem s) \<Rightarrow>
          let mutex = NXSEM_IS_MUTEX (sems y s)
          in if \<not> (mutex \<and> (e = EINTR \<or> e = ECANCELED)) then do {
               y1 \<leftarrow> nxsem_canceled c s y;
               let y2 = upd_sk (tl_rem wtcb (L_sem s)) y1;
               let y3 = (if \<not> mutex then set_sval s (sval (sems y2 s) + 1) y2 else y2);
               let y4 = upd_sk (upd_tcb wtcb (\<lambda>x. x\<lparr>waitobj := None, errcode := e\<rparr>)) y3;
               let (sw, k) = nxsched_add_readytorun c wtcb (sk y4);
               Some (sw, y4\<lparr>sk := k\<rparr>)
             } else Some (False, y)
      | _ \<Rightarrow> None)"

definition nxsem_timeout :: "nat \<Rightarrow> tid \<Rightarrow> semsys \<Rightarrow> (bool \<times> semsys) option" where
  "nxsem_timeout c wtcb y =
     (if tstate_of (sk y) wtcb = TSTATE_WAIT_SEM then nxsem_wait_irq c wtcb ETIMEDOUT y else Some (False, y))"

definition nxsem_recover :: "nat \<Rightarrow> tid \<Rightarrow> semsys \<Rightarrow> semsys option" where
  "nxsem_recover c t y = do {
     y1 \<leftarrow>
       (if tstate_of (sk y) t = TSTATE_WAIT_SEM then
          (case waitobj (tcbs (sk y) t) of
             Some (WSem s) \<Rightarrow> do {
               y1 \<leftarrow> nxsem_canceled c s y;
               let y2 = upd_sk (tl_rem t (L_sem s)) y1;
               Some (if NXSEM_IS_MUTEX (sems y2 s) then
                       if SEM_WAITLIST s y2 = []
                       then set_sval s (sval (sems y2 s) AND NOT NXSEM_MBLOCKING_BIT) y2 else y2
                     else set_sval s (sval (sems y2 s) + 1) y2)
             }
           | _ \<Rightarrow> None)
        else Some y);
     nxsem_release_all t y1
   }"

section \<open>Initialisation, reset and destruction\<close>

text \<open>The wait list is emptied by \<open>dq_init\<close>.\<close>

definition nxsem_init :: "oid \<Rightarrow> int \<Rightarrow> semsys \<Rightarrow> int \<times> semsys" where
  "nxsem_init s v y =
     (OK, upd_sk (upd_list (L_sem s) (\<lambda>_. []))
            (upd_sem s (\<lambda>x. x\<lparr>sval := word_of_int v, sflags := 0, hhead := []\<rparr>) y))"

definition nxsem_set_protocol :: "oid \<Rightarrow> u8 \<Rightarrow> semsys \<Rightarrow> (int \<times> semsys) option" where
  "nxsem_set_protocol s protocol y =
     (let m = protocol AND SEM_PRIO_MASK; y' = upd_sem s (\<lambda>x. x\<lparr>sflags := protocol\<rparr>)
      in if m = SEM_PRIO_NONE then do { y1 \<leftarrow> nxsem_destroyholder s y; Some (OK, y' y1) }
         else if m = SEM_PRIO_INHERIT \<or> m = SEM_PRIO_PROTECT then Some (OK, y' y)
         else Some (- EINVAL, y))"

definition nxsem_destroy :: "oid \<Rightarrow> semsys \<Rightarrow> (int \<times> semsys) option" where
  "nxsem_destroy s y =
     (let x = sems y s; mutex = NXSEM_IS_MUTEX x;
          y1 = (if (if mutex then NXSEM_MBLOCKING (sval x) else semcount x < 0) then y
                else set_sval s (if mutex then NXSEM_NO_MHOLDER else 1) y)
      in do { y2 \<leftarrow> nxsem_destroyholder s y1; Some (OK, y2) })"

definition reset_mutex :: "nat \<Rightarrow> oid \<Rightarrow> semsys \<Rightarrow> semsys option" where
  "reset_mutex c s y =
     (let y1 = set_sval s (NXSEM_MRESET OR NXSEM_MBLOCKING_BIT) y
      in if SEM_WAITLIST s y1 \<noteq> [] then map_option (snd \<circ> snd) (nxsem_post c s y1)
         else Some (set_sval s NXSEM_MRESET y1))"

text \<open>Hand out counts to the waiting tasks, at most \<open>n\<close> of them.\<close>

primrec reset_sem_loop :: "nat \<Rightarrow> oid \<Rightarrow> nat \<Rightarrow> semsys \<Rightarrow> (nat \<times> semsys) option" where
  "reset_sem_loop c s 0 y = Some (0, y)"
| "reset_sem_loop c s (Suc n) y =
     (if semcount (sems y s) < 0 then do {
        (ret, sw, y1) \<leftarrow> nxsem_post c s y;
        reset_sem_loop c s n y1
      } else Some (Suc n, y))"

definition reset_sem :: "nat \<Rightarrow> oid \<Rightarrow> nat \<Rightarrow> semsys \<Rightarrow> semsys option" where
  "reset_sem c s n y = do {
     (left, y1) \<leftarrow> reset_sem_loop c s n y;
     Some (if semcount (sems y1 s) < 0 then y1 else set_sval s (of_nat left) y1)
   }"

definition nxsem_reset :: "nat \<Rightarrow> oid \<Rightarrow> nat \<Rightarrow> semsys \<Rightarrow> (int \<times> bool \<times> semsys) option" where
  "nxsem_reset c s n y = do {
     let y1 = upd_sk (sched_lock c) y;
     y2 \<leftarrow> (if NXSEM_IS_MUTEX (sems y1 s) then reset_mutex c s y1 else reset_sem c s n y1);
     let (sw, k) = sched_unlock c (sk y2);
     Some (OK, sw, y2\<lparr>sk := k\<rparr>)
   }"

end
