(* ===== verification/Frap_Queue.thy ===== *)
theory Frap_Queue
  imports Kernel
begin

text \<open>
  The waiting FIFO of a FRAP resource: \<open>sched/frap/frap_queue.c\<close> over the macros of
  \<open>include/nuttx/list.h\<close>, on the heap of waiter nodes.

  The locale \<open>waiter_lists\<close> is the contract between the two: a heap represents a partial map from
  list heads to their contents, no node is in two lists, and each list operation acts on the map.
  It is interpreted on the list macros; the lemmas about \<open>frap_queue_*\<close> rest on the
  interpretation. \<open>fifo_rep\<close> adds what \<open>frap_enqueued\<close> means: the flag is set exactly for the
  tasks in some FIFO.
\<close>

section \<open>Operations\<close>

definition set_nodes :: "fnode lheap \<Rightarrow> kernel \<Rightarrow> kernel" where
  "set_nodes h k = k\<lparr>nodes := h\<rparr>"

definition set_enqueued :: "tid \<Rightarrow> bool \<Rightarrow> kernel \<Rightarrow> kernel" where
  "set_enqueued t b k = upd_tcb t (\<lambda>x. x\<lparr>frap_enqueued := b\<rparr>) k"

definition frap_queue_init :: "rid \<Rightarrow> kernel \<Rightarrow> kernel" where
  "frap_queue_init r k =
     (let k1 = upd_res r (\<lambda>x. x\<lparr>sl := SP_UNLOCKED\<rparr>) k
      in set_nodes (list_initialize (nodes k1) (Fifo r)) k1)"

definition frap_queue_enqueue_tail :: "rid \<Rightarrow> tid \<Rightarrow> kernel \<Rightarrow> kernel option" where
  "frap_queue_enqueue_tail r t k =
     (if \<not> frap_enqueued (tcbs k t) then do {
        h \<leftarrow> list_add_tail (nodes k) (Fifo r) (Waiter t);
        Some (set_enqueued t True (set_nodes h k))
      } else Some k)"

definition frap_queue_enqueue_head_if_needed :: "rid \<Rightarrow> tid \<Rightarrow> kernel \<Rightarrow> kernel option" where
  "frap_queue_enqueue_head_if_needed r t k =
     (if \<not> frap_enqueued (tcbs k t) then do {
        h \<leftarrow> list_add_head (nodes k) (Fifo r) (Waiter t);
        Some (set_enqueued t True (set_nodes h k))
      } else Some k)"

text \<open>The resource argument of \<open>frap_queue_remove\<close> is only asserted to be there.\<close>

definition frap_queue_remove :: "rid \<Rightarrow> tid \<Rightarrow> kernel \<Rightarrow> kernel option" where
  "frap_queue_remove r t k =
     (if frap_enqueued (tcbs k t) then do {
        h \<leftarrow> list_delete (nodes k) (Waiter t);
        Some (set_enqueued t False (set_nodes h k))
      } else Some k)"

text \<open>\<open>list_container_of(node, struct tcb_s, frap_waiter_node)\<close>.\<close>

definition tcb_of_node :: "fnode \<Rightarrow> tid option" where
  "tcb_of_node n = (case n of Waiter t \<Rightarrow> Some t | Fifo r \<Rightarrow> None)"

definition frap_queue_peek_head :: "rid \<Rightarrow> kernel \<Rightarrow> tid option" where
  "frap_queue_peek_head r k =
     (case list_peek_head (nodes k) (Fifo r) of None \<Rightarrow> None | Some n \<Rightarrow> tcb_of_node n)"

section \<open>Families of lists\<close>

definition members :: "('l \<rightharpoonup> 'n list) \<Rightarrow> 'n set" where
  "members Q = {n. \<exists>l xs. Q l = Some xs \<and> n \<in> set xs}"

lemma members_upd:
  "Q l = Some xs \<Longrightarrow> distinct xs \<Longrightarrow> (\<And>m ys n. Q m = Some ys \<Longrightarrow> n \<in> set xs \<Longrightarrow> n \<in> set ys \<Longrightarrow> m = l) \<Longrightarrow>
     members (Q(l \<mapsto> zs)) = members Q - set xs \<union> set zs"
  unfolding members_def by (intro set_eqI) (simp, metis option.inject)

lemma members_add: "Q l = Some xs \<Longrightarrow> set zs = insert n (set xs) \<Longrightarrow> members (Q(l \<mapsto> zs)) = insert n (members Q)"
  unfolding members_def by (intro set_eqI) (simp, metis insertE insertI1 insertI2 option.inject)

lemma membersI: "Q l = Some xs \<Longrightarrow> n \<in> set xs \<Longrightarrow> n \<in> members Q"
  by (auto simp: members_def)

locale waiter_lists =
  fixes rep :: "'h \<Rightarrow> ('l \<rightharpoonup> 'n list) \<Rightarrow> bool"
    and init :: "'h \<Rightarrow> 'l \<Rightarrow> 'h"
    and add_head :: "'h \<Rightarrow> 'l \<Rightarrow> 'n \<Rightarrow> 'h option"
    and add_tail :: "'h \<Rightarrow> 'l \<Rightarrow> 'n \<Rightarrow> 'h option"
    and del :: "'h \<Rightarrow> 'n \<Rightarrow> 'h option"
    and peek :: "'h \<Rightarrow> 'l \<Rightarrow> 'n option"
  assumes rep_init: "rep h Q \<Longrightarrow> Q l = None \<Longrightarrow> rep (init h l) (Q(l \<mapsto> []))"
    and rep_add_head: "rep h Q \<Longrightarrow> Q l = Some xs \<Longrightarrow> n \<notin> members Q \<Longrightarrow>
      \<exists>h'. add_head h l n = Some h' \<and> rep h' (Q(l \<mapsto> n # xs))"
    and rep_add_tail: "rep h Q \<Longrightarrow> Q l = Some xs \<Longrightarrow> n \<notin> members Q \<Longrightarrow>
      \<exists>h'. add_tail h l n = Some h' \<and> rep h' (Q(l \<mapsto> xs @ [n]))"
    and rep_del: "rep h Q \<Longrightarrow> Q l = Some xs \<Longrightarrow> n \<in> set xs \<Longrightarrow>
      \<exists>h'. del h n = Some h' \<and> rep h' (Q(l \<mapsto> remove1 n xs))"
    and rep_peek: "rep h Q \<Longrightarrow> Q l = Some xs \<Longrightarrow> peek h l = hdo xs None"
    and rep_distinct: "rep h Q \<Longrightarrow> Q l = Some xs \<Longrightarrow> distinct xs"
    and rep_one: "rep h Q \<Longrightarrow> Q l = Some xs \<Longrightarrow> Q m = Some ys \<Longrightarrow> n \<in> set xs \<Longrightarrow> n \<in> set ys \<Longrightarrow> m = l"
    and rep_fun: "rep h Q \<Longrightarrow> rep h P \<Longrightarrow> Q l = Some xs \<Longrightarrow> P l = Some ys \<Longrightarrow> xs = ys"
begin

lemma members_del:
  assumes "rep h Q" "Q l = Some xs" "n \<in> set xs"
  shows "members (Q(l \<mapsto> remove1 n xs)) = members Q - {n}"
proof -
  have d: "distinct xs" using assms rep_distinct by blast
  have "members (Q(l \<mapsto> remove1 n xs)) = members Q - set xs \<union> set (remove1 n xs)"
    using assms d rep_one by (intro members_upd) blast+
  also have "\<dots> = members Q - {n}" using assms d by (auto intro: membersI)
  finally show ?thesis .
qed

text \<open>A node deleted from wherever it is, and put back at the end of another list.\<close>

lemma move_to_tail:
  assumes r: "rep h Q" and m: "Q m = Some ys" "n \<in> set ys" and l: "Q l = Some xs" "l \<noteq> m"
  obtains h1 h2 where "del h n = Some h1" "add_tail h1 l n = Some h2"
    "rep h2 (Q(m \<mapsto> remove1 n ys, l \<mapsto> xs @ [n]))"
proof -
  obtain h1 where 1: "del h n = Some h1" "rep h1 (Q(m \<mapsto> remove1 n ys))" using rep_del [OF r m] by blast
  have "n \<notin> members (Q(m \<mapsto> remove1 n ys))" using members_del [OF r m] by simp
  then obtain h2 where "add_tail h1 l n = Some h2" "rep h2 (Q(m \<mapsto> remove1 n ys, l \<mapsto> xs @ [n]))"
    using rep_add_tail [OF 1(2), of l xs n] l by auto
  with 1 that show thesis by blast
qed

text \<open>First in, first out: a node added at the end is served after those in front of it.\<close>

primrec serve :: "nat \<Rightarrow> 'h \<Rightarrow> 'l \<Rightarrow> 'h option" where
  "serve 0 h l = Some h"
| "serve (Suc i) h l = (case peek h l of None \<Rightarrow> Some h | Some n \<Rightarrow> (case del h n of None \<Rightarrow> None | Some h' \<Rightarrow> serve i h' l))"

lemma serve_drop:
  "rep h Q \<Longrightarrow> Q l = Some xs \<Longrightarrow> i \<le> length xs \<Longrightarrow> \<exists>h'. serve i h l = Some h' \<and> rep h' (Q(l \<mapsto> drop i xs))"
proof (induction i arbitrary: h Q xs)
  case 0
  then show ?case by (auto simp: fun_upd_idem)
next
  case (Suc i)
  then obtain x ys where xs: "xs = x # ys" by (cases xs) auto
  obtain h' where 1: "del h x = Some h'" "rep h' (Q(l \<mapsto> ys))"
    using rep_del [OF Suc.prems(1,2), of x] xs by auto
  have "\<exists>h''. serve i h' l = Some h'' \<and> rep h'' (Q(l \<mapsto> drop i ys))"
    using Suc.IH [OF 1(2), of ys] Suc.prems xs unfolding fun_upd_upd by (simp add: fun_upd_def)
  then show ?case using Suc.prems xs 1(1) rep_peek [OF Suc.prems(1,2)] by (simp add: fun_upd_def)
qed

lemma fifo_turn:
  assumes r: "rep h Q" and l: "Q l = Some xs" and n: "n \<notin> members Q"
  obtains h1 h2 where "add_tail h l n = Some h1" "serve (length xs) h1 l = Some h2" "peek h2 l = Some n"
proof -
  obtain h1 where 1: "add_tail h l n = Some h1" "rep h1 (Q(l \<mapsto> xs @ [n]))"
    using rep_add_tail [OF r l n] by blast
  obtain h2 where 2: "serve (length xs) h1 l = Some h2" "rep h2 (Q(l \<mapsto> [n]))"
    using serve_drop [OF 1(2), of l "xs @ [n]" "length xs"] by auto
  have "peek h2 l = Some n" using rep_peek [OF 2(2), of l "[n]"] by simp
  with 1 2 that show thesis by blast
qed

end

section \<open>The list macros are a family of lists\<close>

definition wl_rep :: "fnode lheap \<Rightarrow> (rid \<rightharpoonup> tid list) \<Rightarrow> bool" where
  "wl_rep h Q \<longleftrightarrow>
     (\<forall>r xs. Q r = Some xs \<longrightarrow> dll h (Fifo r) (map Waiter xs)) \<and>
     (\<forall>r s xs ys t. Q r = Some xs \<longrightarrow> Q s = Some ys \<longrightarrow> t \<in> set xs \<longrightarrow> t \<in> set ys \<longrightarrow> s = r)"

lemma wl_repD:
  assumes "wl_rep h Q" "Q r = Some xs"
  shows "dll h (Fifo r) (map Waiter xs)"
  using assms unfolding wl_rep_def by simp

lemma wl_rep_distinct:
  assumes "wl_rep h Q" "Q r = Some xs"
  shows "distinct xs"
  using wl_repD [OF assms] by (simp add: dll_def distinct_map)

lemma wl_rep_one:
  assumes "wl_rep h Q" "Q r = Some xs" "Q s = Some ys" "t \<in> set xs" "t \<in> set ys"
  shows "s = r"
  using assms(1) [unfolded wl_rep_def] assms(2-) by simp

text \<open>
  An operation that changes only nodes of one list, and possibly one node that is in no list,
  acts on that list alone.
\<close>

lemma wl_rep_upd:
  assumes w: "wl_rep h Q" and d: "dll h' (Fifo r) (map Waiter zs)"
    and z: "set zs \<subseteq> set xs \<union> (UNIV - members Q)"
    and q: "Q r = Some xs \<or> Q r = None \<and> xs = []"
    and f: "\<And>n. n \<noteq> Fifo r \<Longrightarrow> n \<notin> Waiter ` set (xs @ zs) \<Longrightarrow> h' n = h n"
  shows "wl_rep h' (Q(r \<mapsto> zs))"
proof -
  have sep: "t \<notin> set (xs @ zs)" if s: "Q s = Some ys" "s \<noteq> r" "t \<in> set ys" for s ys t
  proof -
    have "t \<in> members Q" using s by (auto intro: membersI [where l = s])
    moreover have "t \<notin> set xs" using q wl_rep_one [OF w _ s(1) _ s(3), of r xs] s(2) by auto
    ultimately show ?thesis using z by auto
  qed
  have "dll h' (Fifo s) (map Waiter ys)" if "(Q(r \<mapsto> zs)) s = Some ys" for s ys
  proof (cases "s = r")
    case False
    then have s: "Q s = Some ys" using that by simp
    have "dll h' (Fifo s) (map Waiter ys) = dll h (Fifo s) (map Waiter ys)"
      using sep [OF s False] False by (intro dll_frame f) auto
    then show ?thesis using wl_repD [OF w s] by simp
  qed (use that d in simp)
  moreover have "s' = s" if "(Q(r \<mapsto> zs)) s = Some ys" "(Q(r \<mapsto> zs)) s' = Some ys'" "t \<in> set ys" "t \<in> set ys'" for s s' ys ys' t
  proof (cases "s = r"; cases "s' = r")
    assume "s \<noteq> r" "s' \<noteq> r"
    then show ?thesis using that wl_rep_one [OF w, of s ys s' ys' t] by simp
  qed (use that sep in auto)
  ultimately show ?thesis unfolding wl_rep_def by blast
qed

definition fifo_init :: "fnode lheap \<Rightarrow> rid \<Rightarrow> fnode lheap" where
  "fifo_init h r = list_initialize h (Fifo r)"

definition fifo_add_head :: "fnode lheap \<Rightarrow> rid \<Rightarrow> tid \<Rightarrow> fnode lheap option" where
  "fifo_add_head h r t = list_add_head h (Fifo r) (Waiter t)"

definition fifo_add_tail :: "fnode lheap \<Rightarrow> rid \<Rightarrow> tid \<Rightarrow> fnode lheap option" where
  "fifo_add_tail h r t = list_add_tail h (Fifo r) (Waiter t)"

definition fifo_del :: "fnode lheap \<Rightarrow> tid \<Rightarrow> fnode lheap option" where
  "fifo_del h t = list_delete h (Waiter t)"

definition fifo_peek :: "fnode lheap \<Rightarrow> rid \<Rightarrow> tid option" where
  "fifo_peek h r = (case list_peek_head h (Fifo r) of None \<Rightarrow> None | Some n \<Rightarrow> tcb_of_node n)"

lemma remove1_map_inj: "inj f \<Longrightarrow> remove1 (f x) (map f xs) = map f (remove1 x xs)"
  by (induction xs) (auto dest: injD)

lemma wl_init:
  assumes "wl_rep h Q" "Q r = None"
  shows "wl_rep (fifo_init h r) (Q(r \<mapsto> []))"
  using assms list_initialize_dll [of h "Fifo r"]
  by (intro wl_rep_upd [where xs = "[]"])
    (auto simp: fifo_init_def list_initialize_def set_nxt_def set_prv_def)

lemma wl_add_head:
  assumes w: "wl_rep h Q" and q: "Q r = Some xs" and t: "t \<notin> members Q"
  shows "\<exists>h'. fifo_add_head h r t = Some h' \<and> wl_rep h' (Q(r \<mapsto> t # xs))"
proof -
  have "Waiter t \<notin> set (Fifo r # map Waiter xs)" using t membersI [of Q r xs t] q by auto
  then obtain h' where "list_add_head h (Fifo r) (Waiter t) = Some h'" "dll h' (Fifo r) (Waiter t # map Waiter xs)"
    "\<And>n. n \<notin> insert (Fifo r) (insert (Waiter t) (set (map Waiter xs))) \<Longrightarrow> h' n = h n"
    using list_add_head_dll [OF wl_repD [OF w q]] by metis
  moreover from this have "wl_rep h' (Q(r \<mapsto> t # xs))"
    using q t by (intro wl_rep_upd [OF w, where xs = xs]) auto
  ultimately show ?thesis by (simp add: fifo_add_head_def)
qed

lemma wl_add_tail:
  assumes w: "wl_rep h Q" and q: "Q r = Some xs" and t: "t \<notin> members Q"
  shows "\<exists>h'. fifo_add_tail h r t = Some h' \<and> wl_rep h' (Q(r \<mapsto> xs @ [t]))"
proof -
  have "Waiter t \<notin> set (Fifo r # map Waiter xs)" using t membersI [of Q r xs t] q by auto
  then obtain h' where "list_add_tail h (Fifo r) (Waiter t) = Some h'" "dll h' (Fifo r) (map Waiter xs @ [Waiter t])"
    "\<And>n. n \<notin> insert (Fifo r) (insert (Waiter t) (set (map Waiter xs))) \<Longrightarrow> h' n = h n"
    using list_add_tail_dll [OF wl_repD [OF w q]] by metis
  moreover from this have "wl_rep h' (Q(r \<mapsto> xs @ [t]))"
    using q t by (intro wl_rep_upd [OF w, where xs = xs]) auto
  ultimately show ?thesis by (simp add: fifo_add_tail_def)
qed

lemma wl_del:
  assumes w: "wl_rep h Q" and q: "Q r = Some xs" and t: "t \<in> set xs"
  shows "\<exists>h'. fifo_del h t = Some h' \<and> wl_rep h' (Q(r \<mapsto> remove1 t xs))"
proof -
  have "Waiter t \<in> set (map Waiter xs)" using t by auto
  then obtain h' where "list_delete h (Waiter t) = Some h'" "dll h' (Fifo r) (remove1 (Waiter t) (map Waiter xs))"
    "\<And>n. n \<notin> insert (Fifo r) (set (map Waiter xs)) \<Longrightarrow> h' n = h n"
    using list_delete_mem [OF wl_repD [OF w q]] by metis
  moreover have "remove1 (Waiter t) (map Waiter xs) = map Waiter (remove1 t xs)"
    by (rule remove1_map_inj) (simp add: inj_def)
  moreover have "wl_rep h' (Q(r \<mapsto> remove1 t xs))"
    by (rule wl_rep_upd [OF w, where xs = xs]) (use q set_remove1_subset [of t xs] calculation in auto)
  ultimately show ?thesis by (simp add: fifo_del_def)
qed

interpretation wl: waiter_lists wl_rep fifo_init fifo_add_head fifo_add_tail fifo_del fifo_peek
proof
  show "fifo_peek h r = hdo xs None" if "wl_rep h Q" "Q r = Some xs" for h Q r xs
    using list_peek_head_dll [OF wl_repD [OF that]]
    by (cases xs) (simp_all add: fifo_peek_def tcb_of_node_def)
  show "xs = ys" if "wl_rep h Q" "wl_rep h P" "Q l = Some xs" "P l = Some ys" for h Q P l xs ys
    using dll_unique [OF wl_repD [OF that(1,3)] wl_repD [OF that(2,4)]] by (simp add: inj_map_eq_map inj_def)
qed (fact wl_init wl_add_head wl_add_tail wl_del wl_rep_distinct wl_rep_one)+

section \<open>The FIFO of a resource\<close>

definition fifo_rep :: "kernel \<Rightarrow> (rid \<rightharpoonup> tid list) \<Rightarrow> bool" where
  "fifo_rep k Q \<longleftrightarrow> wl_rep (nodes k) Q \<and> (\<forall>t. frap_enqueued (tcbs k t) \<longleftrightarrow> t \<in> members Q)"

text \<open>A queue operation changes list nodes and the \<open>frap_enqueued\<close> flag of its task, nothing else.\<close>

definition fifo_eq :: "tid \<Rightarrow> kernel \<Rightarrow> kernel \<Rightarrow> bool" where
  "fifo_eq t k k' \<longleftrightarrow> (\<exists>h b. k' = set_enqueued t b (set_nodes h k))"

lemma set_nodes_sel [simp]:
  "nodes (set_nodes h k) = h" "tcbs (set_nodes h k) = tcbs k" "frap_ress (set_nodes h k) = frap_ress k"
  "tlists (set_nodes h k) = tlists k" "ncpus (set_nodes h k) = ncpus k" "g_idletcb (set_nodes h k) = g_idletcb k"
  "g_assignedtasks (set_nodes h k) = g_assignedtasks k" "g_running_tasks (set_nodes h k) = g_running_tasks k"
  "g_delivertasks (set_nodes h k) = g_delivertasks k"
  by (simp_all add: set_nodes_def)

lemma set_enqueued_sel [simp]:
  "nodes (set_enqueued t b k) = nodes k" "frap_ress (set_enqueued t b k) = frap_ress k"
  "tcbs (set_enqueued t b k) = (tcbs k)(t := (tcbs k t)\<lparr>frap_enqueued := b\<rparr>)"
  "tlists (set_enqueued t b k) = tlists k" "ncpus (set_enqueued t b k) = ncpus k" "g_idletcb (set_enqueued t b k) = g_idletcb k"
  "g_assignedtasks (set_enqueued t b k) = g_assignedtasks k" "g_running_tasks (set_enqueued t b k) = g_running_tasks k"
  "g_delivertasks (set_enqueued t b k) = g_delivertasks k"
  by (simp_all add: set_enqueued_def)

lemma fifo_eq_refl: "fifo_eq t k k"
  unfolding fifo_eq_def
  by (rule exI [of _ "nodes k"], rule exI [of _ "frap_enqueued (tcbs k t)"])
    (simp add: set_enqueued_def set_nodes_def upd_tcb_def)

lemma fifo_eq_set: "fifo_eq t k (set_enqueued t b (set_nodes h k))"
  unfolding fifo_eq_def by blast

lemma fifo_eq_sel:
  assumes "fifo_eq t k k'"
  shows "frap_ress k' = frap_ress k" "tlists k' = tlists k" "ncpus k' = ncpus k" "g_idletcb k' = g_idletcb k"
    "g_assignedtasks k' = g_assignedtasks k" "g_running_tasks k' = g_running_tasks k" "g_delivertasks k' = g_delivertasks k"
    "\<exists>b. tcbs k' = (tcbs k)(t := (tcbs k t)\<lparr>frap_enqueued := b\<rparr>)"
  using assms unfolding fifo_eq_def by auto

lemma fifo_repD:
  assumes "fifo_rep k Q"
  shows "wl_rep (nodes k) Q" "frap_enqueued (tcbs k t) \<longleftrightarrow> t \<in> members Q"
  using assms by (simp_all add: fifo_rep_def)

lemma fifo_rep_cong:
  "nodes k' = nodes k \<Longrightarrow> (\<And>t. frap_enqueued (tcbs k' t) = frap_enqueued (tcbs k t)) \<Longrightarrow> fifo_rep k' Q = fifo_rep k Q"
  by (simp add: fifo_rep_def)

lemma fifo_rep_set:
  "wl_rep h Q' \<Longrightarrow> fifo_rep k Q \<Longrightarrow> (\<And>u. u \<in> members Q' \<longleftrightarrow> (if u = t then b else u \<in> members Q)) \<Longrightarrow>
     fifo_rep (set_enqueued t b (set_nodes h k)) Q'"
  by (simp add: fifo_rep_def)

lemma frap_queue_init_rep:
  assumes "fifo_rep k Q" "Q r = None"
  shows "fifo_rep (frap_queue_init r k) (Q(r \<mapsto> []))"
proof -
  have "members (Q(r \<mapsto> [])) = members Q" using assms(2) unfolding members_def
    by (intro set_eqI) (simp, metis option.distinct(1))
  then show ?thesis using assms wl.rep_init [of "nodes k" Q r]
    by (simp add: fifo_rep_def frap_queue_init_def fifo_init_def)
qed

lemma frap_queue_enqueue_tail_rep:
  assumes f: "fifo_rep k Q" and q: "Q r = Some xs"
  obtains k' where "frap_queue_enqueue_tail r t k = Some k'" "fifo_eq t k k'"
    "fifo_rep k' (if t \<in> members Q then Q else Q(r \<mapsto> xs @ [t]))"
proof (cases "t \<in> members Q")
  case True
  then show thesis using f that [of k] by (simp add: frap_queue_enqueue_tail_def fifo_repD fifo_eq_refl)
next
  case False
  then obtain h where h: "fifo_add_tail (nodes k) r t = Some h" "wl_rep h (Q(r \<mapsto> xs @ [t]))"
    using wl.rep_add_tail [OF fifo_repD(1) [OF f] q] by blast
  have "members (Q(r \<mapsto> xs @ [t])) = insert t (members Q)" using q by (intro members_add) auto
  then have "fifo_rep (set_enqueued t True (set_nodes h k)) (Q(r \<mapsto> xs @ [t]))"
    by (intro fifo_rep_set [OF h(2) f]) auto
  with False h f show thesis
    by (intro that [OF _ fifo_eq_set]) (simp_all add: frap_queue_enqueue_tail_def fifo_add_tail_def fifo_repD)
qed

lemma frap_queue_enqueue_head_rep:
  assumes f: "fifo_rep k Q" and q: "Q r = Some xs"
  obtains k' where "frap_queue_enqueue_head_if_needed r t k = Some k'" "fifo_eq t k k'"
    "fifo_rep k' (if t \<in> members Q then Q else Q(r \<mapsto> t # xs))"
proof (cases "t \<in> members Q")
  case True
  then show thesis using f that [of k] by (simp add: frap_queue_enqueue_head_if_needed_def fifo_repD fifo_eq_refl)
next
  case False
  then obtain h where h: "fifo_add_head (nodes k) r t = Some h" "wl_rep h (Q(r \<mapsto> t # xs))"
    using wl.rep_add_head [OF fifo_repD(1) [OF f] q] by blast
  have "members (Q(r \<mapsto> t # xs)) = insert t (members Q)" using q by (intro members_add) auto
  then have "fifo_rep (set_enqueued t True (set_nodes h k)) (Q(r \<mapsto> t # xs))"
    by (intro fifo_rep_set [OF h(2) f]) auto
  with False h f show thesis
    by (intro that [OF _ fifo_eq_set]) (simp_all add: frap_queue_enqueue_head_if_needed_def fifo_add_head_def fifo_repD)
qed

text \<open>\<open>frap_queue_remove\<close> takes the task out of the FIFO it is in, whichever resource is named.\<close>

lemma frap_queue_remove_rep:
  assumes f: "fifo_rep k Q" and q: "Q r = Some xs" and t: "t \<in> set xs"
  obtains k' where "frap_queue_remove s t k = Some k'" "fifo_eq t k k'" "fifo_rep k' (Q(r \<mapsto> remove1 t xs))"
    "\<not> frap_enqueued (tcbs k' t)"
proof -
  obtain h where h: "fifo_del (nodes k) t = Some h" "wl_rep h (Q(r \<mapsto> remove1 t xs))"
    using wl.rep_del [OF fifo_repD(1) [OF f] q t] by blast
  have "members (Q(r \<mapsto> remove1 t xs)) = members Q - {t}" by (rule wl.members_del [OF fifo_repD(1) [OF f] q t])
  then have "fifo_rep (set_enqueued t False (set_nodes h k)) (Q(r \<mapsto> remove1 t xs))"
    by (intro fifo_rep_set [OF h(2) f]) auto
  with h f t membersI [of Q r xs t] q show thesis
    by (intro that [OF _ fifo_eq_set [of t k False h]]) (simp_all add: frap_queue_remove_def fifo_del_def fifo_repD)
qed

lemma frap_queue_remove_absent:
  "\<not> frap_enqueued (tcbs k t) \<Longrightarrow> frap_queue_remove r t k = Some k"
  by (simp add: frap_queue_remove_def)

lemma frap_queue_peek_head_rep:
  assumes "fifo_rep k Q" "Q r = Some xs"
  shows "frap_queue_peek_head r k = hdo xs None"
  using wl.rep_peek [OF fifo_repD(1) [OF assms(1)] assms(2)] by (simp add: frap_queue_peek_head_def fifo_peek_def)

end
