(* ===== verification/Sched_Frame.thy ===== *)
theory Sched_Frame
  imports Frap_Queue Sched_Inv
begin

text \<open>
  What the scheduler leaves alone of FRAP. \<open>quiet c S k k'\<close> says that an operation executed on
  CPU \<open>c\<close> changed no FRAP field, resource, list node or lock count, assigned no other CPU, and
  did not take the CPU from a task that holds the preemption lock, unless it is in \<open>S\<close>.

  The locale \<open>quiet_op\<close> is this contract for an operation; the FIFO lemmas of its clients are
  proved once in it, and it is interpreted on the operations of the scheduler.
\<close>

definition quiet :: "nat \<Rightarrow> tid set \<Rightarrow> kernel \<Rightarrow> kernel \<Rightarrow> bool" where
  "quiet c S k k' \<longleftrightarrow>
     (\<forall>t. tcb_s.more (tcbs k' t) = tcb_s.more (tcbs k t) \<and> lockcount (tcbs k' t) = lockcount (tcbs k t) \<and>
          pid (tcbs k' t) = pid (tcbs k t)) \<and>
     nodes k' = nodes k \<and> frap_ress k' = frap_ress k \<and> ncpus k' = ncpus k \<and> g_idletcb k' = g_idletcb k \<and>
     g_running_tasks k' = g_running_tasks k \<and>
     (\<forall>d. d \<noteq> c \<longrightarrow> g_assignedtasks k' d = g_assignedtasks k d) \<and>
     (nxsched_islocked_tcb (tcbs k (g_assignedtasks k c)) \<and> g_assignedtasks k c \<notin> S \<longrightarrow>
        g_assignedtasks k' c = g_assignedtasks k c)"

lemma frap_fields_more:
  assumes "tcb_s.more x = tcb_s.more (y :: frap_tcb_s)"
  shows "frap_waiting_res x = frap_waiting_res y" "frap_base_prio x = frap_base_prio y"
    "frap_spin_prio x = frap_spin_prio y" "frap_saved_prio x = frap_saved_prio y" "frap_in_cs x = frap_in_cs y"
    "frap_enqueued x = frap_enqueued y" "frap_cancelled x = frap_cancelled y"
    "frap_queue_preempt_cnt x = frap_queue_preempt_cnt y"
  using assms by (cases x; cases y; simp)+

lemma quiet_refl [simp, intro]: "quiet c S k k"
  by (simp add: quiet_def)

lemma quiet_trans [trans]:
  assumes "quiet c S k k'" "quiet c S k' k''"
  shows "quiet c S k k''"
  using assms unfolding quiet_def nxsched_islocked_tcb_def by simp

lemma quiet_mono: "quiet c S k k' \<Longrightarrow> S \<subseteq> T \<Longrightarrow> quiet c T k k'"
  unfolding quiet_def by blast

lemma quietD:
  assumes "quiet c S k k'"
  shows "frap_waiting_res (tcbs k' t) = frap_waiting_res (tcbs k t)" "frap_base_prio (tcbs k' t) = frap_base_prio (tcbs k t)"
    "frap_spin_prio (tcbs k' t) = frap_spin_prio (tcbs k t)" "frap_in_cs (tcbs k' t) = frap_in_cs (tcbs k t)"
    "frap_enqueued (tcbs k' t) = frap_enqueued (tcbs k t)" "frap_cancelled (tcbs k' t) = frap_cancelled (tcbs k t)"
    "frap_saved_prio (tcbs k' t) = frap_saved_prio (tcbs k t)"
    "frap_queue_preempt_cnt (tcbs k' t) = frap_queue_preempt_cnt (tcbs k t)"
    "lockcount (tcbs k' t) = lockcount (tcbs k t)" "is_idle_task k' t = is_idle_task k t"
    "nodes k' = nodes k" "frap_ress k' = frap_ress k" "ncpus k' = ncpus k" "g_running_tasks k' = g_running_tasks k"
    "g_idletcb k' = g_idletcb k"
    "d \<noteq> c \<Longrightarrow> g_assignedtasks k' d = g_assignedtasks k d"
    "nxsched_islocked_tcb (tcbs k (g_assignedtasks k d)) \<Longrightarrow> g_assignedtasks k d \<notin> S \<Longrightarrow>
       g_assignedtasks k' d = g_assignedtasks k d"
proof -
  have m: "tcb_s.more (tcbs k' t) = tcb_s.more (tcbs k t)" using assms by (simp add: quiet_def)
  show "frap_waiting_res (tcbs k' t) = frap_waiting_res (tcbs k t)" "frap_base_prio (tcbs k' t) = frap_base_prio (tcbs k t)"
    "frap_spin_prio (tcbs k' t) = frap_spin_prio (tcbs k t)" "frap_in_cs (tcbs k' t) = frap_in_cs (tcbs k t)"
    "frap_enqueued (tcbs k' t) = frap_enqueued (tcbs k t)" "frap_cancelled (tcbs k' t) = frap_cancelled (tcbs k t)"
    "frap_saved_prio (tcbs k' t) = frap_saved_prio (tcbs k t)"
    "frap_queue_preempt_cnt (tcbs k' t) = frap_queue_preempt_cnt (tcbs k t)"
    using frap_fields_more [OF m] by simp_all
  show "nxsched_islocked_tcb (tcbs k (g_assignedtasks k d)) \<Longrightarrow> g_assignedtasks k d \<notin> S \<Longrightarrow>
       g_assignedtasks k' d = g_assignedtasks k d"
    using assms by (cases "d = c") (simp_all add: quiet_def)
qed (use assms in \<open>simp_all add: quiet_def is_idle_task_def\<close>)

section \<open>The steps of the scheduler\<close>

lemma quiet_sched_eq:
  assumes "sched_eq k k'" and "\<And>d. d \<noteq> c \<Longrightarrow> g_assignedtasks k' d = g_assignedtasks k d"
    and "nxsched_islocked_tcb (tcbs k (g_assignedtasks k c)) \<Longrightarrow> g_assignedtasks k c \<notin> S \<Longrightarrow>
      g_assignedtasks k' c = g_assignedtasks k c"
  shows "quiet c S k k'"
  using assms sched_eqD [OF assms(1)] sched_eq_globals [OF assms(1)] by (simp add: quiet_def)

lemma quiet_tcb:
  "tcb_s.more (f (tcbs k t)) = tcb_s.more (tcbs k t) \<Longrightarrow> lockcount (f (tcbs k t)) = lockcount (tcbs k t) \<Longrightarrow>
     pid (f (tcbs k t)) = pid (tcbs k t) \<Longrightarrow> quiet c S k (upd_tcb t f k)"
  by (simp add: quiet_def nxsched_islocked_tcb_def)

lemma quiet_list: "quiet c S k (upd_list l f k)"
  by (simp add: quiet_def)

lemma quiet_lists:
  "quiet c S k (tl_rem t l k)" "quiet c S k (tl_addlast t l k)" "quiet c S k (tl_add_prioritized t l k)"
  by (simp_all add: tl_rem_def tl_addlast_def tl_add_prioritized_def quiet_list)

lemma quiet_deliver: "quiet c S k (k\<lparr>g_delivertasks := a\<rparr>)"
  by (simp add: quiet_def)

lemma nxsched_switch_running_assigned:
  "d \<noteq> c \<or> nxsched_islocked_tcb (tcbs k (g_assignedtasks k c)) \<Longrightarrow>
     g_assignedtasks (snd (nxsched_switch_running c e k)) d = g_assignedtasks k d"
  by (auto simp: nxsched_switch_running_def Let_def current_task_def tl_rem_def tl_add_prioritized_def split: option.split)

lemma quiet_switch: "quiet c S k (snd (nxsched_switch_running c e k))"
  by (rule quiet_sched_eq [OF nxsched_switch_running_eq]) (simp_all add: nxsched_switch_running_assigned)

lemma quiet_deliver_task: "quiet c S k (snd (nxsched_deliver_task c tg d k))"
  by (simp add: nxsched_deliver_task_def quiet_switch quiet_deliver)

lemma quiet_add_readytorun: "quiet c S k (snd (nxsched_add_readytorun c t k))"
proof -
  have "quiet c S k (made_ready n t k)" for n
    unfolding made_ready_def
    by (rule quiet_trans [OF quiet_trans [OF quiet_tcb quiet_lists(3)] quiet_tcb]) simp_all
  then show ?thesis unfolding nxsched_add_readytorun_alt Let_def
    by (auto intro: quiet_trans [OF _ quiet_deliver_task])
qed

lemma quiet_process_delivered: "quiet c S k (nxsched_process_delivered c k)"
proof -
  define k1 where "k1 = k\<lparr>g_delivertasks := (g_delivertasks k)(c := SWITCH_NONE)\<rparr>"
  have 1: "quiet c S k k1" unfolding k1_def by (rule quiet_deliver)
  have 2: "quiet c S k (snd (nxsched_switch_running c e k1))" for e
    by (rule quiet_trans [OF 1 quiet_switch])
  have 3: "quiet c S k (snd (nxsched_deliver_task c tg d k2))" if "quiet c S k k2" for tg d k2
    by (rule quiet_trans [OF that quiet_deliver_task])
  show ?thesis
    unfolding nxsched_process_delivered_def Let_def k1_def [symmetric] case_prod_beta
    by (simp split: option.split) (intro conjI impI allI 1 2 3)
qed

lemma quiet_prio: "quiet c S k (upd_tcb t (\<lambda>x. x\<lparr>sched_priority := q\<rparr>) k)"
  by (rule quiet_tcb) simp_all

lemma quiet_setpriority:
  "quiet c S k (snd (nxsched_running_setpriority c t p k))"
  "quiet c S k (snd (nxsched_readytorun_setpriority c t p k))"
  "quiet c S k (nxsched_blocked_setpriority t p k)"
proof -
  show "quiet c S k (snd (nxsched_running_setpriority c t p k))"
    unfolding nxsched_running_setpriority_def Let_def
    using quiet_prio quiet_trans [OF quiet_prio quiet_deliver_task] by (auto split: option.split)
  show "quiet c S k (snd (nxsched_readytorun_setpriority c t p k))"
    unfolding nxsched_readytorun_setpriority_def Let_def
    by (rule quiet_trans [OF quiet_trans [OF quiet_lists(1) quiet_prio] quiet_add_readytorun])
  show "quiet c S k (nxsched_blocked_setpriority t p k)"
    unfolding nxsched_blocked_setpriority_def Let_def
    using quiet_prio quiet_trans [OF quiet_trans [OF quiet_lists(1) quiet_prio] quiet_lists(3)]
    by (auto split: option.split bool.split)
qed

lemma quiet_set_priority: "quiet c S k (snd (snd (nxsched_set_priority c t p k)))"
  by (simp add: nxsched_set_priority_def quiet_setpriority split: tstate.split)

lemma quiet_blocked: "quiet c S k (nxsched_remove_blocked t k)" "quiet c S k (nxsched_add_blocked t s k)"
proof -
  have 1: "quiet c S k (upd_tcb t (\<lambda>x. x\<lparr>waitobj := None, task_state := TSTATE_TASK_INVALID\<rparr>) k)" for k by (rule quiet_tcb) simp_all
  have 2: "quiet c S k (upd_tcb t (\<lambda>x. x\<lparr>task_state := s\<rparr>) k)" for k s by (rule quiet_tcb) simp_all
  show "quiet c S k (nxsched_remove_blocked t k)"
    unfolding nxsched_remove_blocked_def Let_def
    using 1 quiet_trans [OF quiet_lists(1) 1] by (auto split: option.split)
  show "quiet c S k (nxsched_add_blocked t s k)"
    unfolding nxsched_add_blocked_def Let_def
    using 2 quiet_trans [OF 2 quiet_lists(2)] quiet_trans [OF 2 quiet_lists(3)] by (auto split: option.split)
qed

text \<open>Only the removal of a running task takes a CPU from it whether or not it is locked.\<close>

lemma quiet_remove_running:
  assumes "cpu (tcbs k t) = c" "g_assignedtasks k c = t"
  shows "quiet c {t} k (nxsched_remove_running t k)"
proof (rule quiet_sched_eq [OF nxsched_remove_running_eq])
  show "g_assignedtasks (nxsched_remove_running t k) d = g_assignedtasks k d" if "d \<noteq> c" for d
    using that assms unfolding nxsched_remove_running_def Let_def
    by (subst nxsched_switch_running_assigned) auto
qed (use assms in auto)

section \<open>The contract\<close>

locale quiet_op =
  fixes op :: "nat \<Rightarrow> kernel \<Rightarrow> kernel" and S :: "tid set"
  assumes quiet: "sched_wf k \<Longrightarrow> quiet c S k (op c k)"
begin

lemma keeps_fifo: "sched_wf k \<Longrightarrow> fifo_rep k Q \<Longrightarrow> fifo_rep (op c k) Q"
  using quietD(5,11) [OF quiet [of k c]] by (simp add: fifo_rep_def)

lemma keeps_owner: "sched_wf k \<Longrightarrow> owner (frap_ress (op c k) r) = owner (frap_ress k r)"
  using quietD(12) [OF quiet [of k c]] by simp

text \<open>A task in its critical section holds the preemption lock, so it keeps its CPU.\<close>

lemma keeps_locked:
  "sched_wf k \<Longrightarrow> nxsched_islocked_tcb (tcbs k (current_task k d)) \<Longrightarrow> current_task k d \<notin> S \<Longrightarrow>
     current_task (op c k) d = current_task k d"
  using quietD(17) [OF quiet [of k c]] by (simp add: current_task_def)

end

interpretation switch: quiet_op "\<lambda>c k. snd (nxsched_switch_running c e k)" "{}" for e
  by unfold_locales (rule quiet_switch)

interpretation deliver: quiet_op "\<lambda>c k. snd (nxsched_deliver_task c tg d k)" "{}" for tg d
  by unfold_locales (rule quiet_deliver_task)

interpretation ready: quiet_op "\<lambda>c k. snd (nxsched_add_readytorun c t k)" "{}" for t
  by unfold_locales (rule quiet_add_readytorun)

interpretation delivered: quiet_op nxsched_process_delivered "{}"
  by unfold_locales (rule quiet_process_delivered)

interpretation setprio: quiet_op "\<lambda>c k. snd (snd (nxsched_set_priority c t p k))" "{}" for t p
  by unfold_locales (rule quiet_set_priority)

interpretation unblock: quiet_op "\<lambda>c k. nxsched_remove_blocked t k" "{}" for t
  by unfold_locales (rule quiet_blocked)

interpretation block: quiet_op "\<lambda>c k. nxsched_add_blocked t s k" "{}" for t s
  by unfold_locales (rule quiet_blocked)

end
