(* ===== verification/Sem_Inv.thy ===== *)
theory Sem_Inv
  imports Sem Sched_Frame
begin

text \<open>
  The invariant of the semaphores: the scheduler's invariant, the containers of the holders (each in use
  by one semaphore and one task, or free), and the count of a semaphore, whose negative value is the
  number of waiting tasks.

  The locale \<open>holder_handler\<close> is the contract of the functions that \<open>nxsem_foreachholder\<close> calls; the loop is
  verified once in it, and it is interpreted on each of them.
\<close>

section \<open>Changing priorities\<close>

text \<open>What changing the priorities of tasks leaves alone.\<close>

definition reprio :: "nat \<Rightarrow> kernel \<Rightarrow> kernel \<Rightarrow> bool" where
  "reprio c k k' \<longleftrightarrow>
     quiet c {} k k' \<and> sched_wf k' \<and>
     (\<forall>t. \<exists>s d p. tcbs k' t = (tcbs k t)\<lparr>task_state := s, cpu := d, sched_priority := p\<rparr>) \<and>
     (\<forall>t. runnable k' t = runnable k t) \<and>
     (\<forall>s. mset (tlists k' (L_sem s)) = mset (tlists k (L_sem s)))"

definition holders_wf :: "nat \<Rightarrow> semsys \<Rightarrow> bool" where
  "holders_wf n y \<longleftrightarrow>
     distinct (g_freeholders y) \<and>
     (\<forall>p. p \<in> set (g_freeholders y) \<longleftrightarrow> p < n \<and> hsem (holders y p) = None) \<and>
     (\<forall>s. distinct (hhead (sems y s)) \<and> (\<forall>p. p \<in> set (hhead (sems y s)) \<longleftrightarrow> hsem (holders y p) = Some s)) \<and>
     (\<forall>t. distinct (holdsem y t) \<and> (\<forall>p. p \<in> set (holdsem y t) \<longleftrightarrow> htcb (holders y p) = Some t)) \<and>
     (\<forall>p. (hsem (holders y p) = None \<longleftrightarrow> htcb (holders y p) = None) \<and> (hsem (holders y p) \<noteq> None \<longrightarrow> p < n)) \<and>
     (\<forall>p t. htcb (holders y p) = Some t \<longrightarrow> \<not> is_idle_task (sk y) t) \<and>
     (\<forall>p q. hsem (holders y p) = hsem (holders y q) \<and> htcb (holders y p) = htcb (holders y q) \<and>
        hsem (holders y p) \<noteq> None \<longrightarrow> p = q)"

text \<open>The count of a counting semaphore tells the number of tasks that wait for it.\<close>

definition count_ok :: "semsys \<Rightarrow> oid \<Rightarrow> bool" where
  "count_ok y s \<longleftrightarrow>
     NXSEM_IS_MUTEX (sems y s) \<or> int (length (SEM_WAITLIST s y)) = max 0 (- semcount (sems y s))"

definition sem_inv :: "nat \<Rightarrow> semsys \<Rightarrow> bool" where
  "sem_inv n y \<longleftrightarrow> sched_wf (sk y) \<and> holders_wf n y \<and> (\<forall>s. count_ok y s)"

lemma tcb3_eq:
  "(x :: frap_tcb_s)\<lparr>task_state := s, cpu := d\<rparr> = x\<lparr>task_state := s, cpu := d, sched_priority := sched_priority x\<rparr>"
  "(x :: frap_tcb_s)\<lparr>sched_priority := p\<rparr> = x\<lparr>task_state := task_state x, cpu := cpu x, sched_priority := p\<rparr>"
  "x = x\<lparr>task_state := task_state x, cpu := cpu x, sched_priority := sched_priority x\<rparr>"
  by (cases x, simp)+

lemma tcb3_ex:
  "\<exists>s d p. (x :: frap_tcb_s) = x\<lparr>task_state := s, cpu := d, sched_priority := p\<rparr>"
  "\<exists>s d p. (x :: frap_tcb_s)\<lparr>sched_priority := q\<rparr> = x\<lparr>task_state := s, cpu := d, sched_priority := p\<rparr>"
  using tcb3_eq(2,3) by blast+

lemma reprio_refl: "sched_wf k \<Longrightarrow> reprio c k k"
  unfolding reprio_def using tcb3_eq(3) by blast

lemma reprio_trans [trans]:
  assumes "reprio c k k'" "reprio c k' k''"
  shows "reprio c k k''"
proof -
  have "\<exists>s d p. tcbs k'' t = (tcbs k t)\<lparr>task_state := s, cpu := d, sched_priority := p\<rparr>" for t
  proof -
    obtain a b e where 1: "tcbs k' t = (tcbs k t)\<lparr>task_state := a, cpu := b, sched_priority := e\<rparr>"
      using assms(1) unfolding reprio_def by blast
    obtain s d p where "tcbs k'' t = (tcbs k' t)\<lparr>task_state := s, cpu := d, sched_priority := p\<rparr>"
      using assms(2) unfolding reprio_def by blast
    with 1 show ?thesis by (intro exI [of _ s] exI [of _ d] exI [of _ p]) simp
  qed
  with assms show ?thesis by (auto simp: reprio_def intro: quiet_trans)
qed

lemma reprioD:
  assumes "reprio c k k'"
  shows "sched_wf k'" "ncpus k' = ncpus k" "is_idle_task k' t = is_idle_task k t"
    "lockcount (tcbs k' t) = lockcount (tcbs k t)" "waitobj (tcbs k' t) = waitobj (tcbs k t)"
    "errcode (tcbs k' t) = errcode (tcbs k t)" "base_priority (tcbs k' t) = base_priority (tcbs k t)"
    "boost_priority (tcbs k' t) = boost_priority (tcbs k t)" "pid (tcbs k' t) = pid (tcbs k t)"
    "runnable k' t = runnable k t" "mset (tlists k' (L_sem s)) = mset (tlists k (L_sem s))"
    "nxsched_islocked_tcb (tcbs k (this_task d k)) \<Longrightarrow> this_task d k' = this_task d k"
proof -
  obtain a b p where t: "tcbs k' t = (tcbs k t)\<lparr>task_state := a, cpu := b, sched_priority := p\<rparr>"
    using assms unfolding reprio_def by blast
  show "lockcount (tcbs k' t) = lockcount (tcbs k t)" "waitobj (tcbs k' t) = waitobj (tcbs k t)"
    "errcode (tcbs k' t) = errcode (tcbs k t)" "base_priority (tcbs k' t) = base_priority (tcbs k t)"
    "boost_priority (tcbs k' t) = boost_priority (tcbs k t)" "pid (tcbs k' t) = pid (tcbs k t)"
    by (simp_all add: t)
  show "nxsched_islocked_tcb (tcbs k (this_task d k)) \<Longrightarrow> this_task d k' = this_task d k"
    using assms quietD(17) [of c "{}" k k' d] by (simp add: reprio_def this_task_def current_task_def)
  have "quiet c {} k k'" using assms by (simp add: reprio_def)
  then show "ncpus k' = ncpus k" "is_idle_task k' t = is_idle_task k t" by (simp_all add: quietD)
qed (use assms in \<open>simp_all add: reprio_def\<close>)

text \<open>A waiting task is in the list of its semaphore, and the other way round.\<close>

lemma sem_waiting:
  "sched_wf k \<Longrightarrow> t \<in> set (tlists k (L_sem s)) \<longleftrightarrow> tstate_of k t = TSTATE_WAIT_SEM \<and> waitobj (tcbs k t) = Some (WSem s)"
  by (auto simp: sched_wf_def lists_wfD tlist_blocked_def split: tstate.splits option.splits waitobj.splits)

lemma reprio_waiting:
  assumes "sched_wf k" "reprio c k k'"
  shows "tstate_of k' t = TSTATE_WAIT_SEM \<and> waitobj (tcbs k' t) = Some (WSem s) \<longleftrightarrow>
    tstate_of k t = TSTATE_WAIT_SEM \<and> waitobj (tcbs k t) = Some (WSem s)"
  using sem_waiting [OF assms(1), of t s] sem_waiting [OF reprioD(1) [OF assms(2)], of t s]
    arg_cong [OF reprioD(11) [OF assms(2), of s], of set_mset] by simp

lemma sched_eq_tcb3: "sched_eq k k' \<Longrightarrow> \<exists>s d p. tcbs k' t = (tcbs k t)\<lparr>task_state := s, cpu := d, sched_priority := p\<rparr>"
  unfolding sched_eq_def using tcb3_eq(1) by metis

lemma runnable_prio [simp]:
  "runnable (upd_tcb u (\<lambda>x. x\<lparr>sched_priority := p\<rparr>) k) t = runnable k t"
  "runnable (tl_rem u l k) t = runnable k t" "runnable (tl_add_prioritized u l k) t = runnable k t"
  by (simp_all add: runnable_def is_idle_task_def tl_rem_def tl_add_prioritized_def)

lemma reprio_sched_eq:
  assumes "sched_eq k k'" "quiet c {} k k'" "sched_wf k'" "\<And>t. runnable k' t = runnable k t"
  shows "reprio c k k'"
  using assms(2-) sched_eq_tcb3 [OF assms(1)] sched_eq_globals(10) [OF assms(1)] by (simp add: reprio_def)

lemma reprio_deliver:
  "sched_wf k \<Longrightarrow> c < ncpus k \<Longrightarrow> reprio c k (snd (nxsched_deliver_task c d e k))"
  by (intro reprio_sched_eq nxsched_deliver_task_eq quiet_deliver_task nxsched_deliver_task_wf runnable_deliver)

lemma reprio_running:
  assumes w: "sched_wf k" "c < ncpus k" and t: "tstate_of k t = TSTATE_TASK_RUNNING" "\<not> is_idle_task k t"
  shows "reprio c k (snd (nxsched_running_setpriority c t p k))"
proof -
  define k1 where "k1 = upd_tcb t (\<lambda>x. x\<lparr>sched_priority := word_of_int p\<rparr>) k"
  have 1: "sched_wf k1"
    using w t tlist_blocked_running [OF t(1)] unfolding k1_def by (intro set_prio_wf) (auto simp: sched_wf_def lists_wfD)
  have "reprio c k k1"
    using 1 unfolding reprio_def k1_def by (simp add: quiet_tcb tcb3_ex)
  moreover have "reprio c k1 (snd (nxsched_deliver_task c d e k1))" for d e
    using 1 w by (intro reprio_deliver) (simp_all add: k1_def)
  ultimately show ?thesis
    unfolding nxsched_running_setpriority_def Let_def k1_def [symmetric]
    by (auto split: option.split intro: reprio_trans)
qed

lemma reprio_ready:
  assumes w: "sched_wf k" "c < ncpus k" and t: "tstate_of k t = TSTATE_TASK_READYTORUN"
  shows "reprio c k (snd (nxsched_readytorun_setpriority c t p k))"
proof -
  define k1 where "k1 = upd_tcb t (\<lambda>x. x\<lparr>task_state := TSTATE_TASK_INVALID\<rparr>) (tl_rem t L_readytorun k)"
  define k2 where "k2 = upd_tcb t (\<lambda>x. x\<lparr>sched_priority := word_of_int p\<rparr>) k1"
  define k3 where "k3 = upd_tcb t (\<lambda>x. x\<lparr>sched_priority := word_of_int p\<rparr>) (tl_rem t L_readytorun k)"
  have b: "tlist_blocked (tcbs k t) = Some L_readytorun" using t by (simp add: tlist_blocked_ready)
  then have 1: "sched_wf k1" unfolding k1_def by (intro delisted_wf [OF w(1)]) simp_all
  have n: "tcbs k1 t = (tcbs k t)\<lparr>task_state := TSTATE_TASK_INVALID\<rparr>" "ncpus k1 = ncpus k" by (simp_all add: k1_def tl_rem_def)
  have i: "\<not> is_idle_task k1 t" using 1 n by (intro idle_not_ready(1)) (auto simp: sched_wf_def)
  then have 2: "sched_wf k2"
    using 1 n unfolding k2_def by (intro set_prio_wf) (auto simp: sched_wf_def lists_wfD)
  have k3: "nxsched_add_readytorun c t k3 = nxsched_add_readytorun c t k2"
    using nxsched_add_readytorun_state [of c t TSTATE_TASK_INVALID k3]
    by (simp add: k2_def k1_def k3_def upd_tcb_def tcb_state_prio)
  have r: "runnable (snd (nxsched_add_readytorun c t k2)) u = runnable k u" for u
    using 2 w n t i
    by (subst runnable_add_readytorun) (auto simp: k2_def k1_def runnable_def is_idle_task_def tl_rem_def)
  have f: "\<exists>s d p. tcbs (snd (nxsched_add_readytorun c t k3)) u = (tcbs k u)\<lparr>task_state := s, cpu := d, sched_priority := p\<rparr>" for u
  proof -
    obtain s d q where "tcbs (snd (nxsched_add_readytorun c t k3)) u = (tcbs k3 u)\<lparr>task_state := s, cpu := d, sched_priority := q\<rparr>"
      using sched_eq_tcb3 [OF nxsched_add_readytorun_eq] by blast
    then show ?thesis by (intro exI [of _ s] exI [of _ d] exI [of _ q]) (simp add: k3_def tl_rem_def)
  qed
  have "sched_wf (snd (nxsched_add_readytorun c t k3))" using nxsched_readytorun_setpriority_wf [OF w t, of p]
    by (simp add: nxsched_readytorun_setpriority_def k3_def [symmetric] Let_def)
  moreover have "tlists (snd (nxsched_add_readytorun c t k3)) (L_sem s) = tlists k (L_sem s)" for s
    by (simp add: sched_eq_globals(10) [OF nxsched_add_readytorun_eq]) (simp add: k3_def tl_rem_def)
  ultimately show ?thesis using quiet_setpriority(2) [of c "{}" k t p] r f k3
    by (simp add: reprio_def nxsched_readytorun_setpriority_def k3_def [symmetric] Let_def)
qed

lemma reprio_blocked:
  assumes w: "sched_wf k" and t: "tstate_of k t \<notin> {TSTATE_TASK_RUNNING, TSTATE_TASK_ASSIGNED}"
  shows "reprio c k (nxsched_blocked_setpriority t p k)"
proof -
  define k' where "k' = nxsched_blocked_setpriority t p k"
  have 1: "tcbs k' u = (if u = t then (tcbs k t)\<lparr>sched_priority := word_of_int p\<rparr> else tcbs k u)" "ncpus k' = ncpus k" for u
    by (simp_all add: k'_def nxsched_blocked_setpriority_def Let_def tl_rem_def tl_add_prioritized_def split: option.split bool.split)
  have 3: "mset (tlists k' l) = mset (tlists k l)" for l
    using w lists_wfD(2) [of k t l]
    by (auto simp: k'_def nxsched_blocked_setpriority_def tl_rem_def tl_add_prioritized_def mset_ins_desc sched_wf_def Let_def
      split: option.split bool.split)
  show ?thesis using nxsched_blocked_setpriority_wf [OF w t, of p] quiet_setpriority(3) [of c "{}" k t p] 3
    by (simp add: reprio_def k'_def [symmetric] 1 tcb3_ex runnable_def is_idle_task_def)
qed

lemma reprio_set_priority:
  assumes "sched_wf k" "c < ncpus k" "\<not> is_idle_task k t"
  shows "reprio c k (snd (snd (nxsched_set_priority c t p k)))"
  using assms reprio_refl [of k c] idle_assigned [of k t] reprio_running reprio_ready reprio_blocked
  by (auto simp: nxsched_set_priority_def split: tstate.split)

section \<open>The containers of the holders\<close>

lemmas sem_upd_defs = upd_sem_def upd_holder_def upd_sk_def set_sval_def

text \<open>Two states whose semaphores differ at most in their lists of holders.\<close>

definition sems_eq :: "semsys \<Rightarrow> semsys \<Rightarrow> bool" where
  "sems_eq y y' \<longleftrightarrow> (\<forall>s. (sems y' s)\<lparr>hhead := []\<rparr> = (sems y s)\<lparr>hhead := []\<rparr>)"

definition semadj :: "nat \<Rightarrow> nat \<Rightarrow> semsys \<Rightarrow> semsys \<Rightarrow> bool" where
  "semadj n c y y' \<longleftrightarrow> reprio c (sk y) (sk y') \<and> holders_wf n y' \<and> sems_eq y y'"

lemma sems_eq_refl [simp]: "sems_eq y y" by (simp add: sems_eq_def)

lemma sems_eq_trans [trans]: "sems_eq x y \<Longrightarrow> sems_eq y z \<Longrightarrow> sems_eq x z" by (simp add: sems_eq_def)

lemma sems_eqD:
  assumes "sems_eq y y'"
  shows "sval (sems y' s) = sval (sems y s)" "sflags (sems y' s) = sflags (sems y s)"
    "sceiling (sems y' s) = sceiling (sems y s)" "ssaved (sems y' s) = ssaved (sems y s)"
    "NXSEM_IS_MUTEX (sems y' s) = NXSEM_IS_MUTEX (sems y s)" "sem_proto (sems y' s) = sem_proto (sems y s)"
    "semcount (sems y' s) = semcount (sems y s)"
proof -
  have "(sems y' s)\<lparr>hhead := []\<rparr> = (sems y s)\<lparr>hhead := []\<rparr>" using assms by (simp add: sems_eq_def)
  then show 1: "sval (sems y' s) = sval (sems y s)" "sflags (sems y' s) = sflags (sems y s)"
    "sceiling (sems y' s) = sceiling (sems y s)" "ssaved (sems y' s) = ssaved (sems y s)"
    by (cases "sems y' s"; cases "sems y s"; simp)+
  then show "NXSEM_IS_MUTEX (sems y' s) = NXSEM_IS_MUTEX (sems y s)" "sem_proto (sems y' s) = sem_proto (sems y s)"
    "semcount (sems y' s) = semcount (sems y s)" by (simp_all add: NXSEM_IS_MUTEX_def sem_proto_def semcount_def)
qed

lemma semadj_refl: "sched_wf (sk y) \<Longrightarrow> holders_wf n y \<Longrightarrow> semadj n c y y"
  by (simp add: semadj_def reprio_refl)

lemma semadj_trans [trans]: "semadj n c x y \<Longrightarrow> semadj n c y z \<Longrightarrow> semadj n c x z"
  by (auto simp: semadj_def intro: reprio_trans sems_eq_trans)

lemma holders_wf_cong:
  assumes "holders_wf n y" "g_freeholders y' = g_freeholders y" "holders y' = holders y" "holdsem y' = holdsem y"
    "\<And>s. hhead (sems y' s) = hhead (sems y s)" "\<And>t. is_idle_task (sk y') t = is_idle_task (sk y) t"
  shows "holders_wf n y'"
  using assms(1) unfolding holders_wf_def assms(2-) .

lemma holders_wfD:
  assumes "holders_wf n y"
  shows "p \<in> set (g_freeholders y) \<longleftrightarrow> p < n \<and> hsem (holders y p) = None" "distinct (g_freeholders y)"
    "p \<in> set (hhead (sems y s)) \<longleftrightarrow> hsem (holders y p) = Some s" "distinct (hhead (sems y s))"
    "p \<in> set (holdsem y t) \<longleftrightarrow> htcb (holders y p) = Some t" "distinct (holdsem y t)"
    "hsem (holders y p) = None \<longleftrightarrow> htcb (holders y p) = None" "hsem (holders y p) \<noteq> None \<Longrightarrow> p < n"
    "htcb (holders y p) = Some t \<Longrightarrow> \<not> is_idle_task (sk y) t"
    "hsem (holders y p) = hsem (holders y q) \<Longrightarrow> htcb (holders y p) = htcb (holders y q) \<Longrightarrow> hsem (holders y p) \<noteq> None \<Longrightarrow> p = q"
proof -
  note w = assms [unfolded holders_wf_def]
  note free = w [THEN conjunct1] w [THEN conjunct2, THEN conjunct1, THEN spec]
  note w2 = w [THEN conjunct2, THEN conjunct2]
  note lists = w2 [THEN conjunct1, THEN spec] w2 [THEN conjunct2, THEN conjunct1, THEN spec]
  note w4 = w2 [THEN conjunct2, THEN conjunct2]
  note one = w4 [THEN conjunct1, THEN spec] w4 [THEN conjunct2, THEN conjunct1, THEN spec, THEN spec]
    w4 [THEN conjunct2, THEN conjunct2, THEN spec, THEN spec]
  show "p \<in> set (g_freeholders y) \<longleftrightarrow> p < n \<and> hsem (holders y p) = None" "distinct (g_freeholders y)"
    by (rule free)+
  show "p \<in> set (hhead (sems y s)) \<longleftrightarrow> hsem (holders y p) = Some s" "distinct (hhead (sems y s))"
    "p \<in> set (holdsem y t) \<longleftrightarrow> htcb (holders y p) = Some t" "distinct (holdsem y t)"
    using lists(1) [of s] lists(2) [of t] by blast+
  show "hsem (holders y p) = None \<longleftrightarrow> htcb (holders y p) = None" "hsem (holders y p) \<noteq> None \<Longrightarrow> p < n"
    "htcb (holders y p) = Some t \<Longrightarrow> \<not> is_idle_task (sk y) t"
    "hsem (holders y p) = hsem (holders y q) \<Longrightarrow> htcb (holders y p) = htcb (holders y q) \<Longrightarrow> hsem (holders y p) \<noteq> None \<Longrightarrow> p = q"
    using one(1) [of p] one(2) [of p t] one(3) [of p q] by blast+
qed

lemma nxsem_allocholder_ok:
  assumes w: "holders_wf n y" and f: "g_freeholders y = p # ps" and h: "\<not> is_idle_task (sk y) h"
    and new: "\<And>q. hsem (holders y q) = Some s \<Longrightarrow> htcb (holders y q) \<noteq> Some h"
  shows "\<exists>y'. nxsem_allocholder s h y = Some (p, y') \<and> holders_wf n y' \<and> sk y' = sk y \<and> sems_eq y y' \<and>
    holders y' = (holders y)(p := \<lparr>hsem = Some s, htcb = Some h, counts = 0\<rparr>) \<and> g_freeholders y' = ps"
proof -
  define y' where "y' = y\<lparr>g_freeholders := ps, sems := (sems y)(s := (sems y s)\<lparr>hhead := p # hhead (sems y s)\<rparr>),
    holders := (holders y)(p := \<lparr>hsem = Some s, htcb = Some h, counts = 0\<rparr>), holdsem := (holdsem y)(h := p # holdsem y h)\<rparr>"
  have y': "nxsem_allocholder s h y = Some (p, y')" by (simp add: nxsem_allocholder_def f sem_upd_defs Let_def y'_def)
  have sel: "sk y' = sk y" "holders y' = (holders y)(p := \<lparr>hsem = Some s, htcb = Some h, counts = 0\<rparr>)"
      "g_freeholders y' = ps" "sems y' = (sems y)(s := (sems y s)\<lparr>hhead := p # hhead (sems y s)\<rparr>)"
      "holdsem y' = (holdsem y)(h := p # holdsem y h)"
    by (simp_all add: y'_def)
  have p: "p < n" "hsem (holders y p) = None" "p \<notin> set ps" "htcb (holders y p) = None" "distinct ps"
    using holders_wfD(1,7) [OF w, of p] holders_wfD(2) [OF w] f by auto
  have ps: "q \<in> set ps \<longleftrightarrow> q < n \<and> hsem (holders y q) = None \<and> q \<noteq> p" for q
    using holders_wfD(1) [OF w, of q] f p by auto
  have "holders_wf n y'"
    unfolding holders_wf_def
  proof (intro conjI allI impI)
    fix q t assume "htcb (holders y' q) = Some t"
    then show "\<not> is_idle_task (sk y') t" using holders_wfD(9) [OF w] h by (auto simp: sel split: if_splits)
  next
    fix q r
    assume "hsem (holders y' q) = hsem (holders y' r) \<and> htcb (holders y' q) = htcb (holders y' r) \<and> hsem (holders y' q) \<noteq> None"
    then show "q = r" using holders_wfD(10) [OF w, of q r] new [of q] new [of r] by (cases "q = p"; cases "r = p") (auto simp: sel)
  next
    show "distinct (g_freeholders y')" using p by (simp add: sel)
    show "q \<in> set (g_freeholders y') \<longleftrightarrow> q < n \<and> hsem (holders y' q) = None" for q using ps by (simp add: sel)
    show "distinct (hhead (sems y' x))" for x using p holders_wfD(3) [OF w, of p x] holders_wfD(4) [OF w, of x] by (auto simp: sel)
    show "q \<in> set (hhead (sems y' x)) \<longleftrightarrow> hsem (holders y' q) = Some x" for q x
      using p holders_wfD(3) [OF w, of q x] by (auto simp: sel)
    show "distinct (holdsem y' t)" for t using p holders_wfD(5) [OF w, of p t] holders_wfD(6) [OF w, of t] by (auto simp: sel)
    show "q \<in> set (holdsem y' t) \<longleftrightarrow> htcb (holders y' q) = Some t" for q t
      using p holders_wfD(5) [OF w, of q t] by (auto simp: sel)
    show "hsem (holders y' q) = None \<longleftrightarrow> htcb (holders y' q) = None" for q using holders_wfD(7) [OF w, of q] by (simp add: sel)
    show "hsem (holders y' q) \<noteq> None \<Longrightarrow> q < n" for q using p holders_wfD(8) [OF w, of q] by (auto simp: sel split: if_splits)
  qed
  then show ?thesis using y' sel by (auto simp: sems_eq_def)
qed

lemma nxsem_freeholder_ok:
  assumes w: "holders_wf n y" and p: "hsem (holders y p) = Some s"
  shows "\<exists>y'. nxsem_freeholder s p y = Some y' \<and> holders_wf n y' \<and> sk y' = sk y \<and> sems_eq y y' \<and>
    holders y' = (holders y)(p := \<lparr>hsem = None, htcb = None, counts = 0\<rparr>) \<and>
    holdsem y' = (\<lambda>t. remove1 p (holdsem y t)) \<and> g_freeholders y' = p # g_freeholders y"
proof -
  obtain h where h: "htcb (holders y p) = Some h" using holders_wfD(7) [OF w, of p] p by auto
  define y' where "y' = y\<lparr>g_freeholders := p # g_freeholders y,
    sems := (sems y)(s := (sems y s)\<lparr>hhead := remove1 p (hhead (sems y s))\<rparr>),
    holders := (holders y)(p := \<lparr>hsem = None, htcb = None, counts = 0\<rparr>), holdsem := (holdsem y)(h := remove1 p (holdsem y h))\<rparr>"
  have y': "nxsem_freeholder s p y = Some y'" by (simp add: nxsem_freeholder_def h sem_upd_defs Let_def y'_def)
  have sel: "sk y' = sk y" "holders y' = (holders y)(p := \<lparr>hsem = None, htcb = None, counts = 0\<rparr>)"
      "g_freeholders y' = p # g_freeholders y" "sems y' = (sems y)(s := (sems y s)\<lparr>hhead := remove1 p (hhead (sems y s))\<rparr>)"
      "holdsem y' = (holdsem y)(h := remove1 p (holdsem y h))"
    by (simp_all add: y'_def)
  have r: "holdsem y' t = remove1 p (holdsem y t)" for t
    using holders_wfD(5) [OF w, of p t] h by (auto simp: sel remove1_idem)
  have n: "p < n" "p \<notin> set (g_freeholders y)" using holders_wfD(1,8) [OF w, of p] p by auto
  have "holders_wf n y'"
    unfolding holders_wf_def
  proof (intro conjI allI impI)
    fix q t assume "htcb (holders y' q) = Some t"
    then show "\<not> is_idle_task (sk y') t" using holders_wfD(9) [OF w] by (auto simp: sel split: if_splits)
  next
    fix q r
    assume "hsem (holders y' q) = hsem (holders y' r) \<and> htcb (holders y' q) = htcb (holders y' r) \<and> hsem (holders y' q) \<noteq> None"
    then show "q = r" using holders_wfD(10) [OF w, of q r] by (cases "q = p"; cases "r = p") (auto simp: sel)
  next
    show "distinct (g_freeholders y')" using n holders_wfD(2) [OF w] by (simp add: sel)
    show "q \<in> set (g_freeholders y') \<longleftrightarrow> q < n \<and> hsem (holders y' q) = None" for q
      using n holders_wfD(1) [OF w, of q] by (auto simp: sel)
    show "distinct (hhead (sems y' x))" for x using holders_wfD(4) [OF w, of x] by (auto simp: sel)
    show "q \<in> set (hhead (sems y' x)) \<longleftrightarrow> hsem (holders y' q) = Some x" for q x
      using p holders_wfD(3) [OF w, of q x] holders_wfD(4) [OF w, of x] by (auto simp: sel)
    show "distinct (holdsem y' t)" for t using holders_wfD(6) [OF w, of t] by (simp add: r)
    show "q \<in> set (holdsem y' t) \<longleftrightarrow> htcb (holders y' q) = Some t" for q t
      using holders_wfD(5) [OF w, of q t] holders_wfD(6) [OF w, of t] by (auto simp: r sel(2))
    show "hsem (holders y' q) = None \<longleftrightarrow> htcb (holders y' q) = None" for q using holders_wfD(7) [OF w, of q] by (simp add: sel)
    show "hsem (holders y' q) \<noteq> None \<Longrightarrow> q < n" for q using holders_wfD(8) [OF w, of q] by (auto simp: sel split: if_splits)
  qed
  then show ?thesis using y' sel r by (auto simp: sems_eq_def)
qed

lemma holders_wf_counts:
  assumes "holders_wf n y"
  shows "holders_wf n (upd_holder p (\<lambda>x. x\<lparr>counts := f x\<rparr>) y)"
proof -
  let ?y = "upd_holder p (\<lambda>x. x\<lparr>counts := f x\<rparr>) y"
  have e: "hsem (holders ?y q) = hsem (holders y q)" "htcb (holders ?y q) = htcb (holders y q)" "sems ?y = sems y"
    "g_freeholders ?y = g_freeholders y" "holdsem ?y = holdsem y" "sk ?y = sk y" for q
    by (simp_all add: upd_holder_def)
  show ?thesis using assms unfolding holders_wf_def e .
qed

section \<open>Adjusting the priorities of holders\<close>

lemma semadj_sk: "holders_wf n y \<Longrightarrow> reprio c (sk y) k \<Longrightarrow> semadj n c y (y\<lparr>sk := k\<rparr>)"
  using reprioD(3) [of c "sk y" k] by (auto simp: semadj_def sems_eq_def intro: holders_wf_cong)

lemma semadjD:
  assumes "semadj n c y y'"
  shows "reprio c (sk y) (sk y')" "holders_wf n y'" "sems_eq y y'" "sched_wf (sk y')" "ncpus (sk y') = ncpus (sk y)"
    "mset (SEM_WAITLIST s y') = mset (SEM_WAITLIST s y)"
  using assms reprioD(1,2,11) [of c "sk y" "sk y'"] by (simp_all add: semadj_def)

lemma semadj_hold:
  "sched_wf (sk y) \<Longrightarrow> holders_wf n y' \<Longrightarrow> sk y' = sk y \<Longrightarrow> sems_eq y y' \<Longrightarrow> semadj n c y y'"
  by (simp add: semadj_def reprio_refl)

lemma set_priority_ok:
  assumes "holders_wf n y" "sched_wf (sk y)" "c < ncpus (sk y)" "\<not> is_idle_task (sk y) t"
  shows "semadj n c y (set_priority c t p y)" "holders (set_priority c t p y) = holders y"
    "holdsem (set_priority c t p y) = holdsem y" "sems (set_priority c t p y) = sems y"
    "g_freeholders (set_priority c t p y) = g_freeholders y"
  using semadj_sk [OF assms(1) reprio_set_priority [OF assms(2-4)]] by (simp_all add: set_priority_def upd_sk_def)

lemma set_priority_prio:
  assumes "p > 0"
  shows "prio (sk (set_priority c t p y)) u = (if u = t then p else prio (sk y) u)"
proof -
  have "uint p \<le> 255" using uint_lt2p [of p] by simp
  moreover have "1 \<le> uint p" using assms by (simp add: word_less_def)
  ultimately show ?thesis
    using nxsched_set_priority_prio [of "uint p" c t "sk y" u] by (simp add: set_priority_def upd_sk_def)
qed

text \<open>The priority the first waiters of the semaphores of a task ask for.\<close>

definition first_prio :: "semsys \<Rightarrow> oid \<Rightarrow> u8 set" where
  "first_prio y s = (case SEM_WAITLIST s y of [] \<Rightarrow> {} | t # _ \<Rightarrow> {prio (sk y) t})"

definition asked :: "semsys \<Rightarrow> hid list \<Rightarrow> u8 set" where
  "asked y ps = (\<Union>p \<in> set ps. case hsem (holders y p) of None \<Rightarrow> {} | Some s \<Rightarrow> first_prio y s)"

lemma asked_Nil [simp]: "asked y [] = {}"
  by (simp add: asked_def)

lemma asked_Cons: "hsem (holders y p) = Some s \<Longrightarrow> asked y (p # ps) = first_prio y s \<union> asked y ps"
  by (simp add: asked_def)

lemma asked_finite: "finite (asked y ps)"
  by (auto simp: asked_def first_prio_def split: option.split list.split)

lemma if_max: "(if (b :: 'a :: linorder) > a then b else a) = max a b"
  by (auto simp: max_def)

lemma waiter_prio_Max:
  "\<forall>p \<in> set ps. hsem (holders y p) \<noteq> None \<Longrightarrow> waiter_prio y ps hp = Some (Max (insert hp (asked y ps)))"
proof (induction ps arbitrary: hp)
  case Nil
  then show ?case by simp
next
  case (Cons p ps)
  then obtain s where s: "hsem (holders y p) = Some s" by auto
  have m: "Max (insert (max hp x) (asked y ps)) = Max (insert hp (insert x (asked y ps)))" for x
    using asked_finite [of y ps] by (cases "asked y ps = {}") (simp_all add: max.assoc)
  have IH: "waiter_prio y ps q = Some (Max (insert q (asked y ps)))" for q using Cons by simp
  show ?case
  proof (cases "SEM_WAITLIST s y")
    case Nil
    then show ?thesis using s IH by (simp add: asked_Cons [OF s] first_prio_def)
  next
    case (Cons t ts)
    have "(if prio (sk y) t > hp then prio (sk y) t else hp) = max hp (prio (sk y) t)"
      by (rule if_max)
    with s IH Cons m show ?thesis by (simp add: asked_Cons [OF s] first_prio_def del: Max_insert)
  qed
qed

lemma nxsem_restore_priority_ok:
  assumes w: "holders_wf n y" "sched_wf (sk y)" "c < ncpus (sk y)" "\<not> is_idle_task (sk y) h"
  shows "\<exists>y'. nxsem_restore_priority c h y = Some y' \<and> semadj n c y y' \<and> holders y' = holders y"
proof -
  have "\<forall>p \<in> set (holdsem y h). hsem (holders y p) \<noteq> None"
    using holders_wfD(5,7) [OF w(1)] by auto
  then show ?thesis
    using waiter_prio_Max semadj_refl [OF w(2,1)] set_priority_ok [OF w]
    by (simp add: nxsem_restore_priority_def Let_def)
qed

section \<open>The loop over the holders\<close>

locale holder_handler =
  fixes handler :: holderhandler and n c s
  assumes handles: "holders_wf n y \<Longrightarrow> sched_wf (sk y) \<Longrightarrow> c < ncpus (sk y) \<Longrightarrow> hsem (holders y p) = Some s \<Longrightarrow>
    \<exists>r y'. handler p y = Some (r, y') \<and> semadj n c y y' \<and> (\<forall>q. q \<noteq> p \<longrightarrow> holders y' q = holders y q)"
begin

lemma foreach_loop_ok:
  assumes "holders_wf n y" "sched_wf (sk y)" "c < ncpus (sk y)" "distinct ps" "\<forall>p \<in> set ps. hsem (holders y p) = Some s"
  shows "\<exists>r y'. foreach_loop handler ps y = Some (r, y') \<and> semadj n c y y' \<and> (\<forall>q. q \<notin> set ps \<longrightarrow> holders y' q = holders y q)"
  using assms
proof (induction ps arbitrary: y)
  case Nil
  then show ?case by (simp add: semadj_refl)
next
  case (Cons p ps)
  obtain r y1 where 1: "handler p y = Some (r, y1)" "semadj n c y y1" "\<forall>q. q \<noteq> p \<longrightarrow> holders y1 q = holders y q"
    using handles [of y p] Cons.prems by auto
  have "\<forall>q \<in> set ps. hsem (holders y1 q) = Some s" using 1(3) Cons.prems by auto
  then obtain r' y2 where 2: "foreach_loop handler ps y1 = Some (r', y2)" "semadj n c y1 y2"
      "\<forall>q. q \<notin> set ps \<longrightarrow> holders y2 q = holders y1 q"
    using Cons.IH [of y1] semadjD(2,4,5) [OF 1(2)] Cons.prems by auto
  show ?case using 1 2 semadj_trans [OF 1(2) 2(2)] by (cases "r = 0") simp_all
qed

lemma foreachholder_ok:
  assumes w: "holders_wf n y" "sched_wf (sk y)" "c < ncpus (sk y)"
  shows "\<exists>y'. nxsem_foreachholder s handler y = Some y' \<and> semadj n c y y' \<and>
    (\<forall>q. hsem (holders y q) \<noteq> Some s \<longrightarrow> holders y' q = holders y q)"
  using foreach_loop_ok [OF w, of "hhead (sems y s)"] holders_wfD(3,4) [OF w(1)]
  by (auto simp: nxsem_foreachholder_def)

end

lemma nxsem_restoreholderprio_handles:
  assumes w: "holders_wf n y" "sched_wf (sk y)" "c < ncpus (sk y)" and p: "hsem (holders y p) = Some s"
  shows "\<exists>r y'. nxsem_restoreholderprio c s p y = Some (r, y') \<and> semadj n c y y' \<and> (\<forall>q. q \<noteq> p \<longrightarrow> holders y' q = holders y q)"
proof -
  obtain h where h: "htcb (holders y p) = Some h" using holders_wfD(7) [OF w(1), of p] p by auto
  then have i: "\<not> is_idle_task (sk y) h" by (rule holders_wfD(9) [OF w(1)])
  obtain y1 where y1: "nxsem_freeholder s p y = Some y1" "holders_wf n y1" "sk y1 = sk y" "sems_eq y y1"
      "holders y1 = (holders y)(p := \<lparr>hsem = None, htcb = None, counts = 0\<rparr>)"
    using nxsem_freeholder_ok [OF w(1) p] by blast
  have a: "semadj n c y y1" by (rule semadj_hold [OF w(2) y1(2-4)])
  obtain y2 where y2: "nxsem_restore_priority c h y1 = Some y2" "semadj n c y1 y2" "holders y2 = holders y1"
    using nxsem_restore_priority_ok [OF y1(2), of c h] w i y1(3) by auto
  obtain y3 where y3: "nxsem_restore_priority c h y = Some y3" "semadj n c y y3" "holders y3 = holders y"
    using nxsem_restore_priority_ok [OF w i] by auto
  show ?thesis
    using h y1 y2 y3 semadj_trans [OF a y2(2)] by (simp add: nxsem_restoreholderprio_def)
qed

interpretation restore: holder_handler "nxsem_restoreholderprio c s" n c s
  by unfold_locales (rule nxsem_restoreholderprio_handles)

interpretation restore_others: holder_handler "nxsem_restoreholderprio_others c s" n c s
proof
  fix y p assume w: "holders_wf n y" "sched_wf (sk y)" "c < ncpus (sk y)" and p: "hsem (holders y p) = Some s"
  show "\<exists>r y'. nxsem_restoreholderprio_others c s p y = Some (r, y') \<and> semadj n c y y' \<and> (\<forall>q. q \<noteq> p \<longrightarrow> holders y' q = holders y q)"
    using nxsem_restoreholderprio_handles [OF w p] semadj_refl [OF w(2,1)] by (simp add: nxsem_restoreholderprio_others_def)
qed

interpretation restore_self: holder_handler "nxsem_restoreholderprio_self c s" n c s
proof
  fix y p assume w: "holders_wf n y" "sched_wf (sk y)" "c < ncpus (sk y)" and p: "hsem (holders y p) = Some s"
  show "\<exists>r y'. nxsem_restoreholderprio_self c s p y = Some (r, y') \<and> semadj n c y y' \<and> (\<forall>q. q \<noteq> p \<longrightarrow> holders y' q = holders y q)"
    using nxsem_restoreholderprio_handles [OF w p] semadj_refl [OF w(2,1)] by (auto simp: nxsem_restoreholderprio_self_def)
qed

lemma nxsem_freeholder_handles:
  assumes w: "holders_wf n y" "sched_wf (sk y)" and p: "hsem (holders y p) = Some s"
  shows "\<exists>y'. nxsem_freeholder s p y = Some y' \<and> semadj n c y y' \<and> (\<forall>q. q \<noteq> p \<longrightarrow> holders y' q = holders y q)"
proof -
  obtain y' where y': "nxsem_freeholder s p y = Some y'" "holders_wf n y'" "sk y' = sk y" "sems_eq y y'"
      "holders y' = (holders y)(p := \<lparr>hsem = None, htcb = None, counts = 0\<rparr>)"
    using nxsem_freeholder_ok [OF w(1) p] by blast
  have "semadj n c y y'" by (rule semadj_hold [OF w(2) y'(2-4)])
  with y'(1,5) show ?thesis by simp
qed

interpretation recover: holder_handler "nxsem_recoverholders s" n c s
proof
  fix y p assume w: "holders_wf n y" "sched_wf (sk y)" and "c < ncpus (sk y)" and p: "hsem (holders y p) = Some s"
  show "\<exists>r y'. nxsem_recoverholders s p y = Some (r, y') \<and> semadj n c y y' \<and> (\<forall>q. q \<noteq> p \<longrightarrow> holders y' q = holders y q)"
    using nxsem_freeholder_handles [OF w p, where c = c] by (auto simp only: nxsem_recoverholders_def option.map)
qed

interpretation freecount0: holder_handler "nxsem_freecount0holder s" n c s
proof
  fix y p assume w: "holders_wf n y" "sched_wf (sk y)" and "c < ncpus (sk y)" and p: "hsem (holders y p) = Some s"
  show "\<exists>r y'. nxsem_freecount0holder s p y = Some (r, y') \<and> semadj n c y y' \<and> (\<forall>q. q \<noteq> p \<longrightarrow> holders y' q = holders y q)"
    using nxsem_freeholder_handles [OF w p, where c = c] semadj_refl [OF w(2,1), of c] by (cases "counts (holders y p) \<le> 0 \<or> NXSEM_IS_MUTEX (sems y s)") (auto simp only: nxsem_freecount0holder_def option.map if_True if_False)
qed

interpretation boost: holder_handler "nxsem_boostholderprio c t" n c s
proof
  fix y p assume w: "holders_wf n y" "sched_wf (sk y)" "c < ncpus (sk y)" and p: "hsem (holders y p) = Some s"
  obtain h where h: "htcb (holders y p) = Some h" using holders_wfD(7) [OF w(1), of p] p by auto
  show "\<exists>r y'. nxsem_boostholderprio c t p y = Some (r, y') \<and> semadj n c y y' \<and> (\<forall>q. q \<noteq> p \<longrightarrow> holders y' q = holders y q)"
    using h set_priority_ok [OF w holders_wfD(9) [OF w(1) h]] semadj_refl [OF w(2,1)]
    by (simp add: nxsem_boostholderprio_def)
qed

section \<open>Taking and giving a count\<close>

lemma nxsem_findholder_Some:
  assumes "nxsem_findholder s h y = Some p"
  shows "p \<in> set (hhead (sems y s))" "htcb (holders y p) = Some h"
  using assms by (auto simp: nxsem_findholder_def find_Some_iff)

lemma nxsem_findholder_None:
  "nxsem_findholder s h y = None \<Longrightarrow> p \<in> set (hhead (sems y s)) \<Longrightarrow> htcb (holders y p) \<noteq> Some h"
  by (auto simp: nxsem_findholder_def find_None_iff)

text \<open>The containers in use stay in use, by the same task for the same semaphore.\<close>

definition still_held :: "semsys \<Rightarrow> semsys \<Rightarrow> bool" where
  "still_held y y' \<longleftrightarrow>
     (\<forall>p. hsem (holders y p) \<noteq> None \<longrightarrow> hsem (holders y' p) = hsem (holders y p) \<and> htcb (holders y' p) = htcb (holders y p))"

lemma nxsem_findorallocateholder_ok:
  assumes w: "holders_wf n y" and f: "g_freeholders y \<noteq> []" and h: "\<not> is_idle_task (sk y) h"
  shows "\<exists>p y'. nxsem_findorallocateholder s h y = Some (p, y') \<and> holders_wf n y' \<and> sk y' = sk y \<and> sems_eq y y' \<and>
    still_held y y' \<and> hsem (holders y' p) = Some s \<and> htcb (holders y' p) = Some h"
proof (cases "nxsem_findholder s h y")
  case (Some p)
  with w holders_wfD(3) [OF w, of p s] nxsem_findholder_Some [OF Some] show ?thesis
    by (simp add: nxsem_findorallocateholder_def still_held_def)
next
  case None
  obtain p ps where ps: "g_freeholders y = p # ps" using f by (cases "g_freeholders y") auto
  have new: "htcb (holders y q) \<noteq> Some h" if "hsem (holders y q) = Some s" for q
    using nxsem_findholder_None [OF None, of q] holders_wfD(3) [OF w, of q s] that by simp
  have "hsem (holders y p) = None" using holders_wfD(1) [OF w, of p] ps by simp
  moreover obtain y' where y': "nxsem_allocholder s h y = Some (p, y')" "holders_wf n y'" "sk y' = sk y" "sems_eq y y'"
      "holders y' = (holders y)(p := \<lparr>hsem = Some s, htcb = Some h, counts = 0\<rparr>)"
    using nxsem_allocholder_ok [OF w ps h new] by blast
  ultimately have "still_held y y'" by (auto simp: still_held_def)
  then show ?thesis using None y' by (simp add: nxsem_findorallocateholder_def)
qed

lemma nxsem_add_holder_tcb_ok:
  assumes w: "holders_wf n y" and f: "sem_proto (sems y s) = SEM_PRIO_INHERIT \<Longrightarrow> g_freeholders y \<noteq> []"
  shows "\<exists>y'. nxsem_add_holder_tcb h s y = Some y' \<and> holders_wf n y' \<and> sk y' = sk y \<and> sems_eq y y' \<and> still_held y y' \<and>
    (\<not> is_idle_task (sk y) h \<and> sem_proto (sems y s) = SEM_PRIO_INHERIT \<longrightarrow>
       (\<exists>p. hsem (holders y' p) = Some s \<and> htcb (holders y' p) = Some h))"
proof (cases "\<not> is_idle_task (sk y) h \<and> sem_proto (sems y s) = SEM_PRIO_INHERIT")
  case False
  then have "nxsem_add_holder_tcb h s y = Some y" unfolding nxsem_add_holder_tcb_def by (rule if_not_P)
  with False w show ?thesis by (auto simp: still_held_def)
next
  case True
  then obtain p y1 where y1: "nxsem_findorallocateholder s h y = Some (p, y1)" "holders_wf n y1" "sk y1 = sk y"
      "sems_eq y y1" "still_held y y1" "hsem (holders y1 p) = Some s" "htcb (holders y1 p) = Some h"
    using nxsem_findorallocateholder_ok [OF w, of h s] f by blast
  define y2 where "y2 = upd_holder p (\<lambda>x. x\<lparr>counts := counts x + 1\<rparr>) y1"
  have "holders_wf n y2" "sk y2 = sk y" "sems_eq y y2" "still_held y y2" "hsem (holders y2 p) = Some s" "htcb (holders y2 p) = Some h"
    using y1 holders_wf_counts [OF y1(2)] by (auto simp: y2_def upd_holder_def sems_eq_def still_held_def)
  moreover have "nxsem_add_holder_tcb h s y = Some (if counts (holders y1 p) < SEM_VALUE_MAX then y2 else y1)"
    using True y1(1) by (simp add: nxsem_add_holder_tcb_def y2_def)
  ultimately show ?thesis using y1 by auto
qed

lemma nxsem_release_holder_ok:
  assumes "holders_wf n y"
  shows "holders_wf n (nxsem_release_holder c s y)" "sk (nxsem_release_holder c s y) = sk y"
    "sems (nxsem_release_holder c s y) = sems y" "g_freeholders (nxsem_release_holder c s y) = g_freeholders y"
proof -
  have "nxsem_release_holder c s y = y \<or> (\<exists>p. nxsem_release_holder c s y = upd_holder p (\<lambda>x. x\<lparr>counts := counts x - 1\<rparr>) y)"
    by (auto simp: nxsem_release_holder_def Let_def split: option.split)
  then show "holders_wf n (nxsem_release_holder c s y)" "sk (nxsem_release_holder c s y) = sk y"
    "sems (nxsem_release_holder c s y) = sems y" "g_freeholders (nxsem_release_holder c s y) = g_freeholders y"
    using assms holders_wf_counts [OF assms] by (auto simp: upd_holder_def)
qed

section \<open>Inheriting a priority\<close>

lemma nxsem_boostholderprio_prio:
  assumes "nxsem_boostholderprio c t p y = Some (r, y')"
  shows "prio (sk y) u \<le> prio (sk y') u" "prio (sk y') t = prio (sk y) t"
    "htcb (holders y p) = Some h \<Longrightarrow> prio (sk y) t \<le> prio (sk y') h" "holders y' = holders y" "r = 0"
proof -
  have r: "r = 0" and y': "y' = y \<and> (\<forall>h. htcb (holders y p) = Some h \<longrightarrow> prio (sk y) t \<le> prio (sk y) h) \<or>
      (\<exists>h. htcb (holders y p) = Some h \<and> prio (sk y) h < prio (sk y) t \<and> y' = set_priority c h (prio (sk y) t) y)"
    using assms unfolding nxsem_boostholderprio_def
    by (cases "htcb (holders y p)"; simp add: not_less split: if_splits)+
  have "0 < prio (sk y) t" if "prio (sk y) x < prio (sk y) t" for x using that by (simp add: word_gt_0) auto
  note sp = set_priority_prio [OF this]
  show "prio (sk y) u \<le> prio (sk y') u" using y' by (auto simp: sp)
  show "prio (sk y') t = prio (sk y) t" using y' by (auto simp: sp)
  show "htcb (holders y p) = Some h \<Longrightarrow> prio (sk y) t \<le> prio (sk y') h" using y' by (auto simp: sp)
  show "holders y' = holders y" "r = 0" using r y' by (auto simp: set_priority_def upd_sk_def)
qed

lemma nxsem_boost_loop_prio:
  assumes "foreach_loop (nxsem_boostholderprio c t) ps y = Some (r, y')"
  shows "(\<forall>u. prio (sk y) u \<le> prio (sk y') u) \<and> prio (sk y') t = prio (sk y) t \<and>
    (\<forall>p h. p \<in> set ps \<and> htcb (holders y p) = Some h \<longrightarrow> prio (sk y) t \<le> prio (sk y') h)"
  using assms
proof (induction ps arbitrary: y)
  case Nil
  then show ?case by simp
next
  case (Cons p ps)
  obtain y1 where 1: "nxsem_boostholderprio c t p y = Some (0, y1)"
    using Cons.prems nxsem_boostholderprio_prio(5) by (fastforce simp: bind_eq_Some_conv)
  then have "foreach_loop (nxsem_boostholderprio c t) ps y1 = Some (r, y')" using Cons.prems by simp
  note IH = Cons.IH [OF this] and b = nxsem_boostholderprio_prio [OF 1]
  have "prio (sk y) u \<le> prio (sk y') u" for u using IH b(1) [of u] order_trans by blast
  moreover have "prio (sk y) t \<le> prio (sk y') h" if "htcb (holders y p) = Some h" for h
    using IH b(3) [OF that] order_trans by blast
  ultimately show ?case using IH b(2,4) by auto
qed

section \<open>Blocking and waking a task\<close>

lemma sem_running_nowait: "tstate_of k t = TSTATE_TASK_RUNNING \<Longrightarrow> tlist_blocked ((tcbs k t)\<lparr>waitobj := w\<rparr>) = tlist_blocked (tcbs k t)"
  by (simp add: tlist_blocked_def)

text \<open>The last steps of a wait: the running task leaves its CPU and enters the wait list.\<close>

definition sem_sleep :: "tid \<Rightarrow> oid \<Rightarrow> kernel \<Rightarrow> kernel" where
  "sem_sleep t s k =
     tl_add_prioritized t (L_sem s)
       (upd_tcb t (\<lambda>x. x\<lparr>task_state := TSTATE_WAIT_SEM\<rparr>)
         (nxsched_remove_self t (upd_tcb t (\<lambda>x. x\<lparr>errcode := OK\<rparr>) k)))"

lemma sem_sleep_ok:
  assumes w: "sched_wf k" and t: "tstate_of k t = TSTATE_TASK_RUNNING" "\<not> is_idle_task k t" "waitobj (tcbs k t) = Some (WSem s)"
  shows "sched_wf (sem_sleep t s k)" "ncpus (sem_sleep t s k) = ncpus k" "is_idle_task (sem_sleep t s k) u = is_idle_task k u"
    "mset (tlists (sem_sleep t s k) (L_sem r)) = (if r = s then {#t#} else {#}) + mset (tlists k (L_sem r))"
    "prio (sem_sleep t s k) u = prio k u" "tstate_of (sem_sleep t s k) t = TSTATE_WAIT_SEM"
    "waitobj (tcbs (sem_sleep t s k) t) = Some (WSem s)" "errcode (tcbs (sem_sleep t s k) t) = OK"
proof -
  define k1 where "k1 = upd_tcb t (\<lambda>x. x\<lparr>errcode := OK\<rparr>) k"
  define k2 where "k2 = nxsched_remove_self t k1"
  have 1: "sched_wf k1" "tstate_of k1 t = TSTATE_TASK_RUNNING" "\<not> is_idle_task k1 t"
    using w t by (auto simp: k1_def is_idle_task_def intro: sched_wf_tcb)
  have 2: "sched_wf k2" "tstate_of k2 t = TSTATE_TASK_INVALID"
    unfolding k2_def nxsched_remove_self_def
    by (rule nxsched_remove_running_wf [OF 1], rule nxsched_remove_running_state [OF 1])
  have e: "sched_eq k1 k2" unfolding k2_def nxsched_remove_self_def by (rule nxsched_remove_running_eq)
  have w2: "waitobj (tcbs k2 t) = Some (WSem s)" "prio k2 u = prio k u" "is_idle_task k2 u = is_idle_task k u" "ncpus k2 = ncpus k"
      "tlists k2 (L_sem r) = tlists k (L_sem r)" "errcode (tcbs k2 t) = OK" for u
    using sched_eqD [OF e] sched_eq_globals [OF e] t by (simp_all add: k1_def is_idle_task_def)
  have s: "sem_sleep t s k = nxsched_add_blocked t TSTATE_WAIT_SEM k2"
    using w2(1) by (simp add: sem_sleep_def k1_def [symmetric] k2_def [symmetric] nxsched_add_blocked_def tlist_blocked_def
        tlist_isprioritized_def Let_def)
  show "sched_wf (sem_sleep t s k)"
    unfolding s using 2 w2(1) by (intro nxsched_add_blocked_wf [where l = "L_sem s"]) (simp_all add: tlist_blocked_def)
  show "ncpus (sem_sleep t s k) = ncpus k" "is_idle_task (sem_sleep t s k) u = is_idle_task k u"
    "prio (sem_sleep t s k) u = prio k u" "tstate_of (sem_sleep t s k) t = TSTATE_WAIT_SEM"
    "waitobj (tcbs (sem_sleep t s k) t) = Some (WSem s)" "errcode (tcbs (sem_sleep t s k) t) = OK"
    "mset (tlists (sem_sleep t s k) (L_sem r)) = (if r = s then {#t#} else {#}) + mset (tlists k (L_sem r))"
    using w2 by (auto simp: sem_sleep_def k1_def [symmetric] k2_def [symmetric] tl_add_prioritized_def is_idle_task_def mset_ins_desc)
qed

text \<open>A waiting task leaves the wait list and becomes ready.\<close>

definition sem_wake :: "nat \<Rightarrow> tid \<Rightarrow> oid \<Rightarrow> (frap_tcb_s \<Rightarrow> frap_tcb_s) \<Rightarrow> kernel \<Rightarrow> kernel" where
  "sem_wake c t s f k = snd (nxsched_add_readytorun c t (upd_tcb t f (tl_rem t (L_sem s) k)))"

lemma sem_wake_ok:
  assumes w: "sched_wf k" "c < ncpus k" and t: "t \<in> set (tlists k (L_sem s))"
    and f: "task_state (f (tcbs k t)) = tstate_of k t" "waitobj (f (tcbs k t)) = None" "pid (f (tcbs k t)) = pid (tcbs k t)"
      "sched_priority (f (tcbs k t)) = prio k t"
  shows "sched_wf (sem_wake c t s f k)" "ncpus (sem_wake c t s f k) = ncpus k"
    "is_idle_task (sem_wake c t s f k) u = is_idle_task k u"
    "tlists (sem_wake c t s f k) (L_sem r) = (if r = s then remove1 t (tlists k (L_sem s)) else tlists k (L_sem r))"
    "runnable (sem_wake c t s f k) t" "waitobj (tcbs (sem_wake c t s f k) t) = None"
    "errcode (tcbs (sem_wake c t s f k) t) = errcode (f (tcbs k t))" "prio (sem_wake c t s f k) u = prio k u"
proof -
  define k1 where "k1 = upd_tcb t f (tl_rem t (L_sem s) k)"
  have st: "tstate_of k t = TSTATE_WAIT_SEM" "tlist_blocked (tcbs k t) = Some (L_sem s)"
    using t sem_waiting [OF w(1), of t s] w(1) by (auto simp: tlist_blocked_def)
  have b: "tlist_blocked (f (tcbs k t)) = None" using f st by (simp add: tlist_blocked_def)
  have 1: "sched_wf k1" unfolding k1_def using f st b by (intro delisted_out_wf [OF w(1)]) simp_all
  have 2: "tlist_blocked (tcbs k1 t) = None" "tstate_of k1 t = TSTATE_WAIT_SEM" "c < ncpus k1"
    using b f st w by (simp_all add: k1_def tl_rem_def)
  have i: "\<not> is_idle_task k1 t" using 1 2 by (intro idle_not_ready(1)) (auto simp: sched_wf_def)
  have e: "sched_eq k1 (sem_wake c t s f k)" unfolding sem_wake_def k1_def by (rule nxsched_add_readytorun_eq)
  show "sched_wf (sem_wake c t s f k)" "runnable (sem_wake c t s f k) t"
    unfolding sem_wake_def k1_def [symmetric] using nxsched_add_readytorun_wf [OF 1 2(3,1)] runnable_add_readytorun [OF 1 2(3,1)] 2 i
    by simp_all
  show "ncpus (sem_wake c t s f k) = ncpus k"
    "tlists (sem_wake c t s f k) (L_sem r) = (if r = s then remove1 t (tlists k (L_sem s)) else tlists k (L_sem r))"
    using sched_eq_globals [OF e] by (simp_all add: k1_def tl_rem_def)
  then show "is_idle_task (sem_wake c t s f k) u = is_idle_task k u" "waitobj (tcbs (sem_wake c t s f k) t) = None"
    "errcode (tcbs (sem_wake c t s f k) t) = errcode (f (tcbs k t))" "prio (sem_wake c t s f k) u = prio k u"
    using sched_eqD [OF e] f by (simp_all add: k1_def tl_rem_def is_idle_task_def)
qed

text \<open>What an operation of the scheduler leaves alone of the waiting tasks.\<close>

definition calm :: "kernel \<Rightarrow> kernel \<Rightarrow> bool" where
  "calm k k' \<longleftrightarrow>
     sched_wf k' \<and> ncpus k' = ncpus k \<and> (\<forall>s. mset (tlists k' (L_sem s)) = mset (tlists k (L_sem s))) \<and>
     (\<forall>t. is_idle_task k' t = is_idle_task k t \<and> runnable k' t = runnable k t \<and> waitobj (tcbs k' t) = waitobj (tcbs k t) \<and>
        errcode (tcbs k' t) = errcode (tcbs k t))"

lemma calm_trans [trans]: "calm k k' \<Longrightarrow> calm k' k'' \<Longrightarrow> calm k k''"
  by (simp add: calm_def)

lemma calmD:
  assumes "calm k k'"
  shows "sched_wf k'" "ncpus k' = ncpus k" "mset (tlists k' (L_sem s)) = mset (tlists k (L_sem s))"
    "is_idle_task k' t = is_idle_task k t" "runnable k' t = runnable k t" "waitobj (tcbs k' t) = waitobj (tcbs k t)"
    "errcode (tcbs k' t) = errcode (tcbs k t)"
  using assms by (simp_all add: calm_def)

lemma calm_reprio:
  assumes "reprio c k k'"
  shows "calm k k'"
  by (simp add: calm_def reprioD [OF assms])

lemma calm_lock: "sched_wf k \<Longrightarrow> calm k (sched_lock c k)"
  using sched_lock_wf [of k c] by (auto simp: calm_def sched_lock_def is_idle_task_def runnable_def)

lemma calm_lockcount: "sched_wf k \<Longrightarrow> calm k (upd_tcb t (\<lambda>x. x\<lparr>lockcount := f x\<rparr>) k)"
  by (auto simp: calm_def is_idle_task_def runnable_def intro: sched_wf_tcb)

lemma calm_unlock:
  assumes w: "sched_wf k" and c: "c < ncpus k"
  shows "calm k (snd (sched_unlock c k))"
proof -
  define t where "t = this_task c k"
  have cpu: "cpu (tcbs k t) = c"
    using w c by (simp add: t_def this_task_def current_task_def sched_wf_def cpus_wf_def)
  define k1 where "k1 = upd_tcb t (\<lambda>x. x\<lparr>lockcount := 0\<rparr>) k"
  have 1: "calm k k1" unfolding k1_def by (rule calm_lockcount [OF w])
  have "calm k1 (snd (nxsched_deliver_task c c SWITCH_HIGHER k1))"
    using calmD(1,2) [OF 1] c by (intro calm_reprio [where c = c] reprio_deliver) simp_all
  then have "calm k (snd (nxsched_deliver_task c c SWITCH_HIGHER k1))" by (rule calm_trans [OF 1])
  then show ?thesis using 1 calm_lockcount [OF w, of t "\<lambda>x. lockcount x - 1"] cpu
    unfolding sched_unlock_def Let_def t_def [symmetric] k1_def [symmetric]
    by (auto simp: k1_def split: option.split)
qed

section \<open>Counts\<close>

lemma sint_step:
  fixes v :: u32
  shows "sint v < SEM_VALUE_MAX \<Longrightarrow> sint (v + 1) = sint v + 1" "- (2 ^ 31) < sint v \<Longrightarrow> sint (v - 1) = sint v - 1"
proof -
  have r: "- (2 ^ 31) \<le> sint v" "sint v < 2 ^ 31" using sint_ge [of v] sint_lt [of v] by simp_all
  show "sint v < SEM_VALUE_MAX \<Longrightarrow> sint (v + 1) = sint v + 1" "- (2 ^ 31) < sint v \<Longrightarrow> sint (v - 1) = sint v - 1"
    using r by (simp_all add: sint_word_ariths SEM_VALUE_MAX_def signed_take_bit_int_eq_self)
qed

lemma set_sval_sel [simp]:
  "sk (set_sval s v y) = sk y" "holders (set_sval s v y) = holders y" "holdsem (set_sval s v y) = holdsem y"
  "g_freeholders (set_sval s v y) = g_freeholders y" "sems (set_sval s v y) = (sems y)(s := (sems y s)\<lparr>sval := v\<rparr>)"
  by (simp_all add: sem_upd_defs)

lemma set_sval_holders [simp]: "holders_wf n (set_sval s v y) = holders_wf n y"
proof -
  have "hhead (sems (set_sval s v y) r) = hhead (sems y r)" for r by simp
  then show ?thesis using holders_wf_cong [of n y "set_sval s v y"] holders_wf_cong [of n "set_sval s v y" y] by auto
qed

lemma sval_flags [simp]:
  "NXSEM_IS_MUTEX (x\<lparr>sval := v\<rparr>) = NXSEM_IS_MUTEX x" "sem_proto (x\<lparr>sval := v\<rparr>) = sem_proto x"
  by (simp_all add: NXSEM_IS_MUTEX_def sem_proto_def)

lemma count_waiters:
  "count_ok y s \<Longrightarrow> \<not> NXSEM_IS_MUTEX (sems y s) \<Longrightarrow> SEM_WAITLIST s y = [] \<longleftrightarrow> 0 \<le> semcount (sems y s)"
  by (cases "SEM_WAITLIST s y") (auto simp: count_ok_def)

lemma count_ok_other:
  assumes "count_ok y r" "sval (sems y' r) = sval (sems y r)" "sflags (sems y' r) = sflags (sems y r)"
    "mset (SEM_WAITLIST r y') = mset (SEM_WAITLIST r y)"
  shows "count_ok y' r"
  using assms mset_eq_length [OF assms(4)] by (simp add: count_ok_def NXSEM_IS_MUTEX_def semcount_def)

lemma count_ok_set:
  assumes "\<not> NXSEM_IS_MUTEX (sems y s) \<Longrightarrow> int (size (mset (SEM_WAITLIST s y'))) = max 0 (- sint v)"
    "sval (sems y' s) = v" "sflags (sems y' s) = sflags (sems y s)"
  shows "count_ok y' s"
  using assms by (auto simp: count_ok_def NXSEM_IS_MUTEX_def semcount_def)

section \<open>Waiting\<close>

lemma nxsem_boost_priority_ok:
  assumes w: "holders_wf n y" "sched_wf (sk y)" "c < ncpus (sk y)"
  shows "\<exists>y'. nxsem_boost_priority c s y = Some y' \<and> semadj n c y y' \<and>
    (\<forall>p h. hsem (holders y p) = Some s \<and> htcb (holders y p) = Some h \<longrightarrow> prio (sk y) (this_task c (sk y)) \<le> prio (sk y') h)"
proof -
  obtain r y' where y': "foreach_loop (nxsem_boostholderprio c (this_task c (sk y))) (hhead (sems y s)) y = Some (r, y')" "semadj n c y y'"
    using boost.foreach_loop_ok [OF w holders_wfD(4) [OF w(1)], of s] holders_wfD(3) [OF w(1)] by blast
  then show ?thesis using nxsem_boost_loop_prio [OF y'(1)] holders_wfD(3) [OF w(1)]
    by (auto simp: nxsem_boost_priority_def nxsem_foreachholder_def)
qed

lemma sched_lock_locks:
  assumes "0 \<le> sint (lockcount (tcbs k (this_task c k)))" "sint (lockcount (tcbs k (this_task c k))) < 2 ^ 15 - 1"
  shows "nxsched_islocked_tcb (tcbs (sched_lock c k) (this_task c k))" "this_task c (sched_lock c k) = this_task c k"
  using assms
  by (simp_all add: sched_lock_def nxsched_islocked_tcb_def sint_word_ariths signed_take_bit_int_eq_self this_task_def current_task_def)

lemma add_blocking_holder_ok:
  assumes "holders_wf n y" "sem_proto (sems y s) = SEM_PRIO_INHERIT \<Longrightarrow> g_freeholders y \<noteq> []"
  shows "\<exists>y'. (case holder of Some h \<Rightarrow> nxsem_add_holder_tcb h s y | None \<Rightarrow> Some y) = Some y' \<and>
    holders_wf n y' \<and> sk y' = sk y \<and> sems_eq y y' \<and> still_held y y' \<and>
    (\<forall>h. holder = Some h \<and> \<not> is_idle_task (sk y) h \<and> sem_proto (sems y s) = SEM_PRIO_INHERIT \<longrightarrow>
       (\<exists>p. hsem (holders y' p) = Some s \<and> htcb (holders y' p) = Some h))"
  using nxsem_add_holder_tcb_ok [OF assms] assms(1)
  by (cases holder) (simp_all add: still_held_def)

lemma boost_waited_ok:
  assumes w: "holders_wf n y" "sched_wf (sk y)" "c < ncpus (sk y)" and t: "t = this_task c (sk y)"
    and lc: "0 \<le> sint (lockcount (tcbs (sk y) t))" "sint (lockcount (tcbs (sk y) t)) < 2 ^ 15 - 1"
  shows "\<exists>y'. (if inherit then nxsem_boost_priority c s (upd_sk (sched_lock c) y) else Some y) = Some y' \<and>
    holders_wf n y' \<and> calm (sk y) (sk y') \<and> sems_eq y y' \<and> this_task c (sk y') = t \<and>
    (inherit \<longrightarrow> (\<forall>p h. hsem (holders y p) = Some s \<and> htcb (holders y p) = Some h \<longrightarrow> prio (sk y) t \<le> prio (sk y') h))"
proof (cases inherit)
  case False
  then show ?thesis using w t reprio_refl [OF w(2)] calm_reprio by auto
next
  case True
  define y1 where "y1 = upd_sk (sched_lock c) y"
  have c1: "calm (sk y) (sk y1)" using calm_lock [OF w(2)] by (simp add: y1_def upd_sk_def)
  have e: "sems y1 = sems y" "holders y1 = holders y" by (simp_all add: y1_def upd_sk_def)
  have h1: "holders_wf n y1"
    using w(1) by (rule holders_wf_cong) (simp_all add: y1_def upd_sk_def sched_lock_def is_idle_task_def)
  have p1: "prio (sk y1) u = prio (sk y) u" for u by (simp add: y1_def upd_sk_def sched_lock_def)
  have l1: "nxsched_islocked_tcb (tcbs (sk y1) (this_task c (sk y1)))" "this_task c (sk y1) = t"
    using sched_lock_locks [of "sk y" c] lc t by (simp_all add: y1_def upd_sk_def)
  obtain y' where y': "nxsem_boost_priority c s y1 = Some y'" "semadj n c y1 y'"
      "\<forall>p h. hsem (holders y1 p) = Some s \<and> htcb (holders y1 p) = Some h \<longrightarrow> prio (sk y1) t \<le> prio (sk y') h"
    using nxsem_boost_priority_ok [OF h1, of c s] calmD(1,2) [OF c1] w(3) l1 by auto
  have "this_task c (sk y') = t" using reprioD(12) [OF semadjD(1) [OF y'(2)] l1(1)] l1(2) by simp
  moreover have "calm (sk y) (sk y')" using calm_trans [OF c1 calm_reprio [OF semadjD(1) [OF y'(2)]]] .
  moreover have "sems_eq y y'" using semadjD(3) [OF y'(2)] e by (simp add: sems_eq_def)
  ultimately show ?thesis using True y' semadjD(2) [OF y'(2)] e p1 by (simp add: y1_def [symmetric])
qed

lemma nxsem_block_ok:
  assumes w: "holders_wf n y" "sched_wf (sk y)" "c < ncpus (sk y)"
    and f: "sem_proto (sems y s) = SEM_PRIO_INHERIT \<Longrightarrow> g_freeholders y \<noteq> []"
    and t: "t = this_task c (sk y)" "\<not> is_idle_task (sk y) t"
    and lc: "0 \<le> sint (lockcount (tcbs (sk y) t))" "sint (lockcount (tcbs (sk y) t)) < 2 ^ 15 - 1"
  shows "\<exists>y'. nxsem_block c s holder y = Some y' \<and> holders_wf n y' \<and> sched_wf (sk y') \<and> sems_eq y y' \<and>
    (\<forall>r. mset (SEM_WAITLIST r y') = (if r = s then {#t#} else {#}) + mset (SEM_WAITLIST r y)) \<and>
    tstate_of (sk y') t = TSTATE_WAIT_SEM \<and> waitobj (tcbs (sk y') t) = Some (WSem s) \<and>
    (sem_proto (sems y s) = SEM_PRIO_INHERIT \<longrightarrow>
       (\<forall>p h. hsem (holders y p) = Some s \<and> htcb (holders y p) = Some h \<longrightarrow> prio (sk y) t \<le> prio (sk y') h) \<and>
       (\<forall>h. holder = Some h \<and> \<not> is_idle_task (sk y) h \<longrightarrow> prio (sk y) t \<le> prio (sk y') h))"
proof -
  let ?inherit = "sem_proto (sems y s) = SEM_PRIO_INHERIT"
  define y1 where "y1 = upd_sk (upd_tcb t (\<lambda>x. x\<lparr>waitobj := Some (WSem s)\<rparr>)) y"
  have run: "tstate_of (sk y) t = TSTATE_TASK_RUNNING"
    using w t current_running [of "sk y" c] by (simp add: this_task_def sched_wf_def)
  have 1: "sched_wf (sk y1)" "this_task c (sk y1) = t" "c < ncpus (sk y1)" "prio (sk y1) u = prio (sk y) u"
      "is_idle_task (sk y1) u = is_idle_task (sk y) u" "holders y1 = holders y" "sems y1 = sems y" "tlists (sk y1) = tlists (sk y)"
      "g_freeholders y1 = g_freeholders y" "waitobj (tcbs (sk y1) t) = Some (WSem s)"
      "lockcount (tcbs (sk y1) t) = lockcount (tcbs (sk y) t)" for u
    using sched_wf_tcb_list [OF w(2)] sem_running_nowait [OF run] t(1) w(3)
    by (simp_all add: y1_def upd_sk_def is_idle_task_def this_task_def current_task_def)
  have h1: "holders_wf n y1" using w(1) by (rule holders_wf_cong) (simp_all add: y1_def upd_sk_def is_idle_task_def)
  have f1: "sem_proto (sems y1 s) = SEM_PRIO_INHERIT \<Longrightarrow> g_freeholders y1 \<noteq> []" using f 1(7,9) by simp
  obtain y2 where y2: "(case holder of Some h \<Rightarrow> nxsem_add_holder_tcb h s y1 | None \<Rightarrow> Some y1) = Some y2"
      "holders_wf n y2" "sk y2 = sk y1" "sems_eq y1 y2" "still_held y1 y2"
      "\<forall>h. holder = Some h \<and> \<not> is_idle_task (sk y1) h \<and> sem_proto (sems y1 s) = SEM_PRIO_INHERIT \<longrightarrow>
         (\<exists>p. hsem (holders y2 p) = Some s \<and> htcb (holders y2 p) = Some h)"
    using add_blocking_holder_ok [where holder = holder and s = s, OF h1 f1] by blast
  have w2: "sched_wf (sk y2)" "c < ncpus (sk y2)" "t = this_task c (sk y2)" using 1 y2(3) by simp_all
  have l2: "0 \<le> sint (lockcount (tcbs (sk y2) t))" "sint (lockcount (tcbs (sk y2) t)) < 2 ^ 15 - 1" using lc 1(11) y2(3) by simp_all
  obtain y3 where y3: "(if ?inherit then nxsem_boost_priority c s (upd_sk (sched_lock c) y2) else Some y2) = Some y3"
      "holders_wf n y3" "calm (sk y2) (sk y3)" "sems_eq y2 y3" "this_task c (sk y3) = t"
      "?inherit \<longrightarrow> (\<forall>p h. hsem (holders y2 p) = Some s \<and> htcb (holders y2 p) = Some h \<longrightarrow> prio (sk y2) t \<le> prio (sk y3) h)"
    using boost_waited_ok [OF y2(2) w2 l2, where inherit = ?inherit and s = s] by blast
  define y4 where "y4 = y3\<lparr>sk := sem_sleep t s (sk y3)\<rparr>"
  have y4: "nxsem_block c s holder y = Some y4"
    unfolding nxsem_block_def Let_def t(1) [symmetric] y1_def [symmetric] y2(1) Option.bind.bind_lunit y3(1)
    by (simp add: y4_def sem_sleep_def upd_sk_def)
  have w3: "sched_wf (sk y3)" "tstate_of (sk y3) t = TSTATE_TASK_RUNNING" "\<not> is_idle_task (sk y3) t" "waitobj (tcbs (sk y3) t) = Some (WSem s)"
    using calmD [OF y3(3)] y2(3) 1 t(2) current_running [of "sk y3" c] y3(5) by (simp_all add: this_task_def sched_wf_def)
  note sl = sem_sleep_ok [OF w3]
  have "holders_wf n y4" using y3(2) by (rule holders_wf_cong) (simp_all add: y4_def sl)
  moreover have "sems_eq y y4" using y2(4) y3(4) 1(7) by (simp add: sems_eq_def y4_def)
  moreover have "mset (SEM_WAITLIST r y4) = (if r = s then {#t#} else {#}) + mset (SEM_WAITLIST r y)" for r
    using calmD(3) [OF y3(3), of r] y2(3) 1(8) by (simp add: y4_def sl)
  moreover have "prio (sk y) t \<le> prio (sk y4) h"
    if "?inherit" "hsem (holders y2 p) = Some s" "htcb (holders y2 p) = Some h" for p h
    using y3(6) that y2(3) 1(4) by (auto simp: y4_def sl)
  ultimately show ?thesis
    using y4 sl(1,6,7) y2(5,6) 1 by (auto simp: y4_def still_held_def)
qed

end
