(* ===== verification/Sem_Ops.thy ===== *)
theory Sem_Ops
  imports Sem_Inv
begin

text \<open>
  What the operations of the semaphores do: each keeps the invariant, and a wait, a post, an interrupted wait
  and the recovery of an exiting task have the effect on the count, the wait list and the tasks
  that their callers rely on.
\<close>

section \<open>Waking the first waiter\<close>

text \<open>
  What a post achieves when the wait list is \<open>wl\<close>: nothing happens to the tasks when it is empty, else its first
  task can run again.
\<close>

definition handed_over :: "oid \<Rightarrow> tid list \<Rightarrow> semsys \<Rightarrow> semsys \<Rightarrow> bool" where
  "handed_over s wl y y' \<longleftrightarrow>
     ncpus (sk y') = ncpus (sk y) \<and>
     (\<forall>r. mset (SEM_WAITLIST r y') = mset (if r = s then tl wl else SEM_WAITLIST r y)) \<and>
     (\<forall>t. wl \<noteq> [] \<and> t = hd wl \<longrightarrow> runnable (sk y') t \<and> waitobj (tcbs (sk y') t) = None)"

lemma handed_over_calm: "handed_over s wl y y' \<Longrightarrow> calm (sk y') (sk y'') \<Longrightarrow> handed_over s wl y y''"
  by (simp add: handed_over_def calm_def)

text \<open>The mutex holder a post sets when it hands a mutex to the first of the tasks \<open>wl\<close>.\<close>

definition next_holder :: "semsys \<Rightarrow> tid list \<Rightarrow> u32" where
  "next_holder y wl = word_of_int (pid (tcbs (sk y) (hd wl))) OR (if tl wl = [] then 0 else NXSEM_MBLOCKING_BIT)"

definition handed_sems :: "oid \<Rightarrow> tid list \<Rightarrow> semsys \<Rightarrow> semsys" where
  "handed_sems s wl y = (if NXSEM_IS_MUTEX (sems y s) \<and> wl \<noteq> [] then set_sval s (next_holder y wl) y else y)"

lemma nxsem_wake_first_none: "SEM_WAITLIST s y = [] \<Longrightarrow> nxsem_wake_first c s y = Some (None, False, y)"
  by (simp add: nxsem_wake_first_def)

lemma nxsem_wake_first_ok:
  assumes w: "holders_wf n y" "sched_wf (sk y)" "c < ncpus (sk y)"
    and f: "sem_proto (sems y s) = SEM_PRIO_INHERIT \<Longrightarrow> g_freeholders y \<noteq> []"
    and l: "SEM_WAITLIST s y = t # ts"
  shows "\<exists>sw y'. nxsem_wake_first c s y = Some (Some t, sw, y') \<and> holders_wf n y' \<and> sched_wf (sk y') \<and>
    ncpus (sk y') = ncpus (sk y) \<and> handed_over s (t # ts) y y' \<and> sems_eq (handed_sems s (t # ts) y) y'"
proof -
  define y1 where "y1 = upd_sk (upd_list (L_sem s) (\<lambda>_. ts)) y"
  have e1: "sems y1 = sems y" "g_freeholders y1 = g_freeholders y" "is_idle_task (sk y1) u = is_idle_task (sk y) u" for u
    by (simp_all add: y1_def upd_sk_def is_idle_task_def)
  have h1: "holders_wf n y1" using w(1) by (rule holders_wf_cong) (simp_all add: y1_def upd_sk_def is_idle_task_def)
  define v where "v = next_holder y (t # ts)"
  have v: "mholder_of s t y1 = v" by (simp add: mholder_of_def v_def next_holder_def y1_def upd_sk_def)
  obtain y2 where y2: "(if NXSEM_IS_MUTEX (sems y1 s) then Some (set_sval s v y1) else nxsem_add_holder_tcb t s y1) = Some y2"
      "holders_wf n y2" "sk y2 = sk y1" "sems_eq (if NXSEM_IS_MUTEX (sems y s) then set_sval s v y1 else y1) y2"
    using nxsem_add_holder_tcb_ok [OF h1, of s t] f h1 e1 by (cases "NXSEM_IS_MUTEX (sems y s)") auto
  define f where "f = (\<lambda>x :: frap_tcb_s. x\<lparr>waitobj := None\<rparr>)"
  define y3 where "y3 = upd_sk (upd_tcb t f) y2"
  have k3: "sk y3 = upd_tcb t f (tl_rem t (L_sem s) (sk y))"
    using l y2(3) by (simp add: y3_def y1_def upd_sk_def tl_rem_def upd_list_def)
  define y4 where "y4 = y3\<lparr>sk := sem_wake c t s f (sk y)\<rparr>"
  have "nxsem_wake_first c s y = Some (Some t, fst (nxsched_add_readytorun c t (sk y3)), y4)"
    using y2(1) unfolding nxsem_wake_first_def l list.case Let_def y1_def [symmetric] v
    by (simp add: f_def [symmetric] y3_def [symmetric] y4_def sem_wake_def k3 split: prod.split)
  moreover have t: "t \<in> set (SEM_WAITLIST s y)" using l by simp
  have ff: "task_state (f (tcbs (sk y) t)) = tstate_of (sk y) t" "waitobj (f (tcbs (sk y) t)) = None"
      "pid (f (tcbs (sk y) t)) = pid (tcbs (sk y) t)" "sched_priority (f (tcbs (sk y) t)) = prio (sk y) t"
    by (simp_all add: f_def)
  note sw = sem_wake_ok [where f = f, OF w(2,3) t ff]
  have "holders_wf n y4" using y2(2)
    by (rule holders_wf_cong) (simp_all add: y4_def y3_def upd_sk_def sw y2(3) e1)
  moreover have "sems_eq (handed_sems s (t # ts) y) y4"
    using y2(4) by (simp add: sems_eq_def handed_sems_def v_def [symmetric] y4_def y3_def upd_sk_def e1 split: if_splits)
  moreover have "handed_over s (t # ts) y y4"
    using sw(2,5,6) by (simp add: handed_over_def y4_def sw l)
  ultimately show ?thesis using sw(1,2) by (simp add: y4_def)
qed

section \<open>Posting\<close>

lemma nxsem_restore_baseprio_ok:
  assumes w: "holders_wf n y" "sched_wf (sk y)" "c < ncpus (sk y)"
  shows "\<exists>y'. nxsem_restore_baseprio c stcb s y = Some y' \<and> semadj n c y y'"
proof (cases stcb)
  case None
  then show ?thesis using freecount0.foreachholder_ok [OF w] by (auto simp: nxsem_restore_baseprio_def)
next
  case (Some t)
  obtain y1 where 1: "nxsem_foreachholder s (nxsem_restoreholderprio_others c s) y = Some y1" "semadj n c y y1"
    using restore_others.foreachholder_ok [OF w] by blast
  obtain y2 where 2: "nxsem_foreachholder s (nxsem_restoreholderprio_self c s) y1 = Some y2" "semadj n c y1 y2"
    using restore_self.foreachholder_ok [of n y1 c s] semadjD(2,4,5) [OF 1(2)] w(3) by auto
  show ?thesis using Some 1(1) 2(1) semadj_trans [OF 1(2) 2(2)] by (simp add: nxsem_restore_baseprio_def)
qed

text \<open>The end of a post: priorities are restored and preemption is allowed again.\<close>

lemma post_finish_ok:
  assumes w: "holders_wf n y" "sched_wf (sk y)" "c < ncpus (sk y)"
  shows "\<exists>y'. (if inherit then nxsem_restore_baseprio c stcb s y else Some y) = Some y' \<and>
    (\<forall>sw k. sched_unlock c (sk y') = (sw, k) \<longrightarrow>
       holders_wf n (y'\<lparr>sk := k\<rparr>) \<and> calm (sk y) k \<and> sems_eq y (y'\<lparr>sk := k\<rparr>))"
proof -
  obtain y' where y': "(if inherit then nxsem_restore_baseprio c stcb s y else Some y) = Some y'" "semadj n c y y'"
    using nxsem_restore_baseprio_ok [OF w, of stcb s] semadj_refl [OF w(2,1)] by (cases inherit) auto
  have u: "calm (sk y') (snd (sched_unlock c (sk y')))" using calm_unlock semadjD(4,5) [OF y'(2)] w(3) by simp
  have "calm (sk y) (snd (sched_unlock c (sk y')))"
    using calm_trans [OF calm_reprio [OF semadjD(1) [OF y'(2)]] u] .
  moreover have "holders_wf n (y'\<lparr>sk := snd (sched_unlock c (sk y'))\<rparr>)"
    using semadjD(2) [OF y'(2)] by (rule holders_wf_cong) (simp_all add: calmD(4) [OF u])
  ultimately show ?thesis using y' semadjD(3) [OF y'(2)] by (auto simp: sems_eq_def)
qed

lemma post_wake_ok:
  assumes w: "holders_wf n y" "sched_wf (sk y)" "c < ncpus (sk y)"
    and f: "sem_proto (sems y s) = SEM_PRIO_INHERIT \<Longrightarrow> g_freeholders y \<noteq> []"
    and b: "blocking \<or> SEM_WAITLIST s y = []"
  shows "\<exists>stcb sw y'. (if blocking then nxsem_wake_first c s y else Some (None, False, y)) = Some (stcb, sw, y') \<and>
    holders_wf n y' \<and> sched_wf (sk y') \<and> ncpus (sk y') = ncpus (sk y) \<and> handed_over s (SEM_WAITLIST s y) y y' \<and>
    sems_eq (handed_sems s (SEM_WAITLIST s y) y) y'"
proof (cases "SEM_WAITLIST s y")
  case Nil
  then show ?thesis using w nxsem_wake_first_none [where c = c, OF Nil] by (auto simp: handed_over_def handed_sems_def)
next
  case (Cons t ts)
  then have "blocking" using b by simp
  then show ?thesis using nxsem_wake_first_ok [OF w f Cons] Cons by auto
qed

lemma nxsem_post_release_ok:
  assumes w: "holders_wf n y" "sched_wf (sk y)" "c < ncpus (sk y)"
    and f: "sem_proto (sems y s) = SEM_PRIO_INHERIT \<Longrightarrow> g_freeholders y \<noteq> []"
    and p: "sem_proto (sems y s) \<noteq> SEM_PRIO_PROTECT" and b: "blocking \<or> SEM_WAITLIST s y = []"
  shows "\<exists>sw y'. nxsem_post_release c s blocking y = Some (sw, y') \<and> holders_wf n y' \<and> sched_wf (sk y') \<and>
    handed_over s (SEM_WAITLIST s y) y y' \<and> sems_eq (handed_sems s (SEM_WAITLIST s y) y) y'"
proof -
  define wl where "wl = SEM_WAITLIST s y"
  define y1 where "y1 = (if \<not> NXSEM_IS_MUTEX (sems y s) \<or> blocking then nxsem_release_holder c s y else y)"
  have 1: "holders_wf n y1" "sk y1 = sk y" "sems y1 = sems y" "g_freeholders y1 = g_freeholders y"
    using nxsem_release_holder_ok [OF w(1)] w(1) by (simp_all add: y1_def)
  let ?none = "sem_proto (sems y s) = SEM_PRIO_NONE"
  define y2 where "y2 = (if \<not> ?none then upd_sk (sched_lock c) y1 else y1)"
  have c2: "calm (sk y) (sk y2)" and 2: "sems y2 = sems y" "sem_proto (sems y2 s) = SEM_PRIO_INHERIT \<Longrightarrow> g_freeholders y2 \<noteq> []" "SEM_WAITLIST r y2 = SEM_WAITLIST r y"
      "pid (tcbs (sk y2) u) = pid (tcbs (sk y) u)" for r u
    using 1 f calm_lock [OF w(2)] calm_reprio [OF reprio_refl [OF w(2)]]
    by (auto simp: y2_def upd_sk_def sched_lock_def)
  have h2: "holders_wf n y2" using 1(1)
    by (rule holders_wf_cong) (simp_all add: y2_def upd_sk_def sched_lock_def is_idle_task_def)
  have w2: "sched_wf (sk y2)" "c < ncpus (sk y2)" using calmD(1,2) [OF c2] w(3) by simp_all
  have b2: "blocking \<or> SEM_WAITLIST s y2 = []" using b 2(3) by simp
  obtain stcb sw y3 where y3: "(if blocking then nxsem_wake_first c s y2 else Some (None, False, y2)) = Some (stcb, sw, y3)"
      "holders_wf n y3" "sched_wf (sk y3)" "ncpus (sk y3) = ncpus (sk y2)" "handed_over s wl y2 y3" "sems_eq (handed_sems s wl y2) y3"
    using post_wake_ok [OF h2 w2 2(2) b2] 2(3) by (auto simp: wl_def)
  have w3: "c < ncpus (sk y3)" using y3(4) w2 by simp
  have h3: "handed_over s wl y y3" "sems_eq (handed_sems s wl y) y3"
    using y3(5,6) 2 calmD(2) [OF c2] by (auto simp: handed_over_def handed_sems_def next_holder_def sems_eq_def)
  obtain y4 where y4: "(if sem_proto (sems y s) = SEM_PRIO_INHERIT then nxsem_restore_baseprio c stcb s y3 else Some y3) = Some y4"
      "\<And>sw k. sched_unlock c (sk y4) = (sw, k) \<Longrightarrow> holders_wf n (y4\<lparr>sk := k\<rparr>) \<and> calm (sk y3) k \<and> sems_eq y3 (y4\<lparr>sk := k\<rparr>)"
    using post_finish_ok [OF y3(2,3) w3] by blast
  obtain sw' k where u: "sched_unlock c (sk y4) = (sw', k)" by fastforce
  have post: "nxsem_post_release c s blocking y = (if ?none then Some (sw, y3) else Some (sw \<or> sw', y4\<lparr>sk := k\<rparr>))"
    using p unfolding nxsem_post_release_def Let_def y1_def [symmetric] 1(3) y2_def [symmetric] y3(1) Option.bind.bind_lunit prod.case
      if_not_P [OF p] y4(1) u by simp
  have "calm (sk y3) k" "holders_wf n (y4\<lparr>sk := k\<rparr>)" "sems_eq y3 (y4\<lparr>sk := k\<rparr>)" using y4(2) [OF u] by simp_all
  with post y3(2,3) h3 handed_over_calm [OF h3(1), of "y4\<lparr>sk := k\<rparr>"] sems_eq_trans [OF h3(2)] calmD(1) show ?thesis
    unfolding wl_def by auto
qed

lemma sem_invD:
  assumes "sem_inv n y"
  shows "sched_wf (sk y)" "holders_wf n y" "count_ok y s"
  using assms by (simp_all add: sem_inv_def)

text \<open>The invariant, from one count and the wait lists that did not change.\<close>

lemma sem_invI:
  assumes "sem_inv n y" "sched_wf (sk y')" "holders_wf n y'" "count_ok y' s"
    and "\<And>r. r \<noteq> s \<Longrightarrow> mset (SEM_WAITLIST r y') = mset (SEM_WAITLIST r y)"
    and "sems_eq (set_sval s v y) y'"
  shows "sem_inv n y'"
proof -
  have "count_ok y' r" if "r \<noteq> s" for r
    using sems_eqD(1,2) [OF assms(6), of r] that assms(5) [OF that]
    by (intro count_ok_other [OF sem_invD(3) [OF assms(1)]]) simp_all
  then have "count_ok y' r" for r using assms(4) by (cases "r = s") auto
  then show ?thesis using assms(2,3) by (simp add: sem_inv_def)
qed

lemma handed_set_sval [simp]:
  "handed_over s wl (set_sval r v y) y' = handed_over s wl y y'" "next_holder (set_sval r v y) wl = next_holder y wl"
  by (simp_all add: handed_over_def next_holder_def)

lemma sems_eq_set_sval:
  assumes "sems_eq (set_sval s v y) y'"
  shows "sval (sems y' s) = v" "sflags (sems y' r) = sflags (sems y r)" "NXSEM_IS_MUTEX (sems y' r) = NXSEM_IS_MUTEX (sems y r)"
    "semcount (sems y' s) = sint v"
  using sems_eqD(1,2,5,7) [OF assms, of s] sems_eqD(1,2,5,7) [OF assms, of r] by (auto simp: semcount_def)

lemma hhead_sval:
  "(x :: sem_s)\<lparr>hhead := []\<rparr> = z\<lparr>hhead := []\<rparr> \<Longrightarrow> x\<lparr>sval := v, hhead := []\<rparr> = z\<lparr>sval := v, hhead := []\<rparr>"
  by (cases x; cases z; simp)

lemma sems_eq_both:
  assumes "sems_eq y y'"
  shows "sems_eq (set_sval s v y) (set_sval s v y')"
proof -
  have e: "(sems y' r)\<lparr>hhead := []\<rparr> = (sems y r)\<lparr>hhead := []\<rparr>" for r using assms by (simp add: sems_eq_def)
  show ?thesis unfolding sems_eq_def set_sval_sel
  proof
    fix r
    show "((sems y')(s := (sems y' s)\<lparr>sval := v\<rparr>)) r\<lparr>hhead := []\<rparr> = ((sems y)(s := (sems y s)\<lparr>sval := v\<rparr>)) r\<lparr>hhead := []\<rparr>"
      using e [of r] hhead_sval [OF e [of s]] by (cases "r = s") simp_all
  qed
qed

lemma set_sval_same [simp]: "set_sval s (sval (sems y s)) y = y"
  by (simp add: sem_upd_defs)

lemma nxsem_post_slow_count:
  assumes i: "sem_inv n y" and c: "c < ncpus (sk y)" and f: "sem_proto (sems y s) = SEM_PRIO_INHERIT \<Longrightarrow> g_freeholders y \<noteq> []"
    and m: "\<not> NXSEM_IS_MUTEX (sems y s)" and p: "sem_proto (sems y s) \<noteq> SEM_PRIO_PROTECT"
    and v: "semcount (sems y s) < SEM_VALUE_MAX"
  shows "\<exists>sw y'. nxsem_post_slow c s y = Some (OK, sw, y') \<and> sem_inv n y' \<and>
    semcount (sems y' s) = semcount (sems y s) + 1 \<and> handed_over s (SEM_WAITLIST s y) y y' \<and> sflags (sems y' s) = sflags (sems y s)"
proof -
  define v where "v = sval (sems y s) + 1"
  define y1 where "y1 = set_sval s v y"
  define b where "b \<longleftrightarrow> sint (sval (sems y s)) < 0"
  have s1: "sint v = semcount (sems y s) + 1" using sint_step(1) v by (simp add: v_def semcount_def)
  have wl: "SEM_WAITLIST s y = [] \<longleftrightarrow> \<not> b"
    using count_waiters [OF sem_invD(3) [OF i] m] by (simp add: b_def semcount_def not_less)
  obtain sw y' where y': "nxsem_post_release c s b y1 = Some (sw, y')" "holders_wf n y'" "sched_wf (sk y')"
      "handed_over s (SEM_WAITLIST s y) y y'" "sems_eq y1 y'"
    using nxsem_post_release_ok [of n y1 c s b] sem_invD(1,2) [OF i] c f m p wl
    by (auto simp: y1_def handed_sems_def)
  note e = sems_eq_set_sval [OF y'(5) [unfolded y1_def]]
  have l: "mset (SEM_WAITLIST r y') = mset (if r = s then tl (SEM_WAITLIST s y) else SEM_WAITLIST r y)" for r
    using y'(4) by (simp add: handed_over_def)
  have "int (length (SEM_WAITLIST s y)) = max 0 (- semcount (sems y s))" using sem_invD(3) [OF i, of s] m by (simp add: count_ok_def)
  then have "count_ok y' s"
    using l [of s] e s1 by (intro count_ok_set [where y = y and v = v]) auto
  then have "sem_inv n y'"
    using l y' by (intro sem_invI [OF i _ _ _ _ y'(5) [unfolded y1_def]]) simp_all
  moreover have "nxsem_post_slow c s y = Some (OK, sw, y')"
    using m assms(6) y'(1) by (simp add: nxsem_post_slow_def Let_def semcount_def b_def y1_def v_def)
  ultimately show ?thesis using y'(4) e s1 by simp
qed

lemma nxsem_post_slow_mutex:
  assumes w: "holders_wf n y" "sched_wf (sk y)" "c < ncpus (sk y)"
    and f: "sem_proto (sems y s) = SEM_PRIO_INHERIT \<Longrightarrow> g_freeholders y \<noteq> []"
    and m: "NXSEM_IS_MUTEX (sems y s)" "NXSEM_MBLOCKING (sval (sems y s))" and p: "sem_proto (sems y s) \<noteq> SEM_PRIO_PROTECT"
    and l: "SEM_WAITLIST s y \<noteq> []"
  shows "\<exists>sw y'. nxsem_post_slow c s y = Some (OK, sw, y') \<and> holders_wf n y' \<and> sched_wf (sk y') \<and>
    sval (sems y' s) = next_holder y (SEM_WAITLIST s y) \<and> handed_over s (SEM_WAITLIST s y) y y' \<and>
    sems_eq (set_sval s (sval (sems y' s)) y) y'"
proof -
  define y1 where "y1 = set_sval s (sval (sems y s) OR NXSEM_MBLOCKING_BIT) y"
  have h: "handed_sems s (SEM_WAITLIST s y) y1 = set_sval s (next_holder y (SEM_WAITLIST s y)) y1"
    using m l by (simp add: handed_sems_def y1_def next_holder_def)
  obtain sw y' where y': "nxsem_post_release c s True y1 = Some (sw, y')" "holders_wf n y'" "sched_wf (sk y')"
      "handed_over s (SEM_WAITLIST s y) y y'" "sems_eq (set_sval s (next_holder y (SEM_WAITLIST s y)) y1) y'"
    using nxsem_post_release_ok [of n y1 c s True] w f p h by (auto simp: y1_def)
  note e = sems_eq_set_sval [OF y'(5)]
  have "sems_eq (set_sval s (sval (sems y' s)) y) y'" using y'(5) e(1) by (auto simp: sems_eq_def y1_def)
  moreover have "nxsem_post_slow c s y = Some (OK, sw, y')"
    using m y'(1) by (simp add: nxsem_post_slow_def Let_def y1_def)
  ultimately show ?thesis using y' e(1) by simp
qed

section \<open>Waiting\<close>

text \<open>The semaphore is available.\<close>

lemma nxsem_wait_slow_takes:
  assumes i: "sem_inv n y" and f: "sem_proto (sems y s) = SEM_PRIO_INHERIT \<Longrightarrow> g_freeholders y \<noteq> []"
    and m: "\<not> NXSEM_IS_MUTEX (sems y s)" and p: "sem_proto (sems y s) \<noteq> SEM_PRIO_PROTECT"
    and v: "0 < semcount (sems y s)"
  shows "\<exists>y'. nxsem_wait_slow c s y = Some (WReturned OK, y') \<and> sem_inv n y' \<and> sk y' = sk y \<and>
    semcount (sems y' s) = semcount (sems y s) - 1"
proof -
  define v where "v = sval (sems y s) - 1"
  define y1 where "y1 = set_sval s v y"
  have s1: "sint v = semcount (sems y s) - 1" using sint_step(2) v by (simp add: v_def semcount_def)
  obtain y' where y': "nxsem_add_holder c s y1 = Some y'" "holders_wf n y'" "sk y' = sk y" "sems_eq y1 y'"
    using nxsem_add_holder_tcb_ok [of n y1 s "this_task c (sk y)"] sem_invD(2) [OF i] f
    by (auto simp: y1_def nxsem_add_holder_def)
  note e = sems_eq_set_sval [OF y'(4) [unfolded y1_def]]
  have "SEM_WAITLIST s y = []" using count_waiters [OF sem_invD(3) [OF i] m] assms(5) by simp
  then have "count_ok y' s"
    using e s1 assms(5) y'(3) by (intro count_ok_set [where y = y and v = v]) auto
  then have "sem_inv n y'"
    using y' sem_invD(1) [OF i] by (intro sem_invI [OF i _ _ _ _ y'(4) [unfolded y1_def]]) simp_all
  moreover have "nxsem_wait_slow c s y = Some (WReturned OK, y')"
    using m p assms(5) y'(1)
    by (simp add: nxsem_wait_slow_def nxsem_protect_wait_def Let_def semcount_def y1_def v_def)
  ultimately show ?thesis using y'(3) e s1 by simp
qed

text \<open>It is not: the calling task waits, and the holders inherit its priority.\<close>

lemma nxsem_wait_slow_blocks:
  assumes i: "sem_inv n y" and c: "c < ncpus (sk y)"
    and f: "sem_proto (sems y s) = SEM_PRIO_INHERIT \<Longrightarrow> g_freeholders y \<noteq> []"
    and t: "t = this_task c (sk y)" "\<not> is_idle_task (sk y) t"
    and lc: "0 \<le> sint (lockcount (tcbs (sk y) t))" "sint (lockcount (tcbs (sk y) t)) < 2 ^ 15 - 1"
    and m: "\<not> NXSEM_IS_MUTEX (sems y s)" and v: "semcount (sems y s) \<le> 0" "- (2 ^ 31) < semcount (sems y s)"
  shows "\<exists>y'. nxsem_wait_slow c s y = Some (WBlocked, y') \<and> sem_inv n y' \<and>
    semcount (sems y' s) = semcount (sems y s) - 1 \<and> mset (SEM_WAITLIST s y') = add_mset t (mset (SEM_WAITLIST s y)) \<and>
    tstate_of (sk y') t = TSTATE_WAIT_SEM \<and> waitobj (tcbs (sk y') t) = Some (WSem s) \<and>
    (sem_proto (sems y s) = SEM_PRIO_INHERIT \<longrightarrow>
       (\<forall>p h. hsem (holders y p) = Some s \<and> htcb (holders y p) = Some h \<longrightarrow> prio (sk y) t \<le> prio (sk y') h))"
proof -
  define v where "v = sval (sems y s) - 1"
  define y1 where "y1 = set_sval s v y"
  have s1: "sint v = semcount (sems y s) - 1" using sint_step(2) v by (simp add: v_def semcount_def)
  obtain y' where y': "nxsem_block c s None y1 = Some y'" "holders_wf n y'" "sched_wf (sk y')" "sems_eq y1 y'"
      "\<forall>r. mset (SEM_WAITLIST r y') = (if r = s then {#t#} else {#}) + mset (SEM_WAITLIST r y)"
      "tstate_of (sk y') t = TSTATE_WAIT_SEM" "waitobj (tcbs (sk y') t) = Some (WSem s)"
      "sem_proto (sems y s) = SEM_PRIO_INHERIT \<longrightarrow>
         (\<forall>p h. hsem (holders y p) = Some s \<and> htcb (holders y p) = Some h \<longrightarrow> prio (sk y) t \<le> prio (sk y') h)"
    using nxsem_block_ok [of n y1 c s t None] sem_invD(1,2) [OF i] c f t lc by (auto simp: y1_def)
  note e = sems_eq_set_sval [OF y'(4) [unfolded y1_def]]
  have "int (length (SEM_WAITLIST s y)) = - semcount (sems y s)" using sem_invD(3) [OF i, of s] m assms(9) by (simp add: count_ok_def)
  then have "count_ok y' s"
    using y'(5) e s1 assms(9) by (intro count_ok_set [where y = y and v = v]) auto
  then have "sem_inv n y'"
    using y' by (intro sem_invI [OF i _ _ _ _ y'(4) [unfolded y1_def]]) simp_all
  moreover have "nxsem_wait_slow c s y = Some (WBlocked, y')"
    using m assms(9) y'(1) by (simp add: nxsem_wait_slow_def Let_def semcount_def y1_def v_def)
  ultimately show ?thesis using y' e s1 by simp
qed

lemma nxsem_wait_slow_mutex:
  assumes w: "holders_wf n y" "sched_wf (sk y)" "c < ncpus (sk y)"
    and f: "sem_proto (sems y s) = SEM_PRIO_INHERIT \<Longrightarrow> g_freeholders y \<noteq> []"
    and t: "t = this_task c (sk y)" "\<not> is_idle_task (sk y) t"
    and lc: "0 \<le> sint (lockcount (tcbs (sk y) t))" "sint (lockcount (tcbs (sk y) t)) < 2 ^ 15 - 1"
    and m: "NXSEM_IS_MUTEX (sems y s)" "NXSEM_MACQUIRED (sval (sems y s))"
      "nxsched_get_tcb (uint (sval (sems y s) AND NOT NXSEM_MBLOCKING_BIT)) (sk y) = Some h"
  shows "\<exists>y'. nxsem_wait_slow c s y = Some (WBlocked, y') \<and> holders_wf n y' \<and> sched_wf (sk y') \<and>
    sems_eq (set_sval s (sval (sems y s) OR NXSEM_MBLOCKING_BIT) y) y' \<and>
    mset (SEM_WAITLIST s y') = add_mset t (mset (SEM_WAITLIST s y)) \<and>
    tstate_of (sk y') t = TSTATE_WAIT_SEM \<and> waitobj (tcbs (sk y') t) = Some (WSem s) \<and>
    (sem_proto (sems y s) = SEM_PRIO_INHERIT \<and> \<not> is_idle_task (sk y) h \<longrightarrow> prio (sk y) t \<le> prio (sk y') h)"
proof -
  define y1 where "y1 = set_sval s (sval (sems y s) OR NXSEM_MBLOCKING_BIT) y"
  obtain y' where y': "nxsem_block c s (Some h) y1 = Some y'" "holders_wf n y'" "sched_wf (sk y')" "sems_eq y1 y'"
      "\<forall>r. mset (SEM_WAITLIST r y') = (if r = s then {#t#} else {#}) + mset (SEM_WAITLIST r y)"
      "tstate_of (sk y') t = TSTATE_WAIT_SEM" "waitobj (tcbs (sk y') t) = Some (WSem s)"
      "sem_proto (sems y s) = SEM_PRIO_INHERIT \<and> \<not> is_idle_task (sk y) h \<longrightarrow> prio (sk y) t \<le> prio (sk y') h"
    using nxsem_block_ok [of n y1 c s t "Some h"] w f t lc by (auto simp: y1_def)
  have "nxsem_wait_slow c s y = Some (WBlocked, y')"
    using m y'(1) by (simp add: nxsem_wait_slow_def Let_def y1_def)
  then show ?thesis using y' by (simp add: y1_def)
qed

section \<open>Interrupted waits\<close>

lemma nxsem_wait_irq_ok:
  assumes w: "holders_wf n y" "sched_wf (sk y)" "c < ncpus (sk y)" and t: "t \<in> set (SEM_WAITLIST s y)"
    and e: "NXSEM_IS_MUTEX (sems y s) \<Longrightarrow> e \<notin> {EINTR, ECANCELED}"
  shows "\<exists>sw y'. nxsem_wait_irq c t e y = Some (sw, y') \<and> holders_wf n y' \<and> sched_wf (sk y') \<and>
    sems_eq (set_sval s (if NXSEM_IS_MUTEX (sems y s) then sval (sems y s) else sval (sems y s) + 1) y) y' \<and>
    (\<forall>r. mset (SEM_WAITLIST r y') = mset (SEM_WAITLIST r y) - (if r = s then {#t#} else {#})) \<and>
    runnable (sk y') t \<and> waitobj (tcbs (sk y') t) = None \<and> errcode (tcbs (sk y') t) = e \<and> ncpus (sk y') = ncpus (sk y)"
proof -
  have wo: "waitobj (tcbs (sk y) t) = Some (WSem s)" using t sem_waiting [OF w(2)] by simp
  obtain y1 where y1: "nxsem_canceled c s y = Some y1" "semadj n c y y1"
    using restore.foreachholder_ok [OF w] by (auto simp: nxsem_canceled_def)
  note a = semadjD [OF y1(2)]
  let ?mutex = "NXSEM_IS_MUTEX (sems y s)"
  define y2 where "y2 = (if ?mutex then y1 else set_sval s (sval (sems y s) + 1) y1)"
  define f where "f = (\<lambda>x :: frap_tcb_s. x\<lparr>waitobj := None, errcode := e\<rparr>)"
  define y' where "y' = y2\<lparr>sk := sem_wake c t s f (sk y1)\<rparr>"
  have t1: "t \<in> set (SEM_WAITLIST s y1)" using t arg_cong [OF a(6), of set_mset] by simp
  have w1: "c < ncpus (sk y1)" using a(5) w(3) by simp
  have ff: "task_state (f (tcbs (sk y1) t)) = tstate_of (sk y1) t" "waitobj (f (tcbs (sk y1) t)) = None"
      "pid (f (tcbs (sk y1) t)) = pid (tcbs (sk y1) t)" "sched_priority (f (tcbs (sk y1) t)) = prio (sk y1) t"
    by (simp_all add: f_def)
  note sw = sem_wake_ok [where f = f, OF a(4) w1 t1 ff]
  have y': "nxsem_wait_irq c t e y = Some (fst (nxsched_add_readytorun c t (upd_tcb t f (tl_rem t (L_sem s) (sk y1)))), y')"
    using e sems_eqD(1) [OF a(3), of s]
    unfolding nxsem_wait_irq_def wo option.case waitobj.case Let_def y1(1) Option.bind.bind_lunit
    by (auto simp: y'_def y2_def sem_wake_def sem_upd_defs f_def split: prod.split)
  have "holders_wf n y'" using a(2) by (rule holders_wf_cong) (simp_all add: y'_def y2_def sw)
  moreover have "sems_eq (set_sval s (if ?mutex then sval (sems y s) else sval (sems y s) + 1) y) y'"
    using a(3) sems_eq_both [OF a(3)] by (simp add: sems_eq_def y'_def y2_def)
  moreover have "mset (SEM_WAITLIST r y') = mset (SEM_WAITLIST r y) - (if r = s then {#t#} else {#})" for r
    using a(6) [of r] a(6) [of s] by (simp add: y'_def sw)
  ultimately show ?thesis using y' sw(1,2,5-7) a(5) by (simp add: y'_def f_def)
qed

lemma nxsem_wait_irq_count:
  assumes i: "sem_inv n y" and c: "c < ncpus (sk y)" and t: "t \<in> set (SEM_WAITLIST s y)"
    and m: "\<not> NXSEM_IS_MUTEX (sems y s)"
  shows "\<exists>sw y'. nxsem_wait_irq c t e y = Some (sw, y') \<and> sem_inv n y' \<and>
    semcount (sems y' s) = semcount (sems y s) + 1 \<and> mset (SEM_WAITLIST s y') = mset (SEM_WAITLIST s y) - {#t#} \<and>
    runnable (sk y') t \<and> waitobj (tcbs (sk y') t) = None \<and> errcode (tcbs (sk y') t) = e"
proof -
  define v where "v = sval (sems y s) + 1"
  obtain sw y' where y': "nxsem_wait_irq c t e y = Some (sw, y')" "holders_wf n y'" "sched_wf (sk y')" "sems_eq (set_sval s v y) y'"
      "\<forall>r. mset (SEM_WAITLIST r y') = mset (SEM_WAITLIST r y) - (if r = s then {#t#} else {#})"
      "runnable (sk y') t" "waitobj (tcbs (sk y') t) = None" "errcode (tcbs (sk y') t) = e"
    using nxsem_wait_irq_ok [where e = e, OF sem_invD(2,1) [OF i] c t] m by (auto simp: v_def)
  have l: "int (length (SEM_WAITLIST s y)) = max 0 (- semcount (sems y s))" using sem_invD(3) [OF i, of s] m by (simp add: count_ok_def)
  then have neg: "semcount (sems y s) < 0" using length_pos_if_in_set [OF t] by linarith
  then have s1: "sint v = semcount (sems y s) + 1" using sint_step(1) by (simp add: v_def semcount_def SEM_VALUE_MAX_def)
  note e = sems_eq_set_sval [OF y'(4)]
  have "int (size (mset (SEM_WAITLIST s y'))) = max 0 (- sint v)"
    using y'(5) t l neg s1 by (simp add: size_Diff_singleton)
  then have "count_ok y' s" using e by (intro count_ok_set [where y = y and v = v]) simp_all
  then have "sem_inv n y'" using y' by (intro sem_invI [OF i _ _ _ _ y'(4)]) simp_all
  then show ?thesis using y' e s1 by simp
qed

section \<open>An exiting task\<close>

lemma nxsem_release_all_ok:
  assumes "holders_wf n y"
  shows "\<exists>y'. nxsem_release_all h y = Some y' \<and> holders_wf n y' \<and> holdsem y' h = [] \<and> sk y' = sk y"
  using assms
proof (induction "length (holdsem y h)" arbitrary: y)
  case 0
  then show ?case by (subst nxsem_release_all.simps) simp
next
  case (Suc m)
  obtain p ps where ps: "holdsem y h = p # ps" using Suc.hyps(2) by (cases "holdsem y h") auto
  then have "htcb (holders y p) = Some h" using holders_wfD(5) [OF Suc.prems, of p h] by simp
  then obtain s where s: "hsem (holders y p) = Some s" using holders_wfD(7) [OF Suc.prems, of p] by auto
  obtain y1 where y1: "nxsem_freeholder s p y = Some y1" "holders_wf n y1" "sk y1 = sk y"
      "holdsem y1 = (\<lambda>t. remove1 p (holdsem y t))"
    using nxsem_freeholder_ok [OF Suc.prems s] by blast
  define y2 where "y2 = (if NXSEM_IS_MUTEX (sems y1 s) then y1 else set_sval s (sval (sems y1 s) + 1) y1)"
  have "m = length (holdsem y2 h)" "holders_wf n y2" "sk y2 = sk y" using y1 ps Suc.hyps(2) by (simp_all add: y2_def)
  then obtain y' where "nxsem_release_all h y2 = Some y'" "holders_wf n y'" "holdsem y' h = []" "sk y' = sk y"
    using Suc.hyps(1) [of y2] by auto
  then show ?case
    by (subst nxsem_release_all.simps) (simp add: ps s y1(1) y2_def [symmetric])
qed

section \<open>The fast paths\<close>

lemma SEM_PRIO_distinct [simp]:
  "SEM_PRIO_NONE \<noteq> SEM_PRIO_INHERIT" "SEM_PRIO_NONE \<noteq> SEM_PRIO_PROTECT" "SEM_PRIO_INHERIT \<noteq> SEM_PRIO_PROTECT"
  "SEM_PRIO_INHERIT \<noteq> SEM_PRIO_NONE" "SEM_PRIO_PROTECT \<noteq> SEM_PRIO_NONE" "SEM_PRIO_PROTECT \<noteq> SEM_PRIO_INHERIT"
  by (simp_all add: SEM_PRIO_NONE_def SEM_PRIO_INHERIT_def SEM_PRIO_PROTECT_def)

lemma nxsem_post_release_none:
  "sem_proto (sems y s) = SEM_PRIO_NONE \<Longrightarrow> nxsem_post_release c s False y = Some (False, y)"
  by (simp add: nxsem_post_release_def nxsem_release_holder_def Let_def)

lemma nxsem_add_holder_none:
  "sem_proto (sems y s) = SEM_PRIO_NONE \<Longrightarrow> nxsem_add_holder c s y = Some y"
  by (simp add: nxsem_add_holder_def nxsem_add_holder_tcb_def)

lemma nxsem_protect_wait_other:
  "sem_proto (sems y s) \<noteq> SEM_PRIO_PROTECT \<Longrightarrow> nxsem_protect_wait c s y = (OK, y)"
  by (simp add: nxsem_protect_wait_def)

lemmas fastpath_simps = sem_fastpath_def nxsem_post_release_none nxsem_add_holder_none nxsem_protect_wait_other Let_def semcount_def

lemma nxsem_post_fast:
  assumes "\<not> NXSEM_IS_MUTEX (sems y s)" "sem_proto (sems y s) = SEM_PRIO_NONE" "semcount (sems y s) < SEM_VALUE_MAX"
  shows "nxsem_post c s y = nxsem_post_slow c s y"
  using assms by (simp add: nxsem_post_def nxsem_post_slow_def fastpath_simps)

lemma nxsem_wait_fast:
  assumes "\<not> NXSEM_IS_MUTEX (sems y s)" "sem_proto (sems y s) = SEM_PRIO_NONE"
  shows "nxsem_wait c s y = nxsem_wait_slow c s y"
  using assms by (simp add: nxsem_wait_def nxsem_wait_slow_def fastpath_simps)

lemma nxsem_trywait_fast:
  assumes "\<not> NXSEM_IS_MUTEX (sems y s)" "sem_proto (sems y s) = SEM_PRIO_NONE"
  shows "nxsem_trywait c s y = nxsem_trywait_slow c s y"
  using assms by (simp add: nxsem_trywait_def nxsem_trywait_slow_def fastpath_simps)

section \<open>Resetting a count\<close>

lemma sem_inv_calm:
  assumes "sem_inv n y" "calm (sk y) k"
  shows "sem_inv n (y\<lparr>sk := k\<rparr>)"
proof -
  have "holders_wf n (y\<lparr>sk := k\<rparr>)"
    using sem_invD(2) [OF assms(1)] by (rule holders_wf_cong) (simp_all add: calmD(4) [OF assms(2)])
  moreover have "count_ok (y\<lparr>sk := k\<rparr>) s" for s
    using sem_invD(3) [OF assms(1), of s] by (rule count_ok_other) (simp_all add: calmD(3) [OF assms(2)])
  ultimately show ?thesis using calmD(1) [OF assms(2)] by (simp add: sem_inv_def)
qed

lemma reset_sem_loop_ok:
  assumes "sem_inv n y" "c < ncpus (sk y)" "\<not> NXSEM_IS_MUTEX (sems y s)" "sem_proto (sems y s) = SEM_PRIO_NONE"
  shows "\<exists>y'. reset_sem_loop c s m y = Some (m - length (SEM_WAITLIST s y), y') \<and> sem_inv n y' \<and>
    ncpus (sk y') = ncpus (sk y) \<and> sflags (sems y' s) = sflags (sems y s) \<and>
    length (SEM_WAITLIST s y') = length (SEM_WAITLIST s y) - m"
  using assms
proof (induction m arbitrary: y)
  case 0
  then show ?case by simp
next
  case (Suc m)
  note wl = count_waiters [OF sem_invD(3) [OF Suc.prems(1)] Suc.prems(3)]
  show ?case
  proof (cases "semcount (sems y s) < 0")
    case False
    then show ?thesis using wl Suc.prems by simp
  next
    case True
    then have neg: "semcount (sems y s) < SEM_VALUE_MAX" by (simp add: SEM_VALUE_MAX_def)
    obtain sw y1 where y1: "nxsem_post_slow c s y = Some (OK, sw, y1)" "sem_inv n y1"
        "handed_over s (SEM_WAITLIST s y) y y1" "sflags (sems y1 s) = sflags (sems y s)"
      using nxsem_post_slow_count [OF Suc.prems(1,2) _ Suc.prems(3) _ neg] Suc.prems(4) by auto
    have l: "length (SEM_WAITLIST s y1) = length (SEM_WAITLIST s y) - 1" "ncpus (sk y1) = ncpus (sk y)"
      using y1(3) mset_eq_length [of "SEM_WAITLIST s y1" "tl (SEM_WAITLIST s y)"] by (simp_all add: handed_over_def)
    have ne: "length (SEM_WAITLIST s y) > 0" using wl True by simp
    have "\<not> NXSEM_IS_MUTEX (sems y1 s)" "sem_proto (sems y1 s) = SEM_PRIO_NONE"
      using Suc.prems(3,4) y1(4) by (simp_all add: NXSEM_IS_MUTEX_def sem_proto_def)
    then obtain y' where "reset_sem_loop c s m y1 = Some (m - length (SEM_WAITLIST s y1), y')" "sem_inv n y'"
        "ncpus (sk y') = ncpus (sk y1)" "sflags (sems y' s) = sflags (sems y1 s)"
        "length (SEM_WAITLIST s y') = length (SEM_WAITLIST s y1) - m"
      using Suc.IH [OF y1(2)] Suc.prems(2) l(2) by auto
    then show ?thesis
      using True y1 l ne nxsem_post_fast [OF Suc.prems(3,4) neg] by simp
  qed
qed

lemma nxsem_reset_count:
  assumes i: "sem_inv n y" and c: "c < ncpus (sk y)" and m: "\<not> NXSEM_IS_MUTEX (sems y s)" "sem_proto (sems y s) = SEM_PRIO_NONE"
    and k: "k < 2 ^ 15"
  shows "\<exists>sw y'. nxsem_reset c s k y = Some (OK, sw, y') \<and> sem_inv n y' \<and>
    semcount (sems y' s) = int k - int (length (SEM_WAITLIST s y)) \<and>
    length (SEM_WAITLIST s y') = length (SEM_WAITLIST s y) - k"
proof -
  define y1 where "y1 = upd_sk (sched_lock c) y"
  have c1: "calm (sk y) (sk y1)" using calm_lock [OF sem_invD(1) [OF i]] by (simp add: y1_def upd_sk_def)
  have i1: "sem_inv n y1" using sem_inv_calm [OF i c1] by (simp add: y1_def upd_sk_def)
  have e1: "sems y1 = sems y" "length (SEM_WAITLIST s y1) = length (SEM_WAITLIST s y)" "c < ncpus (sk y1)"
    using c calmD(2) [OF c1] mset_eq_length [OF calmD(3) [OF c1, of s]] by (simp_all add: y1_def upd_sk_def)
  define w where "w = length (SEM_WAITLIST s y)"
  obtain y2 where y2: "reset_sem_loop c s k y1 = Some (k - w, y2)" "sem_inv n y2" "ncpus (sk y2) = ncpus (sk y1)"
      "sflags (sems y2 s) = sflags (sems y s)" "length (SEM_WAITLIST s y2) = w - k"
    using reset_sem_loop_ok [OF i1 e1(3), of s k] m e1 by (auto simp: w_def)
  have m2: "\<not> NXSEM_IS_MUTEX (sems y2 s)" using m(1) y2(4) by (simp add: NXSEM_IS_MUTEX_def)
  have l2: "int (length (SEM_WAITLIST s y2)) = max 0 (- semcount (sems y2 s))"
    using sem_invD(3) [OF y2(2), of s] m2 by (simp add: count_ok_def)
  define y3 where "y3 = (if semcount (sems y2 s) < 0 then y2 else set_sval s (of_nat (k - w)) y2)"
  have sk3: "sk y3 = sk y2" by (simp add: y3_def)
  have left: "sint (of_nat (k - w) :: u32) = int (k - w)"
    using k by (simp add: signed_of_nat signed_take_bit_int_eq_self)
  have cnt: "semcount (sems y3 s) = int k - int w"
    using l2 y2(5) left by (auto simp: y3_def semcount_def)
  have "sem_inv n y3"
  proof (cases "semcount (sems y2 s) < 0")
    case False
    then have "SEM_WAITLIST s y2 = []" using l2 by simp
    then have "count_ok y3 s" using False left by (simp add: y3_def count_ok_def semcount_def)
    then show ?thesis
      using sem_invD(1,2) [OF y2(2)] False
      by (intro sem_invI [OF y2(2), of _ s "of_nat (k - w)"]) (simp_all add: y3_def)
  qed (use y2(2) in \<open>simp add: y3_def\<close>)
  moreover obtain sw k' where u: "sched_unlock c (sk y3) = (sw, k')" by fastforce
  moreover have "calm (sk y3) k'" using calm_unlock [of "sk y3" c] sem_invD(1) [OF y2(2)] sk3 u y2(3) e1(3) by simp
  ultimately have "sem_inv n (y3\<lparr>sk := k'\<rparr>)" "length (tlists k' (L_sem s)) = w - k"
    using sem_inv_calm mset_eq_length [OF calmD(3), of "sk y3" k' s] sk3 y2(5) by auto
  moreover have "nxsem_reset c s k y = Some (OK, sw, y3\<lparr>sk := k'\<rparr>)"
    using m y2(1) u e1(1) by (simp add: nxsem_reset_def reset_sem_def Let_def y1_def [symmetric] y3_def [symmetric])
  ultimately show ?thesis using cnt by (simp add: w_def)
qed

section \<open>Restoring a priority\<close>

lemma nxsem_restore_priority_prio:
  assumes w: "holders_wf n y" and b: "0 < base_priority (tcbs (sk y) h)"
    and p: "prio (sk y) h \<noteq> max (base_priority (tcbs (sk y) h)) (boost_priority (tcbs (sk y) h))"
  shows "\<exists>y'. nxsem_restore_priority c h y = Some y' \<and>
    (\<forall>u. prio (sk y') u =
       (if u = h then Max (insert (max (base_priority (tcbs (sk y) h)) (boost_priority (tcbs (sk y) h))) (asked y (holdsem y h)))
        else prio (sk y) u))"
proof -
  let ?hp = "max (base_priority (tcbs (sk y) h)) (boost_priority (tcbs (sk y) h))"
  define q where "q = Max (insert ?hp (asked y (holdsem y h)))"
  have "\<forall>p \<in> set (holdsem y h). hsem (holders y p) \<noteq> None" using holders_wfD(5,7) [OF w] by auto
  then have q: "waiter_prio y (holdsem y h) ?hp = Some q" unfolding q_def by (rule waiter_prio_Max)
  have "?hp \<le> q" using asked_finite [of y "holdsem y h"] by (simp add: q_def del: max.bounded_iff)
  then have q0: "0 < q" using b by (meson less_le_trans max.cobounded1)
  have "nxsem_restore_priority c h y = Some (set_priority c h q y)"
    using p q by (simp add: nxsem_restore_priority_def Let_def if_max)
  then show ?thesis using set_priority_prio [OF q0] by (simp add: q_def)
qed

section \<open>A stale blocking bit\<close>

lemma NXSEM_MBLOCKING_or: "NXSEM_MBLOCKING v \<Longrightarrow> v OR NXSEM_MBLOCKING_BIT = v"
proof -
  have b: "NXSEM_MBLOCKING_BIT = 2 ^ 31" by (simp add: NXSEM_MBLOCKING_BIT_def)
  assume "NXSEM_MBLOCKING v"
  then have "bit v 31" unfolding NXSEM_MBLOCKING_def b and_exp_eq_0_iff_not_bit by simp
  then have "bit (v OR 2 ^ 31) n \<longleftrightarrow> bit v n" for n unfolding bit_or_iff bit_exp_iff by auto
  then show ?thesis unfolding b by (intro bit_word_eqI) blast
qed

text \<open>
  A mutex whose blocking bit is set although no task waits is not released by a post. A timeout of the only waiting
  task leaves a mutex in this state.
\<close>

lemma nxsem_post_stale_bit:
  assumes w: "holders_wf n y" "sched_wf (sk y)" "c < ncpus (sk y)"
    and f: "sem_proto (sems y s) = SEM_PRIO_INHERIT \<Longrightarrow> g_freeholders y \<noteq> []" and p: "sem_proto (sems y s) \<noteq> SEM_PRIO_PROTECT"
    and m: "NXSEM_IS_MUTEX (sems y s)" "NXSEM_MBLOCKING (sval (sems y s))" and l: "SEM_WAITLIST s y = []"
  shows "\<exists>sw y'. nxsem_post c s y = Some (OK, sw, y') \<and> sval (sems y' s) = sval (sems y s)"
proof -
  obtain sw y' where "nxsem_post_release c s True y = Some (sw, y')" "sems_eq (handed_sems s [] y) y'"
    using nxsem_post_release_ok [OF w f p, of True] l by auto
  then show ?thesis
    using m sems_eqD(1) [of y y' s] by (simp add: nxsem_post_def nxsem_post_slow_def Let_def NXSEM_MBLOCKING_or handed_sems_def)
qed

lemma mutex_timeout_leaks:
  assumes w: "holders_wf n y" "sched_wf (sk y)" "c < ncpus (sk y)" "d < ncpus (sk y)"
    and p: "sem_proto (sems y s) = SEM_PRIO_NONE" and m: "NXSEM_IS_MUTEX (sems y s)" "NXSEM_MBLOCKING (sval (sems y s))"
    and l: "SEM_WAITLIST s y = [t]"
  shows "\<exists>sw y1 sw' y2. nxsem_timeout c t y = Some (sw, y1) \<and> SEM_WAITLIST s y1 = [] \<and>
    nxsem_post d s y1 = Some (OK, sw', y2) \<and> sval (sems y2 s) = sval (sems y s)"
proof -
  have t: "t \<in> set (SEM_WAITLIST s y)" using l by simp
  obtain sw y1 where y1: "nxsem_wait_irq c t ETIMEDOUT y = Some (sw, y1)" "holders_wf n y1" "sched_wf (sk y1)"
      "sems_eq (set_sval s (sval (sems y s)) y) y1" "\<forall>r. mset (SEM_WAITLIST r y1) = mset (SEM_WAITLIST r y) - (if r = s then {#t#} else {#})"
      "ncpus (sk y1) = ncpus (sk y)"
    using nxsem_wait_irq_ok [where e = ETIMEDOUT, OF w(1-3) t] m by auto
  note e = sems_eqD [OF y1(4)]
  have l1: "SEM_WAITLIST s y1 = []" using y1(5) [rule_format, of s] l by simp
  have "\<exists>sw y'. nxsem_post d s y1 = Some (OK, sw, y') \<and> sval (sems y' s) = sval (sems y1 s)"
    using e w(4) y1(6) m p l1 by (intro nxsem_post_stale_bit [OF y1(2,3)]) simp_all
  moreover have "nxsem_timeout c t y = Some (sw, y1)"
    using y1(1) sem_waiting [OF w(2), of t s] t by (simp add: nxsem_timeout_def)
  ultimately show ?thesis using l1 e(1) by auto
qed

section \<open>The priority ceiling\<close>

lemma nxsem_protect_refused:
  assumes "sem_proto (sems y s) = SEM_PRIO_PROTECT" "\<not> NXSEM_IS_MUTEX (sems y s)" "0 < semcount (sems y s)"
    and "sceiling (sems y s) < prio (sk y) (this_task c (sk y))"
  shows "nxsem_wait_slow c s y = Some (WReturned (- EINVAL), y)"
proof -
  have "set_sval s (sval (sems y s)) (set_sval s (sval (sems y s) - 1) y) = y" by (simp add: sem_upd_defs)
  then show ?thesis using assms
    by (simp add: nxsem_wait_slow_def nxsem_protect_wait_def sem_undo_def semcount_def Let_def)
qed

text \<open>The state of the task and of the semaphore while the task holds it.\<close>

definition protected :: "nat \<Rightarrow> oid \<Rightarrow> semsys \<Rightarrow> semsys" where
  "protected c s y =
     upd_sk (upd_tcb (this_task c (sk y)) (\<lambda>x. x\<lparr>sched_priority := sceiling (sems y s)\<rparr>))
       (upd_sem s (\<lambda>x. x\<lparr>ssaved := prio (sk y) (this_task c (sk y))\<rparr>) (set_sval s (sval (sems y s) - 1) y))"

lemma protected_sel:
  "sems (protected c s y) s = (sems y s)\<lparr>sval := sval (sems y s) - 1, ssaved := prio (sk y) (this_task c (sk y))\<rparr>"
  "this_task c (sk (protected c s y)) = this_task c (sk y)"
  "prio (sk (protected c s y)) u = (if u = this_task c (sk y) then sceiling (sems y s) else prio (sk y) u)"
  by (simp_all add: protected_def sem_upd_defs this_task_def current_task_def)

lemma nxsem_protect_taken:
  assumes "sem_proto (sems y s) = SEM_PRIO_PROTECT" "\<not> NXSEM_IS_MUTEX (sems y s)" "0 < semcount (sems y s)"
    and "prio (sk y) (this_task c (sk y)) \<le> sceiling (sems y s)"
  shows "nxsem_wait_slow c s y = Some (WReturned OK, protected c s y)"
proof -
  have "nxsem_add_holder c s (protected c s y) = Some (protected c s y)"
    using assms(1) by (simp add: nxsem_add_holder_def nxsem_add_holder_tcb_def protected_sel sem_proto_def)
  then show ?thesis using assms
    by (simp add: nxsem_wait_slow_def nxsem_protect_wait_def semcount_def Let_def not_less protected_def)
qed

lemma sched_unlock_prio: "prio (snd (sched_unlock c k)) u = prio k u"
  by (simp add: sched_unlock_def Let_def sched_eqD(1) [OF nxsched_deliver_task_eq] split: option.split)

lemma nxsem_protect_given_back:
  assumes p: "sem_proto (sems y s) = SEM_PRIO_PROTECT" "\<not> NXSEM_IS_MUTEX (sems y s)"
    and v: "0 \<le> semcount (sems y s)" "semcount (sems y s) < SEM_VALUE_MAX" and q: "0 < ssaved (sems y s)"
  shows "\<exists>sw y'. nxsem_post_slow c s y = Some (OK, sw, y') \<and> semcount (sems y' s) = semcount (sems y s) + 1 \<and>
    ssaved (sems y' s) = 0 \<and>
    (\<forall>u. prio (sk y') u = (if u = this_task c (sk y) then ssaved (sems y s) else prio (sk y) u))"
proof -
  define t where "t = this_task c (sk y)"
  define y1 where "y1 = upd_sk (sched_lock c) (set_sval s (sval (sems y s) + 1) y)"
  have y1: "sems y1 s = (sems y s)\<lparr>sval := sval (sems y s) + 1\<rparr>" "this_task c (sk y1) = t" "prio (sk y1) u = prio (sk y) u" for u
    by (simp_all add: y1_def upd_sk_def sched_lock_def this_task_def current_task_def t_def)
  define y2 where "y2 = nxsem_protect_post c s y1"
  have y2: "sems y2 s = (sems y s)\<lparr>sval := sval (sems y s) + 1, ssaved := 0\<rparr>"
      "prio (sk y2) u = (if u = t then ssaved (sems y s) else prio (sk y) u)" for u
  proof -
    have "y2 = upd_sem s (\<lambda>x. x\<lparr>ssaved := 0\<rparr>) (set_priority c t (ssaved (sems y s)) y1)"
      using q y1 by (simp add: y2_def nxsem_protect_post_def)
    then show "sems y2 s = (sems y s)\<lparr>sval := sval (sems y s) + 1, ssaved := 0\<rparr>"
      "prio (sk y2) u = (if u = t then ssaved (sems y s) else prio (sk y) u)"
      using y1 set_priority_prio [OF q, of c t y1 u] by (simp_all add: upd_sem_def) (simp add: set_priority_def upd_sk_def)
  qed
  obtain sw k where u: "sched_unlock c (sk y2) = (sw, k)" by fastforce
  have rel: "nxsem_release_holder c s (set_sval s (sval (sems y s) + 1) y) = set_sval s (sval (sems y s) + 1) y"
    using p by (simp add: nxsem_release_holder_def Let_def)
  have "nxsem_post_release c s False (set_sval s (sval (sems y s) + 1) y) = Some (sw, y2\<lparr>sk := k\<rparr>)"
    using p u rel by (simp add: nxsem_post_release_def Let_def y1_def [symmetric] y2_def [symmetric])
  then have "nxsem_post_slow c s y = Some (OK, sw, y2\<lparr>sk := k\<rparr>)"
    using p v by (simp add: nxsem_post_slow_def Let_def semcount_def)
  moreover have "prio k u = prio (sk y2) u" for u using sched_unlock_prio [of c "sk y2" u] u by simp
  ultimately show ?thesis using y2 sint_step(1) v(2) by (simp add: semcount_def t_def)
qed

section \<open>The uncontended mutex\<close>

lemma mutex_free_fast:
  assumes "NXSEM_IS_MUTEX (sems y s)" "sem_proto (sems y s) \<noteq> SEM_PRIO_PROTECT" "sval (sems y s) = NXSEM_NO_MHOLDER"
  shows "nxsem_wait c s y = Some (WReturned OK, set_sval s (word_of_int (pid (tcbs (sk y) (this_task c (sk y))))) y)"
    "nxsem_trywait c s y = Some (OK, set_sval s (word_of_int (pid (tcbs (sk y) (this_task c (sk y))))) y)"
  using assms by (simp_all add: nxsem_wait_def nxsem_trywait_def sem_fastpath_def Let_def)

lemma pid_not_blocking:
  assumes "0 \<le> p" "p < 2 ^ 31"
  shows "\<not> NXSEM_MBLOCKING (word_of_int p)"
proof -
  have b: "NXSEM_MBLOCKING_BIT = 2 ^ 31" by (simp add: NXSEM_MBLOCKING_BIT_def)
  have "\<not> bit p 31" using assms by (simp add: bit_iff_odd)
  then have "\<not> bit (word_of_int p :: u32) 31" by (simp add: bit_simps)
  then show ?thesis unfolding NXSEM_MBLOCKING_def b and_exp_eq_0_iff_not_bit by simp
qed

end
