(* ===== verification/Frap_Lock.thy ===== *)
theory Frap_Lock
  imports Frap_Queue Sched_Inv
begin

text \<open>
  The FRAP operations of \<open>sched/frap\<close>: \<open>frap_core.c\<close>, \<open>frap_table.c\<close>, \<open>frap_compat.h\<close>,
  \<open>frap_lock.c\<close>. The resource argument is an option, NULL being \<open>None\<close>.

  A section under the resource's spinlock with interrupts off is one definition, and so is every
  stretch of code between two points where the task can lose the CPU; \<open>frap_lock\<close> and
  \<open>frap_unlock\<close> compose them in program order, and theory \<open>Frap_Protocol\<close> interleaves them.
  The result \<open>None\<close> is a NULL dereference, or a failed \<open>DEBUGASSERT\<close> when the build has
  assertions (parameter \<open>dbg\<close>).
\<close>

section \<open>Operations\<close>

definition DEBUGASSERT :: "bool \<Rightarrow> bool \<Rightarrow> unit option" where
  "DEBUGASSERT dbg b = (if dbg \<and> \<not> b then None else Some ())"

definition frap_res_init :: "rid option \<Rightarrow> u32 \<Rightarrow> bool \<Rightarrow> kernel \<Rightarrow> int \<times> kernel" where
  "frap_res_init ro ident global k =
     (case ro of
        None \<Rightarrow> (- EINVAL, k)
      | Some r \<Rightarrow>
          let k1 = upd_res r (\<lambda>x. x\<lparr>sl := SP_UNLOCKED, owner := None\<rparr>) k;
              k2 = set_nodes (list_initialize (nodes k1) (Fifo r)) k1
          in (OK, upd_res r (\<lambda>x. x\<lparr>resid := ident, is_global := global, ceiling := 0\<rparr>) k2))"

text \<open>
  \<open>frap_set_prio\<close> calls whichever of two weakly linked setters is present. In this tree
  \<open>nxsched_setpriority\<close> is not defined anywhere, so its address is NULL.
\<close>

type_synonym prio_setter = "nat \<Rightarrow> tid \<Rightarrow> int \<Rightarrow> kernel \<Rightarrow> int \<times> bool \<times> kernel"

definition frap_set_prio_weak ::
    "prio_setter option \<Rightarrow> prio_setter option \<Rightarrow> nat \<Rightarrow> tid \<Rightarrow> u8 \<Rightarrow> kernel \<Rightarrow> int \<times> bool \<times> kernel" where
  "frap_set_prio_weak setpriority set_priority c t p k =
     (case setpriority of
        Some f \<Rightarrow> f c t (uint p) k
      | None \<Rightarrow>
          (case set_priority of
             Some f \<Rightarrow> f c t (uint p) k
           | None \<Rightarrow> (- ENOSYS, False, k)))"

definition frap_set_prio :: "nat \<Rightarrow> tid \<Rightarrow> u8 \<Rightarrow> kernel \<Rightarrow> int \<times> bool \<times> kernel" where
  "frap_set_prio = frap_set_prio_weak None (Some nxsched_set_priority)"

text \<open>The parameter is an \<open>int8_t\<close>, stored as \<open>uint8_t\<close>: the same eight bits.\<close>

definition frap_set_spin_prio :: "nat \<Rightarrow> u8 \<Rightarrow> kernel \<Rightarrow> int \<times> kernel" where
  "frap_set_spin_prio c p k = (OK, upd_tcb (this_task c k) (\<lambda>t. t\<lparr>frap_spin_prio := p\<rparr>) k)"

definition frap_get_spin_prio :: "nat \<Rightarrow> kernel \<Rightarrow> int" where
  "frap_get_spin_prio c k = uint (frap_spin_prio (tcbs k (this_task c k)))"

definition frap_get_queue_preempt_count :: "nat \<Rightarrow> kernel \<Rightarrow> u32" where
  "frap_get_queue_preempt_count c k = frap_queue_preempt_cnt (tcbs k (this_task c k))"

subsection \<open>frap_lock\<close>

text \<open>
  Up to the first \<open>frap_set_prio\<close>: \<open>Inl\<close> is an early return, \<open>Inr\<close> the locals \<open>r\<close>, \<open>tcb\<close> and
  \<open>spin_prio\<close>.
\<close>

definition frap_lock_enter ::
    "bool \<Rightarrow> nat \<Rightarrow> rid option \<Rightarrow> kernel \<Rightarrow> ((int + rid \<times> tid \<times> int) \<times> kernel) option" where
  "frap_lock_enter dbg c ro k =
     (case ro of
        None \<Rightarrow> Some (Inl (- EINVAL), k)
      | Some r \<Rightarrow>
          if \<not> is_global (frap_ress k r) then Some (Inl (- EINVAL), k)
          else
            let t = this_task c k;
                base = prio k t;
                spin = frap_get_spin_prio c k
            in if spin < uint base then Some (Inl (- EINVAL), k)
               else do {
                 let k1 = upd_tcb t (\<lambda>x. x\<lparr>frap_waiting_res := Some r, frap_base_prio := base,
                            frap_spin_prio := word_of_int spin, frap_cancelled := False, frap_in_cs := False\<rparr>) k;
                 DEBUGASSERT dbg (\<not> frap_enqueued (tcbs k1 t));
                 Some (Inr (r, t, spin), k1)
               })"

text \<open>The test at the top of the loop: was the request cancelled? The clearing of the flag follows.\<close>

definition frap_lock_check :: "tid \<Rightarrow> kernel \<Rightarrow> bool \<times> kernel" where
  "frap_lock_check t k =
     (if frap_cancelled (tcbs k t)
      then (True, upd_tcb t (\<lambda>x. x\<lparr>frap_queue_preempt_cnt := frap_queue_preempt_cnt x + 1\<rparr>) k)
      else (False, k))"

definition frap_lock_clear :: "tid \<Rightarrow> kernel \<Rightarrow> kernel" where
  "frap_lock_clear t k = upd_tcb t (\<lambda>x. x\<lparr>frap_cancelled := False\<rparr>) k"

text \<open>The section under \<open>r->sl\<close>: \<open>True\<close> when the resource was taken.\<close>

definition frap_can_enter :: "rid \<Rightarrow> tid \<Rightarrow> kernel \<Rightarrow> (bool \<times> kernel) option" where
  "frap_can_enter r t k =
     (if owner (frap_ress k r) = None then
        (case frap_queue_peek_head r k of
           None \<Rightarrow> do { k1 \<leftarrow> frap_queue_enqueue_head_if_needed r t k; Some (True, k1) }
         | Some h \<Rightarrow> Some (h = t, k))
      else Some (False, k))"

definition frap_lock_try :: "nat \<Rightarrow> rid \<Rightarrow> tid \<Rightarrow> kernel \<Rightarrow> (bool \<times> kernel) option" where
  "frap_lock_try c r t k = do {
     (can_enter, k1) \<leftarrow> frap_can_enter r t k;
     if can_enter then do {
       let k2 = sched_lock c k1;
       let k3 = upd_tcb t (\<lambda>x. x\<lparr>frap_in_cs := True\<rparr>) k2;
       k4 \<leftarrow> frap_queue_remove r t k3;
       Some (True, upd_res r (\<lambda>x. x\<lparr>owner := Some t\<rparr>) k4)
     } else do {
       k2 \<leftarrow> frap_queue_enqueue_tail r t k1;
       Some (False, k2)
     }
   }"

text \<open>
  A call of \<open>frap_lock\<close> on CPU \<open>c\<close> until it returns, until the task loses the CPU in one of the
  priority changes, or until the fuel is used up in the spin loop.
\<close>

datatype lock_end = Returned int | Switched_out | Spinning

fun frap_lock_loop :: "nat \<Rightarrow> nat \<Rightarrow> rid \<Rightarrow> tid \<Rightarrow> int \<Rightarrow> kernel \<Rightarrow> (lock_end \<times> kernel) option" where
  "frap_lock_loop 0 c r t spin k = Some (Spinning, k)"
| "frap_lock_loop (Suc n) c r t spin k =
     (let (cancelled, k1) = frap_lock_check t k;
          (ret, sw, k2) = (if cancelled then frap_set_prio c t (word_of_int spin) (frap_lock_clear t k1)
                           else (OK, False, k1))
      in if sw then Some (Switched_out, k2)
         else do {
           (entered, k3) \<leftarrow> frap_lock_try c r t k2;
           if entered then Some (Returned OK, k3) else frap_lock_loop n c r t spin k3
         })"

definition frap_lock :: "nat \<Rightarrow> bool \<Rightarrow> nat \<Rightarrow> rid option \<Rightarrow> kernel \<Rightarrow> (lock_end \<times> kernel) option" where
  "frap_lock fuel dbg c ro k = do {
     (e, k1) \<leftarrow> frap_lock_enter dbg c ro k;
     (case e of
        Inl ret \<Rightarrow> Some (Returned ret, k1)
      | Inr (r, t, spin) \<Rightarrow>
          let (ret, sw, k2) = frap_set_prio c t (word_of_int spin) k1
          in if sw then Some (Switched_out, k2) else frap_lock_loop fuel c r t spin k2)
   }"

subsection \<open>frap_unlock\<close>

definition frap_unlock_release :: "bool \<Rightarrow> nat \<Rightarrow> rid option \<Rightarrow> kernel \<Rightarrow> (rid \<times> tid \<times> kernel) option" where
  "frap_unlock_release dbg c ro k = do {
     DEBUGASSERT dbg (case ro of None \<Rightarrow> False | Some r \<Rightarrow> is_global (frap_ress k r));
     let t = this_task c k;
     r \<leftarrow> ro;
     DEBUGASSERT dbg (owner (frap_ress k r) = Some t);
     DEBUGASSERT dbg (frap_in_cs (tcbs k t));
     Some (r, t, upd_res r (\<lambda>x. x\<lparr>owner := None\<rparr>) k)
   }"

definition frap_unlock_leave :: "tid \<Rightarrow> kernel \<Rightarrow> kernel" where
  "frap_unlock_leave t k = upd_tcb t (\<lambda>x. x\<lparr>frap_in_cs := False\<rparr>) k"

definition frap_unlock_restore :: "nat \<Rightarrow> tid \<Rightarrow> kernel \<Rightarrow> int \<times> bool \<times> kernel" where
  "frap_unlock_restore c t k = frap_set_prio c t (frap_base_prio (tcbs k t)) k"

definition frap_unlock_done :: "tid \<Rightarrow> kernel \<Rightarrow> kernel" where
  "frap_unlock_done t k = upd_tcb t (\<lambda>x. x\<lparr>frap_waiting_res := None\<rparr>) k"

text \<open>
  The call until it returns (\<open>True\<close>) or the task loses the CPU in \<open>sched_unlock\<close> or in the priority
  change (\<open>False\<close>).
\<close>

definition frap_unlock :: "bool \<Rightarrow> nat \<Rightarrow> rid option \<Rightarrow> kernel \<Rightarrow> (bool \<times> kernel) option" where
  "frap_unlock dbg c ro k = do {
     (r, t, k1) \<leftarrow> frap_unlock_release dbg c ro k;
     let (sw1, k2) = sched_unlock c (frap_unlock_leave t k1);
     if sw1 then Some (False, k2)
     else
       let (ret, sw2, k3) = frap_unlock_restore c t (sched_unlock_rr c t k2)
       in if sw2 then Some (False, k3) else Some (True, frap_unlock_done t k3)
   }"

subsection \<open>Local resources\<close>

text \<open>
  \<open>frap_local_lock\<close> up to its priority change (\<open>Inl\<close> is the early return, \<open>Inr\<close> the locals
  \<open>r\<close>, \<open>tcb\<close>, \<open>eff\<close>), and the rest.
\<close>

definition frap_local_enter :: "nat \<Rightarrow> rid option \<Rightarrow> u8 \<Rightarrow> kernel \<Rightarrow> (int + rid \<times> tid \<times> u8) \<times> kernel" where
  "frap_local_enter c ro ceil k =
     (case ro of
        None \<Rightarrow> (Inl (- EINVAL), k)
      | Some r \<Rightarrow>
          if is_global (frap_ress k r) then (Inl (- EINVAL), k)
          else
            let t = this_task c k;
                base = prio k t;
                k1 = upd_res r (\<lambda>x. x\<lparr>ceiling := ceil\<rparr>) k;
                k2 = upd_tcb t (\<lambda>x. x\<lparr>frap_saved_prio := base\<rparr>) k1;
                eff = (if base > ceil then base else ceil)
            in (Inr (r, t, eff), k2))"

definition frap_local_own :: "nat \<Rightarrow> rid \<Rightarrow> tid \<Rightarrow> kernel \<Rightarrow> kernel" where
  "frap_local_own c r t k =
     (let k1 = upd_res r (\<lambda>x. x\<lparr>owner := Some t\<rparr>) k;
          k2 = sched_lock c k1
      in upd_tcb t (\<lambda>x. x\<lparr>frap_in_cs := True\<rparr>) k2)"

definition frap_local_lock :: "nat \<Rightarrow> rid option \<Rightarrow> u8 \<Rightarrow> kernel \<Rightarrow> lock_end \<times> kernel" where
  "frap_local_lock c ro ceil k =
     (case frap_local_enter c ro ceil k of
        (Inl ret, k1) \<Rightarrow> (Returned ret, k1)
      | (Inr (r, t, eff), k1) \<Rightarrow>
          let (ret, sw, k2) = frap_set_prio c t eff k1
          in if sw then (Switched_out, k2) else (Returned OK, frap_local_own c r t k2))"

definition frap_local_restore :: "nat \<Rightarrow> rid \<Rightarrow> tid \<Rightarrow> kernel \<Rightarrow> int \<times> bool \<times> kernel" where
  "frap_local_restore c r t k =
     (let k1 = upd_res r (\<lambda>x. x\<lparr>owner := None\<rparr>) k;
          restore = (if frap_saved_prio (tcbs k1 t) \<noteq> 0 then frap_saved_prio (tcbs k1 t) else prio k1 t)
      in frap_set_prio c t restore k1)"

definition frap_local_unlock :: "bool \<Rightarrow> nat \<Rightarrow> rid option \<Rightarrow> kernel \<Rightarrow> (bool \<times> kernel) option" where
  "frap_local_unlock dbg c ro k = do {
     DEBUGASSERT dbg (case ro of None \<Rightarrow> False | Some r \<Rightarrow> \<not> is_global (frap_ress k r));
     let t = this_task c k;
     r \<leftarrow> ro;
     DEBUGASSERT dbg (owner (frap_ress k r) = Some t);
     DEBUGASSERT dbg (frap_in_cs (tcbs k t));
     let (sw1, k1) = sched_unlock c (upd_tcb t (\<lambda>x. x\<lparr>frap_in_cs := False\<rparr>) k);
     if sw1 then Some (False, k1)
     else
       let (ret, sw2, k2) = frap_local_restore c r t (sched_unlock_rr c t k1)
       in if sw2 then Some (False, k2)
          else Some (True, upd_tcb t (\<lambda>x. x\<lparr>frap_saved_prio := 0\<rparr>) k2)
   }"

end
