(* ===== verification/Frap_Switch.thy ===== *)
theory Frap_Switch
  imports Frap_Lock Sched_Frame
begin

text \<open>
  The scheduler hook of FRAP (\<open>sched/frap/frap_schedhook.c\<close>) and the context switch that calls it
  (\<open>sched/sched/sched_switchcontext.c\<close>; \<open>SYS_switch_context\<close> of
  \<open>arch/arm64/src/common/arm64_syscall.c\<close> and the end of \<open>arm64_doirq\<close>).

  The hook reads the preempted task before it takes the resource's spinlock, so it is three
  pieces: the check, the section under the spinlock, and the priority change.
\<close>

text \<open>
  The check: \<open>None\<close> inside the option means that the hook returns at once, \<open>Some r\<close> that it goes on
  with the resource the task waits for.
\<close>

definition frap_on_preempt_check :: "bool \<Rightarrow> tid \<Rightarrow> tid \<Rightarrow> kernel \<Rightarrow> rid option option" where
  "frap_on_preempt_check dbg oldtcb newtcb k =
     (if prio k newtcb \<le> prio k oldtcb \<or> \<not> frap_enqueued (tcbs k oldtcb) then Some None
      else do {
        DEBUGASSERT dbg (\<not> frap_in_cs (tcbs k oldtcb));
        DEBUGASSERT dbg (frap_waiting_res (tcbs k oldtcb) \<noteq> None);
        r \<leftarrow> frap_waiting_res (tcbs k oldtcb);
        Some (Some r)
      })"

definition frap_on_preempt_cut :: "bool \<Rightarrow> rid \<Rightarrow> tid \<Rightarrow> kernel \<Rightarrow> kernel option" where
  "frap_on_preempt_cut dbg r oldtcb k = do {
     DEBUGASSERT dbg (frap_enqueued (tcbs k oldtcb));
     k1 \<leftarrow> frap_queue_remove r oldtcb k;
     Some (upd_tcb oldtcb (\<lambda>x. x\<lparr>frap_cancelled := True,
       frap_queue_preempt_cnt := frap_queue_preempt_cnt x + 1\<rparr>) k1)
   }"

definition frap_on_preempt_prio :: "nat \<Rightarrow> tid \<Rightarrow> kernel \<Rightarrow> kernel" where
  "frap_on_preempt_prio c oldtcb k = snd (snd (frap_set_prio c oldtcb (frap_base_prio (tcbs k oldtcb)) k))"

definition frap_on_preempt :: "bool \<Rightarrow> nat \<Rightarrow> tid \<Rightarrow> tid \<Rightarrow> kernel \<Rightarrow> kernel option" where
  "frap_on_preempt dbg c oldtcb newtcb k = do {
     ro \<leftarrow> frap_on_preempt_check dbg oldtcb newtcb k;
     (case ro of
        None \<Rightarrow> Some k
      | Some r \<Rightarrow> do {
          k1 \<leftarrow> frap_on_preempt_cut dbg r oldtcb k;
          Some (frap_on_preempt_prio c oldtcb k1)
        })
   }"

text \<open>
  Sporadic scheduling, the critical-section monitor and instrumentation are configured out, and
  the stack check changes no scheduler state.
\<close>

definition nxsched_switch_context :: "bool \<Rightarrow> nat \<Rightarrow> tid \<Rightarrow> tid \<Rightarrow> kernel \<Rightarrow> kernel option" where
  "nxsched_switch_context dbg c from to k = frap_on_preempt dbg c from to k"

text \<open>The task to resume is read before the switch is recorded.\<close>

definition arm64_switch :: "bool \<Rightarrow> nat \<Rightarrow> kernel \<Rightarrow> kernel option" where
  "arm64_switch dbg c k =
     (let tcb = this_task c k
      in do {
        k1 \<leftarrow> nxsched_switch_context dbg c (g_running_tasks k c) tcb k;
        Some (k1\<lparr>g_running_tasks := (g_running_tasks k1)(c := tcb)\<rparr>)
      })"

end
