(* ===== verification/Frap_Protocol.thy ===== *)
theory Frap_Protocol
  imports Frap_Switch
begin

text \<open>
  FRAP under interleaving. A state holds the kernel, the program counter of every task inside
  \<open>frap_lock\<close>/\<open>frap_unlock\<close>, the progress of the hook on every CPU, and the resources that have been
  initialised. An action is one atomic piece of code on one CPU: a piece of \<open>frap_lock\<close> or
  \<open>frap_unlock\<close>, a piece of the hook, or an operation of the scheduler that an interrupt or another
  task performs. \<open>frap_step\<close> executes an action and is \<open>None\<close> when the action is not possible in
  the state, or when the code faults.

  A task takes one resource at a time, calls \<open>frap_lock\<close> while it can be preempted (the contract
  in the comment of \<open>frap_lock\<close>), and neither blocks nor changes its lock count in its critical
  section. Nothing else is assumed of the order of the actions: the hook of one CPU may be
  interleaved with the other CPUs.
\<close>

section \<open>The machine\<close>

datatype frap_pc =
    Out
  | LRaise rid int | LCheck rid int | LClear rid int | LReraise rid int | LTry rid int
  | CS rid
  | ULeave rid | UUnlock rid | URr rid | URestore rid | UDone rid

datatype hook_pc = HIdle | HCut tid tid rid | HPrio tid tid

record fstate =
  kern :: kernel
  pcs :: "tid \<Rightarrow> frap_pc"
  hk :: "nat \<Rightarrow> hook_pc"
  res :: "rid list"

datatype action =
    Init rid u32 bool
  | SetSpin nat u8
  | Lock nat "rid option"
  | Task nat
  | Unlock nat
  | Hook nat
  | Delivered nat
  | Wake nat tid
  | Sleep nat tstate "waitobj option"
  | SetPrio nat tid int
  | SLock nat
  | SUnlock nat

text \<open>The CPU executes its assigned task: no context switch is under way.\<close>

definition cpu_free :: "nat \<Rightarrow> fstate \<Rightarrow> bool" where
  "cpu_free c s \<longleftrightarrow> c < ncpus (kern s) \<and> hk s c = HIdle \<and> g_running_tasks (kern s) c = this_task c (kern s)"

definition goto :: "tid \<Rightarrow> frap_pc \<Rightarrow> kernel \<Rightarrow> fstate \<Rightarrow> fstate" where
  "goto t p k s = s\<lparr>kern := k, pcs := (pcs s)(t := p)\<rparr>"

text \<open>The next piece of the FRAP call that the current task of CPU \<open>c\<close> is in.\<close>

definition task_step :: "nat \<Rightarrow> fstate \<Rightarrow> fstate option" where
  "task_step c s =
     (let k = kern s; t = this_task c k
      in case pcs s t of
           Out \<Rightarrow> None
         | LRaise r spin \<Rightarrow> Some (goto t (LCheck r spin) (snd (snd (frap_set_prio c t (word_of_int spin) k))) s)
         | LCheck r spin \<Rightarrow>
             (let (cancelled, k1) = frap_lock_check t k
              in Some (goto t (if cancelled then LClear r spin else LTry r spin) k1 s))
         | LClear r spin \<Rightarrow> Some (goto t (LReraise r spin) (frap_lock_clear t k) s)
         | LReraise r spin \<Rightarrow> Some (goto t (LTry r spin) (snd (snd (frap_set_prio c t (word_of_int spin) k))) s)
         | LTry r spin \<Rightarrow> do {
             (entered, k1) \<leftarrow> frap_lock_try c r t k;
             Some (goto t (if entered then CS r else LCheck r spin) k1 s)
           }
         | CS r \<Rightarrow> None
         | ULeave r \<Rightarrow> Some (goto t (UUnlock r) (frap_unlock_leave t k) s)
         | UUnlock r \<Rightarrow> Some (goto t (URr r) (snd (sched_unlock c k)) s)
         | URr r \<Rightarrow> Some (goto t (URestore r) (sched_unlock_rr c t k) s)
         | URestore r \<Rightarrow> Some (goto t (UDone r) (snd (snd (frap_unlock_restore c t k))) s)
         | UDone r \<Rightarrow> Some (goto t Out (frap_unlock_done t k) s))"

text \<open>The next piece of the context switch of CPU \<open>c\<close>.\<close>

definition set_running :: "nat \<Rightarrow> tid \<Rightarrow> kernel \<Rightarrow> kernel" where
  "set_running c t k = k\<lparr>g_running_tasks := (g_running_tasks k)(c := t)\<rparr>"

definition hook_step :: "bool \<Rightarrow> nat \<Rightarrow> fstate \<Rightarrow> fstate option" where
  "hook_step dbg c s =
     (let k = kern s
      in case hk s c of
           HIdle \<Rightarrow>
             (let old = g_running_tasks k c; new = this_task c k
              in if old = new then None
                 else do {
                   ro \<leftarrow> frap_on_preempt_check dbg old new k;
                   Some (case ro of
                           None \<Rightarrow> s\<lparr>kern := set_running c new k\<rparr>
                         | Some r \<Rightarrow> s\<lparr>hk := (hk s)(c := HCut old new r)\<rparr>)
                 })
         | HCut old new r \<Rightarrow> do {
             k1 \<leftarrow> frap_on_preempt_cut dbg r old k;
             Some (s\<lparr>kern := k1, hk := (hk s)(c := HPrio old new)\<rparr>)
           }
         | HPrio old new \<Rightarrow>
             Some (s\<lparr>kern := set_running c new (frap_on_preempt_prio c old k), hk := (hk s)(c := HIdle)\<rparr>))"

definition guarded :: "bool \<Rightarrow> 'a option \<Rightarrow> 'a option" where
  "guarded b x = (if b then x else None)"

text \<open>
  \<open>Wake\<close> and \<open>Sleep\<close> are the scheduler's part of unblocking a task and of blocking the current one.
\<close>

definition wake :: "nat \<Rightarrow> tid \<Rightarrow> kernel \<Rightarrow> kernel" where
  "wake c t k = snd (nxsched_add_readytorun c t (nxsched_remove_blocked t k))"

definition sleep :: "nat \<Rightarrow> tstate \<Rightarrow> waitobj option \<Rightarrow> kernel \<Rightarrow> kernel" where
  "sleep c st wo k =
     (let t = this_task c k
      in nxsched_add_blocked t st
           (upd_tcb t (\<lambda>x. x\<lparr>waitobj := wo\<rparr>) (nxsched_remove_self t k)))"

definition frap_step :: "bool \<Rightarrow> action \<Rightarrow> fstate \<Rightarrow> fstate option" where
  "frap_step dbg a s =
     (let k = kern s
      in case a of
           Init r ident g \<Rightarrow>
             guarded (r \<notin> set (res s)) (Some (s\<lparr>kern := snd (frap_res_init (Some r) ident g k), res := r # res s\<rparr>))
         | SetSpin c p \<Rightarrow>
             guarded (cpu_free c s \<and> pcs s (this_task c k) = Out) (Some (s\<lparr>kern := snd (frap_set_spin_prio c p k)\<rparr>))
         | Lock c ro \<Rightarrow>
             guarded (cpu_free c s \<and> pcs s (this_task c k) = Out \<and> \<not> is_idle_task k (this_task c k) \<and>
                   lockcount (tcbs k (this_task c k)) = 0 \<and> (case ro of None \<Rightarrow> True | Some r \<Rightarrow> r \<in> set (res s)))
               (do { (e, k1) \<leftarrow> frap_lock_enter dbg c ro k;
                     Some (case e of Inl ret \<Rightarrow> s\<lparr>kern := k1\<rparr> | Inr (r, t, spin) \<Rightarrow> goto t (LRaise r spin) k1 s) })
         | Task c \<Rightarrow> guarded (cpu_free c s) (task_step c s)
         | Unlock c \<Rightarrow>
             guarded (cpu_free c s)
               (case pcs s (this_task c k) of
                  CS r \<Rightarrow> do { (r', t, k1) \<leftarrow> frap_unlock_release dbg c (Some r) k; Some (goto t (ULeave r) k1 s) }
                | _ \<Rightarrow> None)
         | Hook c \<Rightarrow> guarded (c < ncpus k) (hook_step dbg c s)
         | Delivered c \<Rightarrow> guarded (cpu_free c s) (Some (s\<lparr>kern := nxsched_process_delivered c k\<rparr>))
         | Wake c t \<Rightarrow>
             guarded (cpu_free c s \<and> (case tlist_blocked (tcbs k t) of None \<Rightarrow> False | Some l \<Rightarrow> l \<noteq> L_readytorun))
               (Some (s\<lparr>kern := wake c t k\<rparr>))
         | Sleep c st wo \<Rightarrow>
             guarded (cpu_free c s \<and> pcs s (this_task c k) = Out \<and> \<not> is_idle_task k (this_task c k) \<and>
                   (case tlist_blocked ((tcbs k (this_task c k))\<lparr>waitobj := wo, task_state := st\<rparr>) of
                      None \<Rightarrow> False | Some l \<Rightarrow> l \<noteq> L_readytorun))
               (Some (s\<lparr>kern := sleep c st wo k\<rparr>))
         | SetPrio c t p \<Rightarrow>
             guarded (cpu_free c s \<and> \<not> is_idle_task k t) (Some (s\<lparr>kern := snd (snd (nxsched_set_priority c t p k))\<rparr>))
         | SLock c \<Rightarrow>
             guarded (cpu_free c s \<and> pcs s (this_task c k) = Out) (Some (s\<lparr>kern := sched_lock c k\<rparr>))
         | SUnlock c \<Rightarrow>
             guarded (cpu_free c s \<and> pcs s (this_task c k) = Out \<and> nxsched_islocked_tcb (tcbs k (this_task c k)))
               (Some (s\<lparr>kern := snd (sched_unlock c k)\<rparr>)))"

text \<open>
  The machine starts with the scheduler well formed, no task in FRAP, no resource initialised and
  no context switch under way.
\<close>

definition frap_start :: "fstate \<Rightarrow> bool" where
  "frap_start s \<longleftrightarrow>
     sched_wf (kern s) \<and> pcs s = (\<lambda>_. Out) \<and> hk s = (\<lambda>_. HIdle) \<and> res s = [] \<and>
     (\<forall>t. \<not> frap_enqueued (tcbs (kern s) t) \<and> \<not> frap_in_cs (tcbs (kern s) t))"

inductive frap_reach :: "bool \<Rightarrow> fstate \<Rightarrow> bool" for dbg where
  start: "frap_start s \<Longrightarrow> frap_reach dbg s"
| step: "frap_reach dbg s \<Longrightarrow> frap_step dbg a s = Some s' \<Longrightarrow> frap_reach dbg s'"

primrec frap_run :: "bool \<Rightarrow> action list \<Rightarrow> fstate \<Rightarrow> fstate option" where
  "frap_run dbg [] s = Some s"
| "frap_run dbg (a # as) s = do { s' \<leftarrow> frap_step dbg a s; frap_run dbg as s' }"

lemma frap_run_reach: "frap_reach dbg s \<Longrightarrow> frap_run dbg as s = Some s' \<Longrightarrow> frap_reach dbg s'"
  by (induction as arbitrary: s) (auto split: Option.bind_splits intro: frap_reach.step)

end
