(* ===== verification/Frap_Inv.thy ===== *)
theory Frap_Inv
  imports Frap_Protocol
begin

text \<open>
  The invariant of the FRAP machine and its preservation by every action.
\<close>

section \<open>The invariant\<close>

fun pc_res :: "frap_pc \<Rightarrow> rid option" where
  "pc_res Out = None"
| "pc_res (LRaise r _) = Some r" | "pc_res (LCheck r _) = Some r" | "pc_res (LClear r _) = Some r"
| "pc_res (LReraise r _) = Some r" | "pc_res (LTry r _) = Some r" | "pc_res (CS r) = Some r"
| "pc_res (ULeave r) = Some r" | "pc_res (UUnlock r) = Some r" | "pc_res (URr r) = Some r"
| "pc_res (URestore r) = Some r" | "pc_res (UDone r) = Some r"

text \<open>Inside the loop of \<open>frap_lock\<close>; anywhere in \<open>frap_lock\<close>; holding the preemption lock.\<close>

fun spins :: "frap_pc \<Rightarrow> bool" where
  "spins (LCheck _ _) = True" | "spins (LClear _ _) = True" | "spins (LReraise _ _) = True" | "spins (LTry _ _) = True"
| "spins _ = False"

fun locking :: "frap_pc \<Rightarrow> bool" where
  "locking (LRaise _ _) = True"
| "locking p = spins p"

fun holding :: "frap_pc \<Rightarrow> bool" where
  "holding (CS _) = True" | "holding (ULeave _) = True" | "holding (UUnlock _) = True"
| "holding _ = False"

fun in_section :: "frap_pc \<Rightarrow> bool" where
  "in_section (CS _) = True" | "in_section (ULeave _) = True"
| "in_section _ = False"

definition task_ok :: "kernel \<Rightarrow> rid list \<Rightarrow> tid \<Rightarrow> frap_pc \<Rightarrow> bool" where
  "task_ok k R t p \<longleftrightarrow>
     (\<forall>r. pc_res p = Some r \<longrightarrow>
        frap_waiting_res (tcbs k t) = Some r \<and> r \<in> set R \<and> is_global (frap_ress k r) \<and> \<not> is_idle_task k t) \<and>
     (frap_enqueued (tcbs k t) \<longrightarrow> spins p) \<and>
     (locking p \<longrightarrow> lockcount (tcbs k t) = 0) \<and>
     (holding p \<longrightarrow> lockcount (tcbs k t) = 1 \<and> (\<exists>c < ncpus k. g_assignedtasks k c = t)) \<and>
     (frap_in_cs (tcbs k t) \<longleftrightarrow> in_section p)"

definition fifo_ok :: "kernel \<Rightarrow> rid list \<Rightarrow> (rid \<rightharpoonup> tid list) \<Rightarrow> bool" where
  "fifo_ok k R Q \<longleftrightarrow>
     fifo_rep k Q \<and> dom Q = set R \<and>
     (\<forall>r xs t. Q r = Some xs \<longrightarrow> t \<in> set xs \<longrightarrow> frap_waiting_res (tcbs k t) = Some r)"

definition owner_ok :: "fstate \<Rightarrow> bool" where
  "owner_ok s \<longleftrightarrow> (\<forall>r \<in> set (res s). \<forall>t. owner (frap_ress (kern s) r) = Some t \<longleftrightarrow> pcs s t = CS r)"

definition hook_ok :: "kernel \<Rightarrow> hook_pc \<Rightarrow> bool" where
  "hook_ok k h \<longleftrightarrow> (case h of HIdle \<Rightarrow> True | HCut old new r \<Rightarrow> \<not> is_idle_task k old | HPrio old new \<Rightarrow> \<not> is_idle_task k old)"

definition finv :: "fstate \<Rightarrow> bool" where
  "finv s \<longleftrightarrow>
     sched_wf (kern s) \<and> (\<forall>t. task_ok (kern s) (res s) t (pcs s t)) \<and> (\<exists>Q. fifo_ok (kern s) (res s) Q) \<and>
     owner_ok s \<and> (\<forall>c. hook_ok (kern s) (hk s c))"

lemma finvD:
  assumes "finv s"
  shows "sched_wf (kern s)" "task_ok (kern s) (res s) t (pcs s t)" "owner_ok s" "hook_ok (kern s) (hk s c)"
  using assms by (auto simp: finv_def)

section \<open>Changes that concern one task\<close>

definition others :: "tid \<Rightarrow> kernel \<Rightarrow> kernel \<Rightarrow> bool" where
  "others t k k' \<longleftrightarrow>
     (\<forall>u. u \<noteq> t \<longrightarrow> tcb_s.more (tcbs k' u) = tcb_s.more (tcbs k u) \<and> lockcount (tcbs k' u) = lockcount (tcbs k u)) \<and>
     (\<forall>u. pid (tcbs k' u) = pid (tcbs k u)) \<and>
     (\<forall>r. is_global (frap_ress k' r) = is_global (frap_ress k r)) \<and> ncpus k' = ncpus k \<and>
     (\<forall>c < ncpus k. nxsched_islocked_tcb (tcbs k (g_assignedtasks k c)) \<longrightarrow> g_assignedtasks k c \<noteq> t \<longrightarrow>
        g_assignedtasks k' c = g_assignedtasks k c)"

lemma others_refl: "others t k k"
  by (simp add: others_def)

lemma others_trans:
  "others t k k' \<Longrightarrow> others t k' k'' \<Longrightarrow> others t k k''"
  unfolding others_def nxsched_islocked_tcb_def by simp

lemma others_quiet:
  assumes q: "quiet c S k k'" and S: "S \<subseteq> {t}"
  shows "others t k k'"
proof -
  have "g_assignedtasks k' d = g_assignedtasks k d"
    if "nxsched_islocked_tcb (tcbs k (g_assignedtasks k d))" "g_assignedtasks k d \<noteq> t" for d
    using quietD(17) [OF q that(1)] that(2) S by blast
  then show ?thesis using q by (simp add: others_def quiet_def)
qed

lemma others_tcb: "pid (f (tcbs k t)) = pid (tcbs k t) \<Longrightarrow> others t k (upd_tcb t f k)"
  by (simp add: others_def)

lemma others_res: "is_global (f (frap_ress k r)) = is_global (frap_ress k r) \<Longrightarrow> others t k (upd_res r f k)"
  by (simp add: others_def)

lemma others_fifo: "fifo_eq t k k' \<Longrightarrow> others t k k'"
  by (auto simp: fifo_eq_def others_def)

lemma islocked_one: "lockcount x = 1 \<Longrightarrow> nxsched_islocked_tcb x"
  by (simp add: nxsched_islocked_tcb_def)

lemma task_ok_holding:
  "task_ok k R t p \<Longrightarrow> holding p \<Longrightarrow> lockcount (tcbs k t) = 1 \<and> (\<exists>c < ncpus k. g_assignedtasks k c = t)"
  by (simp add: task_ok_def)

lemma task_ok_others:
  assumes o: "others t k k'" and u: "u \<noteq> t" and k: "task_ok k R u p"
  shows "task_ok k' R u p"
proof -
  have m: "tcb_s.more (tcbs k' u) = tcb_s.more (tcbs k u)" using o u by (simp add: others_def)
  have i: "is_idle_task k' u = is_idle_task k u" using o by (simp add: others_def is_idle_task_def)
  have "\<exists>c < ncpus k'. g_assignedtasks k' c = u" if h: "holding p"
  proof -
    obtain c where c: "c < ncpus k" "g_assignedtasks k c = u" "lockcount (tcbs k u) = 1"
      using task_ok_holding [OF k h] by blast
    then have "g_assignedtasks k' c = u" using o u islocked_one [OF c(3)] by (auto simp: others_def)
    then show ?thesis using c o by (auto simp: others_def)
  qed
  moreover have "lockcount (tcbs k' u) = lockcount (tcbs k u)" "is_global (frap_ress k' r) = is_global (frap_ress k r)" for r
    using o u by (simp_all add: others_def)
  ultimately show ?thesis using k i by (simp add: task_ok_def frap_fields_more [OF m])
qed

lemma finv_step:
  assumes f: "finv s" and o: "others t (kern s) k'" and w: "sched_wf k'"
    and t: "task_ok k' (res s) t p" and q: "fifo_ok k' (res s) Q"
    and ow: "\<And>r u. r \<in> set (res s) \<Longrightarrow> owner (frap_ress k' r) = Some u \<longleftrightarrow> ((pcs s)(t := p)) u = CS r"
  shows "finv (goto t p k' s)"
proof -
  have "task_ok k' (res s) u (((pcs s)(t := p)) u)" for u
    using task_ok_others [OF o _ finvD(2) [OF f]] t by (cases "u = t") simp_all
  moreover have "is_idle_task k' u = is_idle_task (kern s) u" for u
    using o by (simp add: others_def is_idle_task_def)
  then have "hook_ok k' (hk s c)" for c using finvD(4) [OF f, of c] by (simp add: hook_ok_def split: hook_pc.splits)
  moreover have "owner_ok (goto t p k' s)"
    using ow by (simp add: owner_ok_def goto_def)
  ultimately show ?thesis
    using w q by (auto simp: finv_def goto_def)
qed

text \<open>A scheduler operation, with the program counter moved or not.\<close>

lemma fifo_ok_cong:
  assumes "nodes k' = nodes k" "\<And>t. frap_enqueued (tcbs k' t) = frap_enqueued (tcbs k t)"
    "\<And>t. frap_enqueued (tcbs k t) \<Longrightarrow> frap_waiting_res (tcbs k' t) = frap_waiting_res (tcbs k t)"
  shows "fifo_ok k R Q \<Longrightarrow> fifo_ok k' R Q"
proof -
  assume q: "fifo_ok k R Q"
  have "frap_enqueued (tcbs k t)" if "Q r = Some xs" "t \<in> set xs" for r xs t
    using q that membersI [of Q r xs t] by (simp add: fifo_ok_def fifo_rep_def)
  with q assms show ?thesis by (simp add: fifo_ok_def fifo_rep_def)
qed

lemma finv_quiet:
  assumes f: "finv s" and q: "quiet c S (kern s) k'" and w: "sched_wf k'"
    and S: "\<And>u. u \<in> S \<Longrightarrow> \<not> holding (pcs s u)"
  shows "finv (s\<lparr>kern := k'\<rparr>)"
proof -
  note d = quietD [OF q]
  have "task_ok k' (res s) u (pcs s u)" for u
  proof -
    have "\<exists>c < ncpus k'. g_assignedtasks k' c = u" if h: "holding (pcs s u)"
    proof -
      obtain c where c: "c < ncpus (kern s)" "g_assignedtasks (kern s) c = u" "lockcount (tcbs (kern s) u) = 1"
        using task_ok_holding [OF finvD(2) [OF f] h] by blast
      then have "g_assignedtasks k' c = u" using d(17) [of c] S [of u] h islocked_one by auto
      then show ?thesis using c d(13) by auto
    qed
    then show ?thesis using finvD(2) [OF f, of u] by (simp add: task_ok_def d)
  qed
  moreover obtain Q where "fifo_ok (kern s) (res s) Q" using f by (auto simp: finv_def)
  then have "fifo_ok k' (res s) Q" by (rule fifo_ok_cong [rotated -1]) (simp_all add: d)
  moreover have "owner_ok (s\<lparr>kern := k'\<rparr>)" using finvD(3) [OF f] by (simp add: owner_ok_def d)
  moreover have "hook_ok k' (hk s c)" for c
    using finvD(4) [OF f, of c] by (simp add: hook_ok_def d split: hook_pc.splits)
  ultimately show ?thesis using w by (auto simp: finv_def)
qed

text \<open>A move of the program counter alone.\<close>

lemma finv_goto:
  assumes f: "finv s" and r: "pc_res p = pc_res (pcs s t) \<or> p = Out"
    and m: "spins (pcs s t) \<longrightarrow> spins p \<or> \<not> frap_enqueued (tcbs (kern s) t)"
      "locking p \<longrightarrow> locking (pcs s t)" "holding p = holding (pcs s t)" "in_section p = in_section (pcs s t)"
    and c: "\<And>r. p = CS r \<longleftrightarrow> pcs s t = CS r"
  shows "finv (goto t p (kern s) s)"
proof -
  obtain Q where q: "fifo_ok (kern s) (res s) Q" using f by (auto simp: finv_def)
  have "task_ok (kern s) (res s) t p"
    using finvD(2) [OF f, of t] r m unfolding task_ok_def by (elim disjE) (simp_all, blast+)
  then show ?thesis
    using finvD(3) [OF f] c by (intro finv_step [OF f others_refl finvD(1) [OF f] _ q]) (auto simp: owner_ok_def)
qed

section \<open>The pieces of the FRAP calls\<close>

lemma frap_set_prio_alt: "snd (snd (frap_set_prio c t p k)) = snd (snd (nxsched_set_priority c t (uint p) k))"
  by (simp add: frap_set_prio_def frap_set_prio_weak_def)

lemma frap_set_prio_prio:
  assumes "p \<noteq> 0"
  shows "prio (snd (snd (frap_set_prio c t p k))) u = (if u = t then p else prio k u)"
proof -
  have "1 \<le> uint p" "uint p \<le> 255"
    using assms uint_lt2p [of p] by (simp_all add: word_neq_0_conv word_less_def)
  then show ?thesis by (simp add: frap_set_prio_alt nxsched_set_priority_prio)
qed

lemma frap_set_prio_quiet: "quiet c S k (snd (snd (frap_set_prio c t p k)))"
  by (simp add: frap_set_prio_alt quiet_set_priority)

lemma frap_set_prio_wf:
  "sched_wf k \<Longrightarrow> c < ncpus k \<Longrightarrow> \<not> is_idle_task k t \<Longrightarrow> sched_wf (snd (snd (frap_set_prio c t p k)))"
  by (simp add: frap_set_prio_alt nxsched_set_priority_wf)

lemma goto_goto [simp]: "goto t p k (s\<lparr>kern := k'\<rparr>) = goto t p k s"
  by (simp add: goto_def)

lemma finv_idle: "finv s \<Longrightarrow> pcs s t \<noteq> Out \<Longrightarrow> \<not> is_idle_task (kern s) t"
  using finvD(2) [of s t] by (cases "pcs s t") (auto simp: task_ok_def)

text \<open>A priority change and a move of the program counter.\<close>

lemma finv_prio:
  assumes f: "finv s" and c: "c < ncpus (kern s)" and n: "pcs s t \<noteq> Out"
    and g: "finv (s\<lparr>kern := snd (snd (frap_set_prio c t p (kern s)))\<rparr>) \<Longrightarrow>
      finv (goto t q (snd (snd (frap_set_prio c t p (kern s)))) (s\<lparr>kern := snd (snd (frap_set_prio c t p (kern s)))\<rparr>))"
  shows "finv (goto t q (snd (snd (frap_set_prio c t p (kern s)))) s)"
  using g finv_quiet [OF f frap_set_prio_quiet [of c "{}"] frap_set_prio_wf [OF finvD(1) [OF f] c finv_idle [OF f n]]]
  by simp

text \<open>Updates of the current task's FRAP fields only.\<close>

lemma sched_wf_frap_fields:
  "sched_wf k \<Longrightarrow> sched_wf (upd_tcb t (\<lambda>x. x\<lparr>frap_cancelled := b\<rparr>) k)"
  "sched_wf k \<Longrightarrow> sched_wf (upd_tcb t (\<lambda>x. x\<lparr>frap_queue_preempt_cnt := frap_queue_preempt_cnt x + 1\<rparr>) k)"
  "sched_wf k \<Longrightarrow> sched_wf (upd_tcb t (\<lambda>x. x\<lparr>frap_in_cs := b\<rparr>) k)"
  "sched_wf k \<Longrightarrow> sched_wf (upd_tcb t (\<lambda>x. x\<lparr>frap_waiting_res := w\<rparr>) k)"
  "sched_wf k \<Longrightarrow> sched_wf (upd_tcb t (\<lambda>x. x\<lparr>frap_spin_prio := p\<rparr>) k)"
  "sched_wf k \<Longrightarrow> sched_wf (upd_tcb t (\<lambda>x. x\<lparr>frap_cancelled := b, frap_queue_preempt_cnt := frap_queue_preempt_cnt x + 1\<rparr>) k)"
  "sched_wf k \<Longrightarrow> sched_wf (set_enqueued t b k)"
  by (simp_all add: sched_wf_tcb set_enqueued_def)

lemma sched_wf_globals:
  "sched_wf k \<Longrightarrow> sched_wf (upd_res r f k)" "sched_wf k \<Longrightarrow> sched_wf (set_nodes h k)" "sched_wf k \<Longrightarrow> sched_wf (set_running c t k)"
  by (auto simp: set_running_def intro: sched_wf_cong)

lemma sched_wf_fifo_eq: "fifo_eq t k k' \<Longrightarrow> sched_wf k \<Longrightarrow> sched_wf k'"
  by (auto simp: fifo_eq_def sched_wf_frap_fields sched_wf_globals)

lemma finv_fields:
  assumes f: "finv s" and w: "sched_wf (upd_tcb t g (kern s))"
    and n: "pid (g (tcbs (kern s) t)) = pid (tcbs (kern s) t)" "frap_enqueued (g (tcbs (kern s) t)) = frap_enqueued (tcbs (kern s) t)"
      "frap_enqueued (tcbs (kern s) t) \<Longrightarrow> frap_waiting_res (g (tcbs (kern s) t)) = frap_waiting_res (tcbs (kern s) t)"
    and t: "task_ok (upd_tcb t g (kern s)) (res s) t p" and c: "\<And>r. p = CS r \<longleftrightarrow> pcs s t = CS r"
  shows "finv (goto t p (upd_tcb t g (kern s)) s)"
proof -
  obtain Q where q: "fifo_ok (kern s) (res s) Q" using f by (auto simp: finv_def)
  have "fifo_ok (upd_tcb t g (kern s)) (res s) Q" by (rule fifo_ok_cong [OF _ _ _ q]) (use n in auto)
  then show ?thesis
    using finvD(3) [OF f] c by (intro finv_step [OF f others_tcb [of g, OF n(1)] w t]) (auto simp: owner_ok_def)
qed

section \<open>The section under the spinlock\<close>

text \<open>The state after \<open>t\<close> took \<open>r\<close>, apart from the list nodes.\<close>

definition taken :: "rid \<Rightarrow> tid \<Rightarrow> kernel \<Rightarrow> kernel \<Rightarrow> bool" where
  "taken r t k k' \<longleftrightarrow>
     tcbs k' = (tcbs k)(t := (tcbs k t)\<lparr>lockcount := lockcount (tcbs k t) + 1, frap_in_cs := True, frap_enqueued := False\<rparr>) \<and>
     frap_ress k' = (frap_ress k)(r := (frap_ress k r)\<lparr>owner := Some t\<rparr>) \<and>
     tlists k' = tlists k \<and> ncpus k' = ncpus k \<and> g_idletcb k' = g_idletcb k \<and> g_assignedtasks k' = g_assignedtasks k \<and>
     g_running_tasks k' = g_running_tasks k"

definition may_enter :: "rid \<Rightarrow> tid \<Rightarrow> tid list \<Rightarrow> kernel \<Rightarrow> bool" where
  "may_enter r t xs k \<longleftrightarrow> owner (frap_ress k r) = None \<and> (xs = [] \<or> hd xs = t)"

lemma frap_can_enter_spec:
  assumes f: "fifo_rep k Q" and q: "Q r = Some xs" and t: "t \<in> members Q \<Longrightarrow> t \<in> set xs"
  obtains (yes) k1 ys where "may_enter r t xs k" "frap_can_enter r t k = Some (True, k1)" "fifo_eq t k k1"
      "fifo_rep k1 (Q(r \<mapsto> ys))" "t \<in> set ys" "remove1 t ys = remove1 t xs"
  | (no) "\<not> may_enter r t xs k" "frap_can_enter r t k = Some (False, k)"
proof (cases "owner (frap_ress k r) = None")
  case False
  then have "\<not> may_enter r t xs k" "frap_can_enter r t k = Some (False, k)"
    by (auto simp: may_enter_def frap_can_enter_def)
  then show thesis by (rule no)
next
  case True
  note o = this
  show thesis
  proof (cases xs)
    case Nil
    then have n: "t \<notin> members Q" using t by auto
    obtain k1 where "frap_queue_enqueue_head_if_needed r t k = Some k1" "fifo_eq t k k1"
      "fifo_rep k1 (if t \<in> members Q then Q else Q(r \<mapsto> t # xs))"
      by (rule frap_queue_enqueue_head_rep [OF f q])
    with o n Nil q show thesis
      by (intro yes [of k1 "[t]"])
        (simp_all add: may_enter_def frap_can_enter_def frap_queue_peek_head_rep [OF f q])
  next
    case (Cons x ys)
    show thesis
    proof (cases "x = t")
      case True
      have "Q(r \<mapsto> xs) = Q" using q by auto
      then show thesis using o True Cons f
        by (intro yes [of k xs])
          (simp_all add: may_enter_def frap_can_enter_def frap_queue_peek_head_rep [OF f q] fifo_eq_refl)
    next
      case False
      then show thesis using o Cons
        by (intro no) (simp_all add: may_enter_def frap_can_enter_def frap_queue_peek_head_rep [OF f q])
    qed
  qed
qed

lemma frap_lock_try_spec:
  assumes f: "fifo_rep k Q" and q: "Q r = Some xs" and t: "t \<in> members Q \<Longrightarrow> t \<in> set xs" "t = this_task c k"
  obtains (yes) k' where "may_enter r t xs k" "frap_lock_try c r t k = Some (True, k')" "taken r t k k'"
      "fifo_rep k' (Q(r \<mapsto> remove1 t xs))"
  | (no) k' where "\<not> may_enter r t xs k" "frap_lock_try c r t k = Some (False, k')" "fifo_eq t k k'"
      "fifo_rep k' (if t \<in> members Q then Q else Q(r \<mapsto> xs @ [t]))"
proof -
  consider (enter) k1 ys where "may_enter r t xs k" "frap_can_enter r t k = Some (True, k1)" "fifo_eq t k k1"
      "fifo_rep k1 (Q(r \<mapsto> ys))" "t \<in> set ys" "remove1 t ys = remove1 t xs"
    | (wait) "\<not> may_enter r t xs k" "frap_can_enter r t k = Some (False, k)"
    by (rule frap_can_enter_spec [OF f q t(1)])
  then show thesis
  proof cases
    case (enter k1 ys)
    note yes = enter
    define k3 where "k3 = upd_tcb t (\<lambda>x. x\<lparr>frap_in_cs := True\<rparr>) (sched_lock c k1)"
    obtain b h where k1: "k1 = set_enqueued t b (set_nodes h k)" using yes(3) by (auto simp: fifo_eq_def)
    have "this_task c k1 = t" by (simp add: k1 t(2) this_task_def current_task_def)
    then have k3: "k3 = upd_tcb t (\<lambda>x. x\<lparr>frap_in_cs := True\<rparr>) (upd_tcb t (\<lambda>x. x\<lparr>lockcount := lockcount x + 1\<rparr>) k1)"
      by (simp add: k3_def sched_lock_def)
    have "fifo_rep k3 (Q(r \<mapsto> ys)) = fifo_rep k1 (Q(r \<mapsto> ys))" by (rule fifo_rep_cong) (simp_all add: k3)
    then obtain k4 where k4: "frap_queue_remove r t k3 = Some k4" "fifo_eq t k3 k4" "fifo_rep k4 (Q(r \<mapsto> ys, r \<mapsto> remove1 t ys))"
        "\<not> frap_enqueued (tcbs k4 t)"
      using frap_queue_remove_rep [of k3 "Q(r \<mapsto> ys)" r ys t r] yes(4,5) by auto
    define k' where "k' = upd_res r (\<lambda>x. x\<lparr>owner := Some t\<rparr>) k4"
    obtain b' h' where k4': "k4 = set_enqueued t b' (set_nodes h' k3)" using k4(2) by (auto simp: fifo_eq_def)
    then have "\<not> b'" using k4(4) by simp
    then have "taken r t k k'" by (simp add: taken_def k'_def k4' k3 k1)
    moreover have "fifo_rep k' (Q(r \<mapsto> remove1 t xs)) = fifo_rep k4 (Q(r \<mapsto> remove1 t xs))"
      by (rule fifo_rep_cong) (simp_all add: k'_def)
    ultimately show thesis
      using that(1) [of k'] yes k4 unfolding frap_lock_try_def by (simp add: k3_def k'_def)
  next
    case wait
    note no = wait
    obtain k' where "frap_queue_enqueue_tail r t k = Some k'" "fifo_eq t k k'"
      "fifo_rep k' (if t \<in> members Q then Q else Q(r \<mapsto> xs @ [t]))"
      by (rule frap_queue_enqueue_tail_rep [OF f q])
    with no show thesis by (intro that(2)) (simp_all add: frap_lock_try_def)
  qed
qed

lemma taken_sched_wf: "taken r t k k' \<Longrightarrow> sched_wf k \<Longrightarrow> sched_wf k'"
proof -
  assume a: "taken r t k k'" "sched_wf k"
  have "sched_wf (upd_tcb t (\<lambda>x. x\<lparr>lockcount := lockcount x + 1, frap_in_cs := True, frap_enqueued := False\<rparr>) k)"
    using a(2) by (simp add: sched_wf_tcb)
  then show ?thesis by (rule sched_wf_cong) (use a(1) in \<open>simp_all add: taken_def\<close>)
qed

lemma taken_others: "taken r t k k' \<Longrightarrow> others t k k'"
  by (simp add: taken_def others_def)

section \<open>Every action keeps the invariant\<close>

lemma fifo_ok_member:
  assumes q: "fifo_ok k R Q" and r: "Q r = Some xs" and w: "frap_waiting_res (tcbs k t) = Some r"
  shows "t \<in> members Q \<Longrightarrow> t \<in> set xs" "t \<in> set xs \<longleftrightarrow> frap_enqueued (tcbs k t)"
proof -
  show "t \<in> members Q \<Longrightarrow> t \<in> set xs" using q r w by (auto simp: fifo_ok_def members_def)
  then show "t \<in> set xs \<longleftrightarrow> frap_enqueued (tcbs k t)"
    using q r membersI [of Q r xs t] by (auto simp: fifo_ok_def fifo_rep_def)
qed

lemma fifo_ok_upd:
  assumes q: "fifo_ok k R Q" and f: "fifo_rep k' (Q(r \<mapsto> ys))" and r: "r \<in> set R"
    and y: "\<And>u. u \<in> set ys \<Longrightarrow> frap_waiting_res (tcbs k' u) = Some r"
    and o: "\<And>u. u \<in> members Q \<Longrightarrow> frap_waiting_res (tcbs k' u) = frap_waiting_res (tcbs k u)"
  shows "fifo_ok k' R (Q(r \<mapsto> ys))"
  unfolding fifo_ok_def
proof (intro conjI allI impI)
  show "fifo_rep k' (Q(r \<mapsto> ys))" by (rule f)
  show "dom (Q(r \<mapsto> ys)) = set R" using q r by (auto simp: fifo_ok_def)
  fix s xs t assume a: "(Q(r \<mapsto> ys)) s = Some xs" "t \<in> set xs"
  show "frap_waiting_res (tcbs k' t) = Some s"
  proof (cases "s = r")
    case False
    then have "Q s = Some xs" using a by simp
    then show ?thesis using o [of t] q a(2) membersI [of Q s xs t] by (simp add: fifo_ok_def)
  qed (use a y in simp)
qed

lemma finv_queue:
  assumes "finv s" "pc_res (pcs s t) = Some r"
  obtains Q xs where "fifo_ok (kern s) (res s) Q" "Q r = Some xs"
    "frap_waiting_res (tcbs (kern s) t) = Some r" "r \<in> set (res s)"
proof -
  obtain Q where q: "fifo_ok (kern s) (res s) Q" using assms by (auto simp: finv_def)
  have "frap_waiting_res (tcbs (kern s) t) = Some r" "r \<in> set (res s)"
    using finvD(2) [OF assms(1), of t] assms(2) by (simp_all add: task_ok_def)
  moreover from this q have "r \<in> dom Q" by (simp add: fifo_ok_def)
  then obtain xs where "Q r = Some xs" by blast
  ultimately show thesis using q by (intro that)
qed

lemma finv_try:
  assumes f: "finv s" and c: "c < ncpus (kern s)" and p: "pcs s t = LTry r spin" and t: "t = this_task c (kern s)"
    and e: "frap_lock_try c r t (kern s) = Some (b, k')"
  shows "finv (goto t (if b then CS r else LCheck r spin) k' s)"
proof -
  obtain Q xs where q: "fifo_ok (kern s) (res s) Q" "Q r = Some xs"
    and w: "frap_waiting_res (tcbs (kern s) t) = Some r" "r \<in> set (res s)"
    using finv_queue [OF f, of t r] p by auto
  note mem = fifo_ok_member [OF q w(1)]
  have rep: "fifo_rep (kern s) Q" using q by (simp add: fifo_ok_def)
  have ok: "task_ok (kern s) (res s) t (LTry r spin)" using finvD(2) [OF f, of t] p by simp
  have old: "owner (frap_ress (kern s) r') = Some u \<longleftrightarrow> pcs s u = CS r'" if "r' \<in> set (res s)" for r' u
    using finvD(3) [OF f] that by (simp add: owner_ok_def)
  have fifo: "frap_waiting_res (tcbs (kern s) u) = Some r" if "u \<in> set xs" for u
    using q that by (simp add: fifo_ok_def)
  show ?thesis
  proof (rule frap_lock_try_spec [OF rep q(2) mem(1) t])
    fix k1 assume m: "may_enter r t xs (kern s)" and e1: "frap_lock_try c r t (kern s) = Some (True, k1)"
      and k: "taken r t (kern s) k1" and f1: "fifo_rep k1 (Q(r \<mapsto> remove1 t xs))"
    have b: "b" "k' = k1" using e e1 by simp_all
    have "finv (goto t (CS r) k1 s)"
    proof (rule finv_step [OF f taken_others [OF k] taken_sched_wf [OF k finvD(1) [OF f]]])
      show "task_ok k1 (res s) t (CS r)"
        using ok k c t by (auto simp: task_ok_def taken_def is_idle_task_def this_task_def current_task_def)
      show "fifo_ok k1 (res s) (Q(r \<mapsto> remove1 t xs))"
        using fifo set_remove1_subset [of t xs] k
        by (intro fifo_ok_upd [OF q(1) f1 w(2)]) (auto simp: taken_def)
      show "owner (frap_ress k1 r') = Some u \<longleftrightarrow> ((pcs s)(t := CS r)) u = CS r'" if "r' \<in> set (res s)" for r' u
        using old [OF that] m p k by (auto simp: taken_def may_enter_def)
    qed
    then show ?thesis using b by simp
  next
    fix k1 assume e1: "frap_lock_try c r t (kern s) = Some (False, k1)"
      and k: "fifo_eq t (kern s) k1" and f1: "fifo_rep k1 (if t \<in> members Q then Q else Q(r \<mapsto> xs @ [t]))"
    have b: "\<not> b" "k' = k1" using e e1 by simp_all
    obtain h e where k1: "k1 = set_enqueued t e (set_nodes h (kern s))" using k by (auto simp: fifo_eq_def)
    have "fifo_ok k1 (res s) (if t \<in> members Q then Q else Q(r \<mapsto> xs @ [t]))"
    proof (cases "t \<in> members Q")
      case True
      then show ?thesis using f1 q by (simp add: fifo_ok_def k1)
    next
      case False
      have "fifo_ok k1 (res s) (Q(r \<mapsto> xs @ [t]))"
        using f1 False w fifo by (intro fifo_ok_upd [OF q(1) _ w(2)]) (auto simp: k1)
      with False show ?thesis by simp
    qed
    then have "finv (goto t (LCheck r spin) k1 s)"
      using ok old p
      by (intro finv_step [OF f others_fifo [OF k] sched_wf_fifo_eq [OF k finvD(1) [OF f]]])
        (auto simp: task_ok_def k1 is_idle_task_def)
    then show ?thesis using b by simp
  qed
qed

lemma goto_same: "goto t (pcs s t) k s = s\<lparr>kern := k\<rparr>"
  by (simp add: goto_def)

lemma this_task_upd_tcb [simp]: "this_task c (upd_tcb t f k) = this_task c k"
  by (simp add: this_task_def current_task_def)

text \<open>\<open>sched_unlock\<close>: the count of the current task goes down, then it may lose the CPU.\<close>

lemma sched_unlock_steps:
  assumes w: "sched_wf k" and c: "c < ncpus k"
  defines "k1 \<equiv> upd_tcb (this_task c k) (\<lambda>t. t\<lparr>lockcount := lockcount t - 1\<rparr>) k"
  shows "quiet c S k1 (snd (sched_unlock c k))"
proof -
  have "cpu (tcbs k (this_task c k)) = c"
    using w c by (simp add: this_task_def current_task_def sched_wf_def cpus_wf_def)
  moreover have "upd_tcb (this_task c k) (\<lambda>t. t\<lparr>lockcount := 0\<rparr>) k = k1" if "lockcount (tcbs k (this_task c k)) = 1"
    using that by (simp add: k1_def upd_tcb_def)
  moreover have "cpu (tcbs k1 (this_task c k)) = cpu (tcbs k (this_task c k))" by (simp add: k1_def)
  ultimately show ?thesis
    using quiet_deliver_task [of c S k1]
    by (cases "lockcount (tcbs k (this_task c k)) = 1")
      (simp_all add: sched_unlock_def Let_def k1_def [symmetric] split: option.split)
qed

lemma sched_unlock_tcb:
  assumes w: "sched_wf k" and c: "c < ncpus k"
  shows "others (this_task c k) k (snd (sched_unlock c k))"
    "tcb_s.more (tcbs (snd (sched_unlock c k)) t) = tcb_s.more (tcbs k t)"
    "lockcount (tcbs (snd (sched_unlock c k)) (this_task c k)) = lockcount (tcbs k (this_task c k)) - 1"
    "nodes (snd (sched_unlock c k)) = nodes k" "frap_ress (snd (sched_unlock c k)) = frap_ress k"
    "pid (tcbs (snd (sched_unlock c k)) t) = pid (tcbs k t)" "ncpus (snd (sched_unlock c k)) = ncpus k"
proof -
  define k1 where "k1 = upd_tcb (this_task c k) (\<lambda>t. t\<lparr>lockcount := lockcount t - 1\<rparr>) k"
  have q: "quiet c {} k1 (snd (sched_unlock c k))" using sched_unlock_steps [OF w c] by (simp add: k1_def)
  have "others (this_task c k) k k1" unfolding k1_def by (rule others_tcb) simp
  then show "others (this_task c k) k (snd (sched_unlock c k))"
    by (rule others_trans) (rule others_quiet [OF q], simp)
  show "tcb_s.more (tcbs (snd (sched_unlock c k)) t) = tcb_s.more (tcbs k t)"
    using q by (simp add: quiet_def k1_def)
qed (use quietD [OF sched_unlock_steps [OF w c, of "{}"]] sched_unlock_steps [OF w c, of "{}"] in \<open>simp_all add: quiet_def\<close>)

lemma finv_unlock:
  assumes f: "finv s" and c: "c < ncpus (kern s)" and t: "t = this_task c (kern s)"
    and p: "pcs s t = UUnlock r \<and> p = URr r \<or> pcs s t = Out \<and> p = Out"
  shows "finv (goto t p (snd (sched_unlock c (kern s))) s)"
proof -
  note u = sched_unlock_tcb [OF finvD(1) [OF f] c]
  obtain Q where q: "fifo_ok (kern s) (res s) Q" using f by (auto simp: finv_def)
  have m: "\<And>x. tcb_s.more (tcbs (snd (sched_unlock c (kern s))) x) = tcb_s.more (tcbs (kern s) x)" by (rule u)
  have "fifo_ok (snd (sched_unlock c (kern s))) (res s) Q"
    by (rule fifo_ok_cong [OF _ _ _ q]) (simp_all add: u frap_fields_more [OF m])
  moreover have "task_ok (snd (sched_unlock c (kern s))) (res s) t p"
    using finvD(2) [OF f, of t] p by (auto simp: task_ok_def u frap_fields_more [OF m] is_idle_task_def)
  ultimately show ?thesis
    using p finvD(3) [OF f] u(1) t sched_unlock_wf [OF finvD(1) [OF f] c]
    by (intro finv_step [OF f]) (auto simp: owner_ok_def u)
qed

lemma finv_prio_goto:
  assumes f: "finv s" and c: "c < ncpus (kern s)" and n: "pcs s t \<noteq> Out"
    and r: "pc_res q = pc_res (pcs s t)" and m: "spins (pcs s t) \<longrightarrow> spins q" "locking q \<longrightarrow> locking (pcs s t)"
      "holding q = holding (pcs s t)" "in_section q = in_section (pcs s t)" "\<And>r. q = CS r \<longleftrightarrow> pcs s t = CS r"
  shows "finv (goto t q (snd (snd (frap_set_prio c t p (kern s)))) s)"
proof (rule finv_prio [OF f c n])
  define s' where "s' = s\<lparr>kern := snd (snd (frap_set_prio c t p (kern s)))\<rparr>"
  assume "finv (s\<lparr>kern := snd (snd (frap_set_prio c t p (kern s)))\<rparr>)"
  then have "finv (goto t q (kern s') s')" using r m by (intro finv_goto) (simp_all add: s'_def)
  then show "finv (goto t q (snd (snd (frap_set_prio c t p (kern s)))) (s\<lparr>kern := snd (snd (frap_set_prio c t p (kern s)))\<rparr>))"
    by (simp add: s'_def)
qed

lemma task_step_finv:
  assumes f: "finv s" and c: "cpu_free c s" and e: "task_step c s = Some s'"
  shows "finv s'"
proof -
  define t where "t = this_task c (kern s)"
  have c': "c < ncpus (kern s)" using c by (simp add: cpu_free_def)
  have ok: "task_ok (kern s) (res s) t (pcs s t)" by (rule finvD(2) [OF f])
  note e' = e [unfolded task_step_def Let_def, folded t_def]
  note wf = sched_wf_frap_fields [OF finvD(1) [OF f]]
  show ?thesis
  proof (cases "pcs s t")
    case (LRaise r spin)
    then show ?thesis using e' by (auto intro!: finv_prio_goto [OF f c'])
  next
    case (LReraise r spin)
    then show ?thesis using e' by (auto intro!: finv_prio_goto [OF f c'])
  next
    case (URestore r)
    then show ?thesis using e' by (auto simp: frap_unlock_restore_def intro!: finv_prio_goto [OF f c'])
  next
    case (LCheck r spin)
    then have "finv (goto t (LTry r spin) (kern s) s)" by (intro finv_goto [OF f]) simp_all
    moreover have "finv (goto t (LClear r spin) (upd_tcb t (\<lambda>x. x\<lparr>frap_queue_preempt_cnt := frap_queue_preempt_cnt x + 1\<rparr>) (kern s)) s)"
      using LCheck ok by (intro finv_fields [OF f wf(2)]) (simp_all add: task_ok_def is_idle_task_def)
    ultimately show ?thesis using e' LCheck by (auto simp: frap_lock_check_def split: if_splits)
  next
    case (LClear r spin)
    then have "finv (goto t (LReraise r spin) (upd_tcb t (\<lambda>x. x\<lparr>frap_cancelled := False\<rparr>) (kern s)) s)"
      using ok by (intro finv_fields [OF f wf(1)]) (simp_all add: task_ok_def is_idle_task_def)
    then show ?thesis using e' LClear by (simp add: frap_lock_clear_def)
  next
    case (LTry r spin)
    with e' finv_try [OF f c' LTry t_def] show ?thesis by (auto split: Option.bind_splits)
  next
    case (ULeave r)
    then have "finv (goto t (UUnlock r) (upd_tcb t (\<lambda>x. x\<lparr>frap_in_cs := False\<rparr>) (kern s)) s)"
      using ok by (intro finv_fields [OF f wf(3)]) (simp_all add: task_ok_def is_idle_task_def)
    then show ?thesis using e' ULeave by (simp add: frap_unlock_leave_def)
  next
    case (UUnlock r)
    with e' finv_unlock [OF f c' t_def] show ?thesis by auto
  next
    case (URr r)
    have "finv (goto t (URestore r) (sched_unlock_rr c t (kern s)) s)"
    proof (cases "sched_unlock_rr c t (kern s) = kern s")
      case True
      then show ?thesis using URr finv_goto [OF f, of "URestore r" t] by simp
    next
      case False
      then have "sched_unlock_rr c t (kern s) = upd_tcb t (\<lambda>x. x\<lparr>timeslice := rr_interval (kern s)\<rparr>) (kern s)"
        by (simp add: sched_unlock_rr_def split: if_splits)
      then show ?thesis using URr ok finvD(1) [OF f]
        by (auto intro!: finv_fields [OF f] sched_wf_tcb simp: task_ok_def is_idle_task_def)
    qed
    then show ?thesis using e' URr by simp
  next
    case (UDone r)
    then have "finv (goto t Out (upd_tcb t (\<lambda>x. x\<lparr>frap_waiting_res := None\<rparr>) (kern s)) s)"
      using ok by (intro finv_fields [OF f wf(4)]) (simp_all add: task_ok_def)
    then show ?thesis using e' UDone by (simp add: frap_unlock_done_def)
  qed (use e' in simp_all)
qed

lemma finv_hk: "finv s \<Longrightarrow> hook_ok (kern s) h \<Longrightarrow> finv (s\<lparr>hk := (hk s)(c := h)\<rparr>)"
  by (auto simp: finv_def owner_ok_def)

lemma finv_running: "finv s \<Longrightarrow> finv (s\<lparr>kern := set_running c t (kern s)\<rparr>)"
proof -
  assume f: "finv s"
  obtain Q where q: "fifo_ok (kern s) (res s) Q" using f by (auto simp: finv_def)
  have "fifo_ok (set_running c t (kern s)) (res s) Q" by (rule fifo_ok_cong [OF _ _ _ q]) (simp_all add: set_running_def)
  moreover have "task_ok (set_running c t (kern s)) = task_ok (kern s)" "hook_ok (set_running c t (kern s)) = hook_ok (kern s)"
    by (simp_all add: fun_eq_iff task_ok_def hook_ok_def is_idle_task_def set_running_def split: hook_pc.split)
  moreover have "owner_ok (s\<lparr>kern := set_running c t (kern s)\<rparr>)"
    using finvD(3) [OF f] by (simp add: owner_ok_def set_running_def)
  ultimately show ?thesis using f sched_wf_globals(3) [OF finvD(1) [OF f]] by (auto simp: finv_def)
qed

text \<open>The hook takes the task out of the FIFO it is in and marks the request as cancelled.\<close>

lemma finv_cut:
  assumes f: "finv s" and e: "frap_on_preempt_cut dbg r t (kern s) = Some k'"
  shows "finv (s\<lparr>kern := k'\<rparr>)" "is_idle_task k' t = is_idle_task (kern s) t"
proof -
  have ok: "task_ok (kern s) (res s) t (pcs s t)" by (rule finvD(2) [OF f])
  define g where "g = (\<lambda>x :: frap_tcb_s. x\<lparr>frap_cancelled := True, frap_queue_preempt_cnt := frap_queue_preempt_cnt x + 1\<rparr>)"
  obtain k1 where k1: "frap_queue_remove r t (kern s) = Some k1" "k' = upd_tcb t g k1"
    using e by (auto simp: frap_on_preempt_cut_def g_def split: Option.bind_splits)
  have fe: "fifo_eq t (kern s) k1"
    using k1(1) by (auto simp: frap_queue_remove_def fifo_eq_refl fifo_eq_set split: if_splits Option.bind_splits)
  have e1: "\<not> frap_enqueued (tcbs k1 t)"
    using k1(1) by (auto simp: frap_queue_remove_def split: if_splits Option.bind_splits)
  obtain Q where q: "fifo_ok (kern s) (res s) Q" using f by (auto simp: finv_def)
  obtain b h where k1': "k1 = set_enqueued t b (set_nodes h (kern s))" using fe by (auto simp: fifo_eq_def)
  have "\<exists>P. fifo_ok k1 (res s) P"
  proof (cases "frap_enqueued (tcbs (kern s) t)")
    case False
    then show ?thesis using k1 q by (auto simp: frap_queue_remove_absent)
  next
    case True
    then obtain r' xs where r': "Q r' = Some xs" "t \<in> set xs" using q by (auto simp: fifo_ok_def fifo_rep_def members_def)
    have rep: "fifo_rep (kern s) Q" using q by (simp add: fifo_ok_def)
    have "fifo_rep k1 (Q(r' \<mapsto> remove1 t xs))"
      by (rule frap_queue_remove_rep [OF rep r', where s = r]) (use k1 in simp)
    then have "fifo_ok k1 (res s) (Q(r' \<mapsto> remove1 t xs))"
      using q r' set_remove1_subset [of t xs] by (intro fifo_ok_upd [OF q]) (auto simp: fifo_ok_def k1')
    then show ?thesis by blast
  qed
  then obtain P where "fifo_ok k1 (res s) P" by blast
  then have P: "fifo_ok k' (res s) P" by (rule fifo_ok_cong [rotated -1]) (simp_all add: k1(2) g_def)
  have w: "sched_wf k'" unfolding k1(2) g_def by (rule sched_wf_frap_fields) (rule sched_wf_fifo_eq [OF fe finvD(1) [OF f]])
  have "others t (kern s) k'" unfolding k1(2) by (rule others_trans [OF others_fifo [OF fe] others_tcb]) (simp add: g_def)
  then have "finv (goto t (pcs s t) k' s)"
    using ok e1 finvD(3) [OF f] by (intro finv_step [OF f _ w _ P])
      (auto simp: owner_ok_def k1(2) k1' g_def task_ok_def is_idle_task_def)
  then show "finv (s\<lparr>kern := k'\<rparr>)" by (simp add: goto_same)
  show "is_idle_task k' t = is_idle_task (kern s) t" by (simp add: k1(2) k1' g_def is_idle_task_def)
qed

lemma hook_step_finv:
  assumes f: "finv s" and c: "c < ncpus (kern s)" and e: "hook_step dbg c s = Some s'"
  shows "finv s'"
proof (cases "hk s c")
  case HIdle
  define old where "old = g_running_tasks (kern s) c"
  obtain ro where ro: "frap_on_preempt_check dbg old (this_task c (kern s)) (kern s) = Some ro"
    and s': "s' = (case ro of None \<Rightarrow> s\<lparr>kern := set_running c (this_task c (kern s)) (kern s)\<rparr>
       | Some r \<Rightarrow> s\<lparr>hk := (hk s)(c := HCut old (this_task c (kern s)) r)\<rparr>)"
    using e HIdle unfolding hook_step_def Let_def old_def [symmetric] by (auto split: if_splits Option.bind_splits)
  show ?thesis
  proof (cases ro)
    case None
    then show ?thesis using s' finv_running [OF f] by simp
  next
    case (Some r)
    then have "frap_enqueued (tcbs (kern s) old)" using ro by (auto simp: frap_on_preempt_check_def split: if_splits)
    then have "spins (pcs s old)" using finvD(2) [OF f, of old] by (simp add: task_ok_def)
    then have "pcs s old \<noteq> Out" by (cases "pcs s old") simp_all
    then have "\<not> is_idle_task (kern s) old" by (rule finv_idle [OF f])
    then show ?thesis using s' Some finv_hk [OF f] by (simp add: hook_ok_def)
  qed
next
  case (HCut old new r)
  then obtain k1 where k1: "frap_on_preempt_cut dbg r old (kern s) = Some k1"
    "s' = s\<lparr>kern := k1, hk := (hk s)(c := HPrio old new)\<rparr>"
    using e by (auto simp: hook_step_def split: Option.bind_splits)
  have "hook_ok k1 (HPrio old new)"
    using finvD(4) [OF f, of c] HCut finv_cut(2) [OF f k1(1)] by (simp add: hook_ok_def)
  then show ?thesis using finv_hk [OF finv_cut(1) [OF f k1(1)], of "HPrio old new" c] k1(2) by simp
next
  case (HPrio old new)
  have i: "\<not> is_idle_task (kern s) old" using finvD(4) [OF f, of c] HPrio by (simp add: hook_ok_def)
  have "finv (s\<lparr>kern := frap_on_preempt_prio c old (kern s)\<rparr>)"
    unfolding frap_on_preempt_prio_def
    by (rule finv_quiet [OF f frap_set_prio_quiet [of c "{}"] frap_set_prio_wf [OF finvD(1) [OF f] c i]]) simp
  from finv_hk [OF finv_running [OF this, of c new], of HIdle c]
  show ?thesis using e HPrio by (simp add: hook_step_def hook_ok_def)
qed

lemma finv_init:
  assumes f: "finv s" and r: "r \<notin> set (res s)"
  shows "finv (s\<lparr>kern := snd (frap_res_init (Some r) ident g (kern s)), res := r # res s\<rparr>)"
proof -
  define k where "k = kern s"
  define k' where "k' = snd (frap_res_init (Some r) ident g k)"
  have k': "tcbs k' = tcbs k" "nodes k' = fifo_init (nodes k) r" "ncpus k' = ncpus k" "g_idletcb k' = g_idletcb k"
    "g_assignedtasks k' = g_assignedtasks k" "tlists k' = tlists k"
    "frap_ress k' = (frap_ress k)(r := (frap_ress k r)\<lparr>sl := SP_UNLOCKED, owner := None, resid := ident, is_global := g, ceiling := 0\<rparr>)"
    by (simp_all add: k'_def frap_res_init_def Let_def fifo_init_def)
  obtain Q where q: "fifo_ok k (res s) Q" using f by (auto simp: finv_def k_def)
  then have n: "Q r = None" using r by (auto simp: fifo_ok_def)
  have "wl_rep (nodes k') (Q(r \<mapsto> []))" using q n unfolding k'(2) by (intro wl.rep_init) (simp_all add: fifo_ok_def fifo_rep_def)
  moreover have "members (Q(r \<mapsto> [])) = members Q" using n unfolding members_def
    by (intro set_eqI) (simp, metis option.distinct(1))
  ultimately have "fifo_ok k' (r # res s) (Q(r \<mapsto> []))" using q by (auto simp: fifo_ok_def fifo_rep_def k' split: if_splits)
  moreover have "task_ok k' (r # res s) t (pcs s t)" for t
    using finvD(2) [OF f, of t] r by (auto simp: task_ok_def k' k_def is_idle_task_def)
  moreover have "pcs s t \<noteq> CS r" for t using finvD(2) [OF f, of t] r by (auto simp: task_ok_def)
  then have "owner_ok (s\<lparr>kern := k', res := r # res s\<rparr>)"
    using finvD(3) [OF f] r by (auto simp: owner_ok_def k' k_def)
  moreover have "hook_ok k' (hk s c)" for c
    using finvD(4) [OF f, of c] by (simp add: hook_ok_def is_idle_task_def k' k_def split: hook_pc.splits)
  moreover have "sched_wf k'" using finvD(1) [OF f] by (rule sched_wf_cong) (simp_all add: k' k_def)
  ultimately show ?thesis by (auto simp: finv_def k'_def k_def)
qed

lemma finv_enter:
  assumes f: "finv s" and c: "cpu_free c s" and o: "pcs s (this_task c (kern s)) = Out"
    and i: "\<not> is_idle_task (kern s) (this_task c (kern s))" "lockcount (tcbs (kern s) (this_task c (kern s))) = 0"
    and r: "case ro of None \<Rightarrow> True | Some r \<Rightarrow> r \<in> set (res s)"
    and e: "frap_lock_enter dbg c ro (kern s) = Some (x, k')"
  shows "finv (case x of Inl ret \<Rightarrow> s\<lparr>kern := k'\<rparr> | Inr (r, t, spin) \<Rightarrow> goto t (LRaise r spin) k' s)"
proof (cases x)
  case (Inl ret)
  then have "k' = kern s" using e by (auto simp: frap_lock_enter_def Let_def split: option.splits if_splits Option.bind_splits)
  then show ?thesis using f Inl by simp
next
  case (Inr y)
  define t where "t = this_task c (kern s)"
  define g where "g = (\<lambda>q b (x :: frap_tcb_s). x\<lparr>frap_waiting_res := Some q, frap_base_prio := prio (kern s) t,
      frap_spin_prio := b, frap_cancelled := False, frap_in_cs := False\<rparr>)"
  obtain q spin where y: "y = (q, t, spin)" "ro = Some q" "is_global (frap_ress (kern s) q)"
    and k': "k' = upd_tcb t (g q (word_of_int spin)) (kern s)"
    using e Inr by (auto simp: frap_lock_enter_def Let_def g_def t_def split: option.splits if_splits Option.bind_splits)
  have ok: "task_ok (kern s) (res s) t Out" using finvD(2) [OF f, of t] o by (simp add: t_def)
  have "finv (goto t (LRaise q spin) (upd_tcb t (g q (word_of_int spin)) (kern s)) s)"
    using ok i r y o sched_wf_tcb [OF finvD(1) [OF f], of "g q (word_of_int spin)" t]
    by (intro finv_fields [OF f]) (simp_all add: g_def task_ok_def t_def is_idle_task_def)
  then show ?thesis using Inr y k' by simp
qed

lemma finv_release:
  assumes f: "finv s" and c: "cpu_free c s" and p: "pcs s (this_task c (kern s)) = CS r"
    and e: "frap_unlock_release dbg c (Some r) (kern s) = Some (r', t, k')"
  shows "finv (goto t (ULeave r) k' s)"
proof -
  have t: "t = this_task c (kern s)" and k': "k' = upd_res r (\<lambda>x. x\<lparr>owner := None\<rparr>) (kern s)"
    using e by (auto simp: frap_unlock_release_def Let_def split: Option.bind_splits)
  obtain Q where q: "fifo_ok (kern s) (res s) Q" using f by (auto simp: finv_def)
  have ok: "task_ok (kern s) (res s) t (CS r)" using finvD(2) [OF f, of t] p t by simp
  have q': "fifo_ok k' (res s) Q" by (rule fifo_ok_cong [OF _ _ _ q]) (simp_all add: k')
  show ?thesis
  proof (rule finv_step [OF f _ _ _ q'])
    show "others t (kern s) k'" unfolding k' by (rule others_res) simp
    show "sched_wf k'" unfolding k' by (rule sched_wf_globals) (rule finvD(1) [OF f])
    show "task_ok k' (res s) t (ULeave r)" using ok by (auto simp: task_ok_def k' is_idle_task_def)
    show "owner (frap_ress k' r1) = Some u \<longleftrightarrow> ((pcs s)(t := ULeave r)) u = CS r1" if "r1 \<in> set (res s)" for r1 u
    proof -
      have o: "owner (frap_ress (kern s) r1) = Some u \<longleftrightarrow> pcs s u = CS r1"
        if "r1 \<in> set (res s)" for r1 u using finvD(3) [OF f] that by (simp add: owner_ok_def)
      have r: "r \<in> set (res s)" "pcs s t = CS r" using ok p t by (simp_all add: task_ok_def)
      show ?thesis
      proof (cases "u = t")
        case True
        then show ?thesis using o [OF that, of t] r by (simp add: k')
      next
        case False
        then have "pcs s u \<noteq> CS r" using o [OF r(1), of t] o [OF r(1), of u] r by simp
        with False show ?thesis using o [OF that, of u] by (simp add: k')
      qed
    qed
  qed
qed

lemma wake_wf:
  assumes "sched_wf k" "c < ncpus k" "tlist_blocked (tcbs k t) = Some l"
  shows "sched_wf (wake c t k)" "quiet c {} k (wake c t k)"
proof -
  define k1 where "k1 = nxsched_remove_blocked t k"
  have 1: "sched_wf k1" unfolding k1_def by (rule nxsched_remove_blocked_wf [OF assms(1,3)])
  have 2: "tcbs k1 t = (tcbs k t)\<lparr>waitobj := None, task_state := TSTATE_TASK_INVALID\<rparr>" "ncpus k1 = ncpus k"
    using assms(3) by (simp_all add: k1_def nxsched_remove_blocked_def tl_rem_def)
  show "sched_wf (wake c t k)"
    unfolding wake_def k1_def [symmetric] by (rule nxsched_add_readytorun_wf [OF 1]) (use assms 2 in simp_all)
  show "quiet c {} k (wake c t k)"
    unfolding wake_def by (rule quiet_trans [OF quiet_blocked(1) quiet_add_readytorun])
qed

lemma sleep_wf:
  assumes w: "sched_wf k" and c: "c < ncpus k" and i: "\<not> is_idle_task k (this_task c k)"
    and l: "tlist_blocked ((tcbs k (this_task c k))\<lparr>waitobj := wo, task_state := st\<rparr>) = Some l"
  shows "sched_wf (sleep c st wo k)" "quiet c {this_task c k} k (sleep c st wo k)"
proof -
  define t where "t = this_task c k"
  define k1 where "k1 = nxsched_remove_self t k"
  define k2 where "k2 = upd_tcb t (\<lambda>x. x\<lparr>waitobj := wo\<rparr>) k1"
  have t: "tstate_of k t = TSTATE_TASK_RUNNING" "cpu (tcbs k t) = c" "g_assignedtasks k c = t"
    using w c current_running [of k c] by (auto simp: sched_wf_def cpus_wf_def t_def this_task_def current_task_def)
  have 1: "sched_wf k1" unfolding k1_def nxsched_remove_self_def using w t i by (intro nxsched_remove_running_wf) (simp_all add: t_def)
  have st1: "tstate_of k1 t = TSTATE_TASK_INVALID"
    unfolding k1_def nxsched_remove_self_def by (rule nxsched_remove_running_state [OF w t(1)]) (use i in \<open>simp add: t_def\<close>)
  have 2: "sched_wf k2"
    unfolding k2_def using st1 by (intro sched_wf_waitobj [OF 1]) simp
  have eq: "tcbs k1 t = (tcbs k t)\<lparr>task_state := TSTATE_TASK_INVALID, cpu := cpu (tcbs k1 t)\<rparr>"
    using st1 nxsched_remove_running_eq [of k t] unfolding k1_def nxsched_remove_self_def sched_eq_def by (metis (no_types) tcb_state_cpu)
  have "tlist_blocked ((tcbs k2 t)\<lparr>task_state := st\<rparr>) = Some l"
    using l by (simp add: k2_def eq tlist_blocked_def t_def split: tstate.splits)
  then show "sched_wf (sleep c st wo k)"
    unfolding sleep_def Let_def t_def [symmetric] k1_def [symmetric] k2_def [symmetric]
    by (intro nxsched_add_blocked_wf [OF 2]) (simp_all add: k2_def st1 tlist_blocked_def)
  have "quiet c {t} k k1" unfolding k1_def nxsched_remove_self_def by (rule quiet_remove_running [OF t(2,3)])
  also have "quiet c {t} k1 k2" unfolding k2_def by (rule quiet_tcb) simp_all
  also have "quiet c {t} k2 (nxsched_add_blocked t st k2)" by (rule quiet_blocked)
  finally show "quiet c {this_task c k} k (sleep c st wo k)"
    by (simp add: sleep_def Let_def t_def k1_def k2_def)
qed

lemma finv_spin:
  "finv s \<Longrightarrow> finv (s\<lparr>kern := upd_tcb t (\<lambda>x. x\<lparr>frap_spin_prio := p\<rparr>) (kern s)\<rparr>)"
  using finv_fields [of s t "\<lambda>x. x\<lparr>frap_spin_prio := p\<rparr>" "pcs s t"] finvD(2) [of s t]
    sched_wf_frap_fields(5) [OF finvD(1)]
  by (simp add: goto_same task_ok_def is_idle_task_def)

lemma finv_slock:
  assumes "finv s" "pcs s t = Out"
  shows "finv (s\<lparr>kern := upd_tcb t (\<lambda>x. x\<lparr>lockcount := n x\<rparr>) (kern s)\<rparr>)"
proof -
  have "finv (goto t (pcs s t) (upd_tcb t (\<lambda>x. x\<lparr>lockcount := n x\<rparr>) (kern s)) s)"
    using finvD(2) [OF assms(1), of t] assms(2)
    by (intro finv_fields [OF assms(1)] sched_wf_tcb [OF finvD(1) [OF assms(1)]]) (simp_all add: task_ok_def)
  then show ?thesis by (simp add: goto_same)
qed

theorem frap_step_finv:
  assumes f: "finv s" and e: "frap_step dbg a s = Some s'"
  shows "finv s'"
proof (cases a)
  case (Init r ident g)
  then show ?thesis using e finv_init [OF f] by (auto simp: frap_step_def guarded_def Let_def split: if_splits)
next
  case (SetSpin c p)
  then show ?thesis using e finv_spin [OF f] by (auto simp: frap_step_def guarded_def frap_set_spin_prio_def Let_def split: if_splits)
next
  case (Lock c ro)
  then show ?thesis using e finv_enter [OF f]
    by (auto simp: frap_step_def guarded_def Let_def split: if_splits Option.bind_splits)
next
  case (Task c)
  then show ?thesis using e task_step_finv [OF f] by (auto simp: frap_step_def guarded_def Let_def split: if_splits)
next
  case (Unlock c)
  then show ?thesis using e finv_release [OF f]
    by (auto simp: frap_step_def guarded_def Let_def split: if_splits frap_pc.splits Option.bind_splits)
next
  case (Hook c)
  then show ?thesis using e hook_step_finv [OF f] by (auto simp: frap_step_def guarded_def Let_def split: if_splits)
next
  case (Delivered c)
  then show ?thesis
    using e finv_quiet [OF f quiet_process_delivered [of c "{}"] nxsched_process_delivered_wf [OF finvD(1) [OF f]]]
    by (auto simp: frap_step_def guarded_def cpu_free_def Let_def split: if_splits)
next
  case (Wake c t)
  then obtain l where "c < ncpus (kern s)" "tlist_blocked (tcbs (kern s) t) = Some l" "s' = s\<lparr>kern := wake c t (kern s)\<rparr>"
    using e by (auto simp: frap_step_def guarded_def cpu_free_def Let_def split: if_splits option.splits)
  then show ?thesis using finv_quiet [OF f wake_wf(2,1)] finvD(1) [OF f] by auto
next
  case (Sleep c st wo)
  then obtain l where l: "c < ncpus (kern s)" "pcs s (this_task c (kern s)) = Out" "\<not> is_idle_task (kern s) (this_task c (kern s))"
    "tlist_blocked ((tcbs (kern s) (this_task c (kern s)))\<lparr>waitobj := wo, task_state := st\<rparr>) = Some l"
    "s' = s\<lparr>kern := sleep c st wo (kern s)\<rparr>"
    using e by (auto simp: frap_step_def guarded_def cpu_free_def Let_def split: if_splits option.splits)
  show ?thesis unfolding l(5)
    by (rule finv_quiet [OF f sleep_wf(2,1) [OF finvD(1) [OF f] l(1,3,4)]]) (use l in simp)
next
  case (SetPrio c t p)
  then show ?thesis
    using e finv_quiet [OF f quiet_set_priority [of c "{}"] nxsched_set_priority_wf [OF finvD(1) [OF f]]]
    by (auto simp: frap_step_def guarded_def cpu_free_def Let_def split: if_splits)
next
  case (SLock c)
  then show ?thesis using e finv_slock [OF f] by (auto simp: frap_step_def guarded_def sched_lock_def Let_def split: if_splits)
next
  case (SUnlock c)
  then have "c < ncpus (kern s)" "pcs s (this_task c (kern s)) = Out" "s' = s\<lparr>kern := snd (sched_unlock c (kern s))\<rparr>"
    using e by (auto simp: frap_step_def guarded_def cpu_free_def Let_def split: if_splits)
  then show ?thesis using finv_unlock [OF f, of c "this_task c (kern s)" r Out] goto_same [of "this_task c (kern s)" s] by simp
qed

lemma frap_start_finv:
  assumes "frap_start s"
  shows "finv s"
proof -
  have "fifo_ok (kern s) (res s) Map.empty"
    using assms by (simp add: frap_start_def fifo_ok_def fifo_rep_def wl_rep_def members_def)
  then show ?thesis using assms
    by (auto simp: frap_start_def finv_def task_ok_def owner_ok_def hook_ok_def)
qed

theorem frap_reach_finv: "frap_reach dbg s \<Longrightarrow> finv s"
  by (induction rule: frap_reach.induct) (auto intro: frap_start_finv frap_step_finv)

end
