(* ===== verification/Two_Cpus.thy ===== *)
theory Two_Cpus
  imports Task_Setup Frap_Inv
begin

text \<open>
  A concrete system with two CPUs: the idle tasks 0 and 1, the tasks 2 and 3 of priority 100 and
  spin priority 150, running on CPU 0 and CPU 1, and the task 4 of priority 200, bound to CPU 0 and
  blocked on the semaphore 0. It satisfies the invariants, and the states below
  are reached from it; they are the concrete inputs of the properties.
\<close>

definition demo_tcb :: "int \<Rightarrow> u8 \<Rightarrow> nat \<Rightarrow> tstate \<Rightarrow> frap_tcb_s" where
  "demo_tcb p q c st =
     zero_tcb\<lparr>pid := p, sched_priority := q, init_priority := q, base_priority := q, cpu := c, task_state := st,
       affinity := 3, flags := TCB_FLAG_SCHED_RR, timeslice := 20, frap_spin_prio := 150\<rparr>"

definition demo_tcbs :: "tid \<Rightarrow> frap_tcb_s" where
  "demo_tcbs t =
     (if t = 0 then demo_tcb 0 0 0 TSTATE_TASK_ASSIGNED
      else if t = 1 then demo_tcb 1 0 1 TSTATE_TASK_ASSIGNED
      else if t = 2 then demo_tcb 2 100 0 TSTATE_TASK_RUNNING
      else if t = 3 then demo_tcb 3 100 1 TSTATE_TASK_RUNNING
      else if t = 4 then (demo_tcb 4 200 0 TSTATE_WAIT_SEM)\<lparr>waitobj := Some (WSem 0), affinity := 1\<rparr>
      else demo_tcb (int t) 0 0 TSTATE_TASK_INVALID)"

definition demo_kernel :: kernel where
  "demo_kernel =
     \<lparr>ncpus = 2, rr_interval = 20, g_idletcb = (\<lambda>i. i), tcbs = demo_tcbs, tlists = (\<lambda>l. if l = L_sem 0 then [4] else []),
      g_assignedtasks = (\<lambda>c. if c = 0 then 2 else 3), g_running_tasks = (\<lambda>c. if c = 0 then 2 else 3), g_delivertasks = (\<lambda>_. SWITCH_NONE),
      g_lastpid = 4, g_npidhash = 8, g_pidhash = (\<lambda>i. if i < 5 then Some i else None),
      frap_ress = (\<lambda>_. \<lparr>sl = SP_UNLOCKED, owner = None, resid = 0, is_global = False, ceiling = 0\<rparr>),
      nodes = (\<lambda>_. \<lparr>nxt = None, prv = None\<rparr>)\<rparr>"

definition demo :: fstate where
  "demo = \<lparr>kern = demo_kernel, pcs = (\<lambda>_. Out), hk = (\<lambda>_. HIdle), res = []\<rparr>"

lemma demo_kernel_sel [simp]:
  "ncpus demo_kernel = 2" "g_idletcb demo_kernel = (\<lambda>i. i)" "tcbs demo_kernel = demo_tcbs" "tlists demo_kernel = (\<lambda>l. if l = L_sem 0 then [4] else [])"
  "g_assignedtasks demo_kernel = (\<lambda>c. if c = 0 then 2 else 3)" "g_running_tasks demo_kernel = (\<lambda>c. if c = 0 then 2 else 3)"
  "g_delivertasks demo_kernel = (\<lambda>_. SWITCH_NONE)" "rr_interval demo_kernel = 20"
  "g_lastpid demo_kernel = 4" "g_npidhash demo_kernel = 8" "g_pidhash demo_kernel = (\<lambda>i. if i < 5 then Some i else None)"
  "nodes demo_kernel = (\<lambda>_. \<lparr>nxt = None, prv = None\<rparr>)"
  "frap_ress demo_kernel = (\<lambda>_. \<lparr>sl = SP_UNLOCKED, owner = None, resid = 0, is_global = False, ceiling = 0\<rparr>)"
  by (simp_all add: demo_kernel_def)

lemma demo_tcb_sel [simp]:
  "pid (demo_tcb p q c st) = p" "sched_priority (demo_tcb p q c st) = q" "cpu (demo_tcb p q c st) = c"
  "task_state (demo_tcb p q c st) = st" "affinity (demo_tcb p q c st) = 3" "lockcount (demo_tcb p q c st) = 0"
  "flags (demo_tcb p q c st) = TCB_FLAG_SCHED_RR" "waitobj (demo_tcb p q c st) = None"
  "frap_spin_prio (demo_tcb p q c st) = 150" "frap_enqueued (demo_tcb p q c st) = False"
  "frap_in_cs (demo_tcb p q c st) = False" "frap_cancelled (demo_tcb p q c st) = False"
  "frap_waiting_res (demo_tcb p q c st) = None" "frap_saved_prio (demo_tcb p q c st) = 0"
  by (simp_all add: demo_tcb_def zero_tcb_def)

lemma demo_tcbs_at [simp]:
  "demo_tcbs 0 = demo_tcb 0 0 0 TSTATE_TASK_ASSIGNED" "demo_tcbs (Suc 0) = demo_tcb 1 0 1 TSTATE_TASK_ASSIGNED"
  "demo_tcbs 1 = demo_tcb 1 0 1 TSTATE_TASK_ASSIGNED"
  "demo_tcbs 2 = demo_tcb 2 100 0 TSTATE_TASK_RUNNING" "demo_tcbs 3 = demo_tcb 3 100 1 TSTATE_TASK_RUNNING"
  "demo_tcbs 4 = (demo_tcb 4 200 0 TSTATE_WAIT_SEM)\<lparr>waitobj := Some (WSem 0), affinity := 1\<rparr>"
  by (simp_all add: demo_tcbs_def)

lemma less_two: "(c :: nat) < 2 \<longleftrightarrow> c = 0 \<or> c = 1"
  by auto

lemma demo_sched_wf: "sched_wf demo_kernel"
  unfolding sched_wf_def
proof (intro conjI)
  show "lists_wf demo_kernel"
    by (auto simp: lists_wf_def demo_tcbs_def tlist_blocked_def)
  show "cpus_wf demo_kernel"
    by (auto simp: cpus_wf_def demo_tcbs_def less_two)
  show "idle_wf demo_kernel"
    by (auto simp: idle_wf_def demo_tcbs_def less_two is_idle_task_def split: if_splits)
qed

lemma demo_start: "frap_start demo"
  by (simp add: frap_start_def demo_def demo_sched_wf demo_tcbs_def)

text \<open>The definitions a run of the machine evaluates.\<close>

lemmas run_simps =
  frap_step_def guarded_def Let_def demo_def frap_res_init_def set_nodes_def list_initialize_def set_nxt_def set_prv_def
  cpu_free_def this_task_def current_task_def is_idle_task_def frap_lock_enter_def frap_get_spin_prio_def DEBUGASSERT_def goto_def
  task_step_def frap_set_prio_def frap_set_prio_weak_def nxsched_set_priority_def nxsched_running_setpriority_def tl_peek_def
  frap_lock_check_def frap_lock_try_def frap_can_enter_def frap_queue_peek_head_def list_peek_head_def
  frap_queue_enqueue_head_if_needed_def frap_queue_enqueue_tail_def frap_queue_remove_def
  list_add_head_def list_add_tail_def list_delete_def list_delete_fast_def list_clear_node_def
  set_enqueued_def sched_lock_def upd_res_def upd_tcb_def

lemmas switch_simps =
  tcb_of_node_def wake_def nxsched_remove_blocked_def tlist_blocked_def tl_rem_def upd_list_def nxsched_add_readytorun_def
  cpu_locked_def TCB_FLAG_SCHED_RR_def TCB_FLAG_CPU_LOCKED_def TCB_FLAG_POLICY_MASK_def nxsched_select_cpu_def CPU_ISSET_def upt_rec
  tl_add_prioritized_def ins_desc_def nxsched_deliver_task_def nxsched_process_delivered_def nxsched_switch_running_def
  nxsched_islocked_tcb_def may_run_on_def hook_step_def frap_on_preempt_check_def frap_on_preempt_cut_def frap_on_preempt_prio_def
  frap_unlock_release_def frap_unlock_leave_def sched_unlock_def sched_unlock_rr_def frap_unlock_restore_def set_running_def

text \<open>Task 2 in its critical section, and task 3 queued behind it.\<close>

definition demo_trace :: "action list" where
  "demo_trace = [Init 0 7 True, Lock 0 (Some 0), Task 0, Task 0, Task 0, Lock 1 (Some 0), Task 1, Task 1, Task 1]"

definition demo_held :: fstate where
  "demo_held = the (frap_run True demo_trace demo)"

lemma demo_held_run: "frap_run True demo_trace demo = Some demo_held"
proof -
  have "\<exists>s. frap_run True demo_trace demo = Some s" by (simp add: demo_trace_def run_simps tcb_of_node_def)
  then show ?thesis by (auto simp: demo_held_def)
qed

lemma demo_held_reach: "frap_reach True demo_held"
  by (rule frap_run_reach [OF frap_reach.start [OF demo_start] demo_held_run])

lemma demo_held_sel:
  "pcs demo_held 2 = CS 0" "pcs demo_held 3 = LCheck 0 150" "res demo_held = [0]" "ncpus (kern demo_held) = 2"
  "g_assignedtasks (kern demo_held) 0 = 2" "g_assignedtasks (kern demo_held) 1 = 3"
  "cpu_free 0 demo_held" "cpu_free 1 demo_held" "frap_enqueued (tcbs (kern demo_held) 3)"
  "nxt (nodes (kern demo_held) (Fifo 0)) = Some (Waiter 3)" "prv (nodes (kern demo_held) (Fifo 0)) = Some (Waiter 3)"
  "nxt (nodes (kern demo_held) (Waiter 3)) = Some (Fifo 0)" "prv (nodes (kern demo_held) (Waiter 3)) = Some (Fifo 0)"
  "owner (frap_ress (kern demo_held) 0) = Some 2"
  by (simp_all add: demo_held_def demo_trace_def run_simps tcb_of_node_def)

end
