(* ===== verification/Sem_Demo.thy ===== *)
theory Sem_Demo
  imports Sem_Ops Two_Cpus
begin

text \<open>
  Concrete states of the semaphores on the system of theory \<open>Two_Cpus\<close>: task 2 holds semaphore 0, task 4 waits
  for it, semaphore 1 is free. They are the concrete inputs of the properties, and runs from
  them show where the code departs from its documentation.
\<close>

text \<open>The flags and the value of semaphore 0 are parameters.\<close>

definition demo_sys :: "u8 \<Rightarrow> u32 \<Rightarrow> semsys" where
  "demo_sys fl v =
     \<lparr>sk = demo_kernel,
      sems = (\<lambda>s. if s = 0 then \<lparr>sval = v, sflags = fl, hhead = [0], sceiling = 120, ssaved = 0\<rparr>
                  else if s = 1 then \<lparr>sval = 1, sflags = SEM_PRIO_INHERIT, hhead = [], sceiling = 0, ssaved = 0\<rparr>
                  else \<lparr>sval = 0, sflags = SEM_PRIO_NONE, hhead = [], sceiling = 0, ssaved = 0\<rparr>),
      holders = (\<lambda>p. if p = 0 then \<lparr>hsem = Some 0, htcb = Some 2, counts = 1\<rparr> else \<lparr>hsem = None, htcb = None, counts = 0\<rparr>),
      holdsem = (\<lambda>t. if t = 2 then [0] else []),
      g_freeholders = [1, 2, 3]\<rparr>"

lemma demo_sys_sel [simp]:
  "sk (demo_sys fl v) = demo_kernel" "g_freeholders (demo_sys fl v) = [1, 2, 3]"
  "sems (demo_sys fl v) 0 = \<lparr>sval = v, sflags = fl, hhead = [0], sceiling = 120, ssaved = 0\<rparr>"
  "sems (demo_sys fl v) 1 = \<lparr>sval = 1, sflags = SEM_PRIO_INHERIT, hhead = [], sceiling = 0, ssaved = 0\<rparr>"
  "sems (demo_sys fl v) (Suc 0) = \<lparr>sval = 1, sflags = SEM_PRIO_INHERIT, hhead = [], sceiling = 0, ssaved = 0\<rparr>"
  "sems (demo_sys fl v) 2 = \<lparr>sval = 0, sflags = SEM_PRIO_NONE, hhead = [], sceiling = 0, ssaved = 0\<rparr>"
  "holders (demo_sys fl v) 0 = \<lparr>hsem = Some 0, htcb = Some 2, counts = 1\<rparr>" "holdsem (demo_sys fl v) 2 = [0]"
  by (simp_all add: demo_sys_def)

lemma demo_holders_wf: "holders_wf 4 (demo_sys fl v)"
  by (auto simp: holders_wf_def demo_sys_def is_idle_task_def split: if_splits)

text \<open>The count of semaphore 0 is -1, for its one waiter.\<close>

lemma demo_sem_inv:
  assumes "NXSEM_IS_MUTEX (sems (demo_sys fl v) 0) \<or> v = - 1"
  shows "sem_inv 4 (demo_sys fl v)"
proof -
  have "count_ok (demo_sys fl v) s" for s
    using assms by (auto simp: count_ok_def demo_sys_def semcount_def)
  then show ?thesis by (simp add: sem_inv_def demo_holders_wf demo_sched_wf)
qed

section \<open>Runs\<close>

lemmas sem_const_simps =
  SEM_PRIO_NONE_def SEM_PRIO_INHERIT_def SEM_PRIO_PROTECT_def SEM_PRIO_MASK_def SEM_TYPE_MUTEX_def SEM_VALUE_MAX_def
  NXSEM_MBLOCKING_BIT_def NXSEM_NO_MHOLDER_def NXSEM_MRESET_def NXSEM_IS_MUTEX_def NXSEM_MACQUIRED_def NXSEM_MBLOCKING_def
  sem_proto_def semcount_def

lemmas sem_run_simps =
  sem_const_simps sem_upd_defs demo_sys_def nxsem_freeholder_def nxsem_foreachholder_def nxsem_restoreholderprio_def
  nxsem_restore_priority_def nxsem_freecount0holder_def nxsem_restore_baseprio_def nxsem_canceled_def nxsem_wait_irq_def
  nxsem_timeout_def nxsem_recover_def nxsem_release_all.simps nxsem_post_slow_def nxsem_post_release_def nxsem_release_holder_def
  nxsem_wake_first_def sem_fastpath_def nxsem_post_def set_priority_def

text \<open>
  The recovery of an exiting task gives its count back without waking a waiting task, and the next post
  does not wake it either.
\<close>

lemma recover_loses_waiter:
  "\<exists>y sw y'. nxsem_recover 1 2 (demo_sys SEM_PRIO_INHERIT (- 1)) = Some y \<and> semcount (sems y 0) = 0 \<and> SEM_WAITLIST 0 y = [4] \<and>
     nxsem_post 1 0 y = Some (OK, sw, y') \<and> semcount (sems y' 0) = 1 \<and> SEM_WAITLIST 0 y' = [4]"
  by (simp add: sem_run_simps run_simps switch_simps) blast

text \<open>
  The priorities of the holders are restored while the interrupted task is still in the wait list, so that a holder
  keeps the priority it inherited from it.
\<close>

definition demo_boosted :: semsys where
  "demo_boosted = set_priority 0 2 200 (demo_sys SEM_PRIO_INHERIT (- 1))"

lemma interrupted_wait_keeps_boost:
  "\<exists>sw y. nxsem_timeout 1 4 demo_boosted = Some (sw, y) \<and> SEM_WAITLIST 0 y = [] \<and>
     base_priority (tcbs (sk y) 2) = 100 \<and> prio (sk y) 2 = 200"
  by (simp add: demo_boosted_def sem_run_simps run_simps switch_simps demo_tcb_def zero_tcb_def) blast

text \<open>The fast path of a post does not check for the largest count: it wraps to the smallest one.\<close>

lemma post_fast_overflows:
  "\<exists>y'. nxsem_post 0 0 (demo_sys SEM_PRIO_NONE 0x7fffffff) = Some (OK, False, y') \<and> semcount (sems y' 0) = - (2 ^ 31)"
  "nxsem_post_slow 0 0 (demo_sys SEM_PRIO_NONE 0x7fffffff) = Some (- EOVERFLOW, False, demo_sys SEM_PRIO_NONE 0x7fffffff)"
  by (simp_all add: sem_run_simps)

text \<open>
  A wait for a semaphore with the priority protection does not lock preemption, but unlocks it at its end: the lock
  count of the task becomes negative.
\<close>

lemma nxsem_block_unlocked:
  assumes "sem_proto (sems y s) \<noteq> SEM_PRIO_INHERIT" "nxsem_block c s None y = Some y'"
  shows "lockcount (tcbs (sk y') t) = lockcount (tcbs (sk y) t)"
  using assms
  by (auto simp: nxsem_block_def Let_def upd_sk_def nxsched_remove_self_def sched_eqD(5) [OF nxsched_remove_running_eq])

lemma protect_wait_unbalanced:
  assumes "sem_proto (sems y s) = SEM_PRIO_PROTECT" "\<not> NXSEM_IS_MUTEX (sems y s)" "nxsem_wait_slow c s y = Some (WBlocked, y')"
  shows "lockcount (tcbs (sk y') t) = lockcount (tcbs (sk y) t)"
    and "this_task d (sk y'') = t \<Longrightarrow> lockcount (tcbs (sk y'') t) = 0 \<Longrightarrow>
      lockcount (tcbs (sk (snd (nxsem_wait_resume d s (sem_proto (sems y s)) y''))) t) = - 1"
proof -
  have "nxsem_block c s None (set_sval s (sval (sems y s) - 1) y) = Some y'"
    using assms by (auto simp: nxsem_wait_slow_def Let_def bind_eq_Some_conv split: if_splits prod.splits)
  from nxsem_block_unlocked [OF _ this] assms(1) show "lockcount (tcbs (sk y') t) = lockcount (tcbs (sk y) t)" by simp
  show "this_task d (sk y'') = t \<Longrightarrow> lockcount (tcbs (sk y'') t) = 0 \<Longrightarrow>
      lockcount (tcbs (sk (snd (nxsem_wait_resume d s (sem_proto (sems y s)) y''))) t) = - 1"
    using assms(1) by (auto simp: nxsem_wait_resume_def sched_unlock_def Let_def upd_sk_def SEM_PRIO_PROTECT_def)
qed

end
