(* ===== verification/Sem_Props.thy ===== *)
theory Sem_Props
  imports Sem_Demo
begin

text \<open>The properties of the semaphores and mutexes, each with a concrete input.\<close>

section \<open>Counting semaphores\<close>

text \<open>A wait for a counting semaphore whose count is positive takes one count and returns at once: no task is
  moved, and the invariant (the scheduler's lists, the containers of the holders, and the counts, each negative
  count being the number of waiting tasks) is kept.\<close>

theorem sem_wait_takes:
  assumes "sem_inv n y" and "sem_proto (sems y s) = SEM_PRIO_INHERIT \<Longrightarrow> g_freeholders y \<noteq> []"
    and "\<not> NXSEM_IS_MUTEX (sems y s)" and "sem_proto (sems y s) \<noteq> SEM_PRIO_PROTECT" and "0 < semcount (sems y s)"
  shows "\<exists>y'. nxsem_wait_slow c s y = Some (WReturned OK, y') \<and> sem_inv n y' \<and> sk y' = sk y \<and>
    semcount (sems y' s) = semcount (sems y s) - 1"
  by (rule nxsem_wait_slow_takes [OF assms])

theorem sem_wait_takes_witness:
  "\<exists>y'. nxsem_wait_slow 0 1 (demo_sys SEM_PRIO_INHERIT (- 1)) = Some (WReturned OK, y') \<and> semcount (sems y' 1) = 0"
proof -
  have "sem_inv 4 (demo_sys SEM_PRIO_INHERIT (- 1))" by (rule demo_sem_inv) simp
  from sem_wait_takes [OF this, of 1 0] show ?thesis by (auto simp: sem_const_simps)
qed

text \<open>C21: a wait for a counting semaphore without a count blocks the calling task in the prioritized wait list of
  the semaphore and keeps the invariant. With priority inheritance every holder then has at least the
  priority of the waiting task.\<close>

theorem sem_wait_blocks:
  assumes "sem_inv n y" and "c < ncpus (sk y)" and "sem_proto (sems y s) = SEM_PRIO_INHERIT \<Longrightarrow> g_freeholders y \<noteq> []"
    and "t = this_task c (sk y)" and "\<not> is_idle_task (sk y) t"
    and "0 \<le> sint (lockcount (tcbs (sk y) t))" and "sint (lockcount (tcbs (sk y) t)) < 2 ^ 15 - 1"
    and "\<not> NXSEM_IS_MUTEX (sems y s)" and "semcount (sems y s) \<le> 0" and "- (2 ^ 31) < semcount (sems y s)"
  shows "\<exists>y'. nxsem_wait_slow c s y = Some (WBlocked, y') \<and> sem_inv n y' \<and>
    semcount (sems y' s) = semcount (sems y s) - 1 \<and> mset (SEM_WAITLIST s y') = add_mset t (mset (SEM_WAITLIST s y)) \<and>
    desc (prio (sk y')) (SEM_WAITLIST s y') \<and> tstate_of (sk y') t = TSTATE_WAIT_SEM \<and> waitobj (tcbs (sk y') t) = Some (WSem s) \<and>
    (sem_proto (sems y s) = SEM_PRIO_INHERIT \<longrightarrow>
       (\<forall>p h. hsem (holders y p) = Some s \<and> htcb (holders y p) = Some h \<longrightarrow> prio (sk y) t \<le> prio (sk y') h))"
proof -
  have "desc (prio (sk y')) (SEM_WAITLIST s y')" if "sem_inv n y'" for y'
    using sem_invD(1) [OF that] by (simp add: sched_wf_def lists_wfD(3) tl_prioritized_def)
  then show ?thesis using nxsem_wait_slow_blocks [OF assms] by blast
qed

theorem sem_wait_blocks_witness:
  "\<exists>y'. nxsem_wait_slow 1 0 (demo_sys SEM_PRIO_INHERIT (- 1)) = Some (WBlocked, y') \<and> semcount (sems y' 0) = - 2 \<and>
     set (SEM_WAITLIST 0 y') = {3, 4} \<and> 100 \<le> prio (sk y') 2"
proof -
  let ?y = "demo_sys SEM_PRIO_INHERIT (- 1)"
  have i: "sem_inv 4 ?y" by (rule demo_sem_inv) simp
  have h: "(1 :: nat) < ncpus (sk ?y)" "g_freeholders ?y \<noteq> []" "3 = this_task 1 (sk ?y)" "\<not> is_idle_task (sk ?y) 3"
    "0 \<le> sint (lockcount (tcbs (sk ?y) 3))" "sint (lockcount (tcbs (sk ?y) 3)) < 2 ^ 15 - 1"
    "\<not> NXSEM_IS_MUTEX (sems ?y 0)" "semcount (sems ?y 0) \<le> 0" "- (2 ^ 31) < semcount (sems ?y 0)"
    "sem_proto (sems ?y 0) = SEM_PRIO_INHERIT"
    by (simp_all add: sem_const_simps this_task_def current_task_def is_idle_task_def)
  obtain y' where y': "nxsem_wait_slow 1 0 ?y = Some (WBlocked, y')" "semcount (sems y' 0) = semcount (sems ?y 0) - 1"
      "mset (SEM_WAITLIST 0 y') = add_mset 3 (mset (SEM_WAITLIST 0 ?y))"
      "\<forall>p h. hsem (holders ?y p) = Some 0 \<and> htcb (holders ?y p) = Some h \<longrightarrow> prio (sk ?y) 3 \<le> prio (sk y') h"
    using sem_wait_blocks [OF i h(1) h(2) h(3-9)] h(10) by blast
  have "100 \<le> prio (sk y') 2" using y'(4) [rule_format, of 0 2] by simp
  moreover have "set (SEM_WAITLIST 0 y') = {3, 4}" using arg_cong [OF y'(3), of set_mset] by simp
  ultimately show ?thesis using y'(1,2) by (simp add: semcount_def)
qed

text \<open>C22: a post of a counting semaphore gives one count and keeps the invariant. If tasks wait, the first of the
  wait list, which has the highest priority of them, leaves the list and can run again; if none waits,
  no task is woken.\<close>

theorem sem_post_wakes:
  assumes "sem_inv n y" and "c < ncpus (sk y)" and "sem_proto (sems y s) = SEM_PRIO_INHERIT \<Longrightarrow> g_freeholders y \<noteq> []"
    and "\<not> NXSEM_IS_MUTEX (sems y s)" and "sem_proto (sems y s) \<noteq> SEM_PRIO_PROTECT" and "semcount (sems y s) < SEM_VALUE_MAX"
  shows "\<exists>sw y'. nxsem_post_slow c s y = Some (OK, sw, y') \<and> sem_inv n y' \<and> semcount (sems y' s) = semcount (sems y s) + 1 \<and>
    (case SEM_WAITLIST s y of
       [] \<Rightarrow> SEM_WAITLIST s y' = []
     | t # ts \<Rightarrow> mset (SEM_WAITLIST s y') = mset ts \<and> runnable (sk y') t \<and> waitobj (tcbs (sk y') t) = None \<and>
         (\<forall>u \<in> set ts. prio (sk y) u \<le> prio (sk y) t))"
proof -
  have "desc (prio (sk y)) (SEM_WAITLIST s y)"
    using sem_invD(1) [OF assms(1)] by (simp add: sched_wf_def lists_wfD(3) tl_prioritized_def)
  moreover obtain sw y' where y': "nxsem_post_slow c s y = Some (OK, sw, y')" "sem_inv n y'"
      "semcount (sems y' s) = semcount (sems y s) + 1" "handed_over s (SEM_WAITLIST s y) y y'"
    using nxsem_post_slow_count [OF assms] by blast
  moreover have "mset (SEM_WAITLIST s y') = mset (tl (SEM_WAITLIST s y))"
      "SEM_WAITLIST s y \<noteq> [] \<Longrightarrow> runnable (sk y') (hd (SEM_WAITLIST s y)) \<and> waitobj (tcbs (sk y') (hd (SEM_WAITLIST s y))) = None"
    using y'(4) by (simp_all add: handed_over_def)
  ultimately show ?thesis by (cases "SEM_WAITLIST s y") simp_all
qed

theorem sem_post_wakes_witness:
  "\<exists>sw y'. nxsem_post_slow 1 0 (demo_sys SEM_PRIO_INHERIT (- 1)) = Some (OK, sw, y') \<and> semcount (sems y' 0) = 0 \<and>
     SEM_WAITLIST 0 y' = [] \<and> runnable (sk y') 4"
proof -
  have "sem_inv 4 (demo_sys SEM_PRIO_INHERIT (- 1))" by (rule demo_sem_inv) simp
  from sem_post_wakes [OF this, of 1 0] show ?thesis by (auto simp: sem_const_simps)
qed

text \<open>A task whose wait for a counting semaphore is interrupted, by a signal, a timeout or a cancellation, leaves
  the wait list, can run again with the error code of the interruption, and the count it had taken is given back; the
  invariant is kept.\<close>

theorem sem_wait_interrupted:
  assumes "sem_inv n y" and "c < ncpus (sk y)" and "t \<in> set (SEM_WAITLIST s y)" and "\<not> NXSEM_IS_MUTEX (sems y s)"
  shows "\<exists>sw y'. nxsem_wait_irq c t e y = Some (sw, y') \<and> sem_inv n y' \<and>
    semcount (sems y' s) = semcount (sems y s) + 1 \<and> mset (SEM_WAITLIST s y') = mset (SEM_WAITLIST s y) - {#t#} \<and>
    runnable (sk y') t \<and> waitobj (tcbs (sk y') t) = None \<and> errcode (tcbs (sk y') t) = e"
  by (rule nxsem_wait_irq_count [OF assms])

theorem sem_wait_interrupted_witness:
  "\<exists>sw y'. nxsem_wait_irq 1 4 ETIMEDOUT (demo_sys SEM_PRIO_INHERIT (- 1)) = Some (sw, y') \<and> semcount (sems y' 0) = 0 \<and>
     SEM_WAITLIST 0 y' = [] \<and> runnable (sk y') 4 \<and> errcode (tcbs (sk y') 4) = ETIMEDOUT"
proof -
  have "sem_inv 4 (demo_sys SEM_PRIO_INHERIT (- 1))" by (rule demo_sem_inv) simp
  from sem_wait_interrupted [OF this, of 1 4 0 ETIMEDOUT] show ?thesis by (auto simp: sem_const_simps)
qed

section \<open>Mutexes\<close>

text \<open>a task that finds a mutex held blocks in its wait list, the blocking bit is set and the owner stays
  recorded. With priority inheritance the owner, unless it is an idle task, then has at least the priority of the
  waiting task.\<close>

theorem mutex_wait_boosts_owner:
  assumes "holders_wf n y" and "sched_wf (sk y)" and "c < ncpus (sk y)"
    and "sem_proto (sems y s) = SEM_PRIO_INHERIT \<Longrightarrow> g_freeholders y \<noteq> []"
    and "t = this_task c (sk y)" and "\<not> is_idle_task (sk y) t"
    and "0 \<le> sint (lockcount (tcbs (sk y) t))" and "sint (lockcount (tcbs (sk y) t)) < 2 ^ 15 - 1"
    and "NXSEM_IS_MUTEX (sems y s)" and "NXSEM_MACQUIRED (sval (sems y s))"
    and "nxsched_get_tcb (uint (sval (sems y s) AND NOT NXSEM_MBLOCKING_BIT)) (sk y) = Some h"
  shows "\<exists>y'. nxsem_wait_slow c s y = Some (WBlocked, y') \<and> holders_wf n y' \<and> sched_wf (sk y') \<and>
    sval (sems y' s) = sval (sems y s) OR NXSEM_MBLOCKING_BIT \<and> mset (SEM_WAITLIST s y') = add_mset t (mset (SEM_WAITLIST s y)) \<and>
    tstate_of (sk y') t = TSTATE_WAIT_SEM \<and>
    (sem_proto (sems y s) = SEM_PRIO_INHERIT \<and> \<not> is_idle_task (sk y) h \<longrightarrow> prio (sk y) t \<le> prio (sk y') h)"
  using nxsem_wait_slow_mutex [OF assms] sems_eq_set_sval(1) by blast

theorem mutex_wait_boosts_owner_witness:
  "\<exists>y'. nxsem_wait_slow 1 0 (demo_sys (SEM_TYPE_MUTEX + SEM_PRIO_INHERIT) (NXSEM_MBLOCKING_BIT + 2)) = Some (WBlocked, y') \<and>
     sval (sems y' 0) = NXSEM_MBLOCKING_BIT + 2 \<and> set (SEM_WAITLIST 0 y') = {3, 4} \<and> 100 \<le> prio (sk y') 2"
proof -
  let ?y = "demo_sys (SEM_TYPE_MUTEX + SEM_PRIO_INHERIT) (NXSEM_MBLOCKING_BIT + 2)"
  have h: "sched_wf (sk ?y)" "(1 :: nat) < ncpus (sk ?y)" "g_freeholders ?y \<noteq> []" "3 = this_task 1 (sk ?y)" "\<not> is_idle_task (sk ?y) 3"
    "0 \<le> sint (lockcount (tcbs (sk ?y) 3))" "sint (lockcount (tcbs (sk ?y) 3)) < 2 ^ 15 - 1"
    "NXSEM_IS_MUTEX (sems ?y 0)" "NXSEM_MACQUIRED (sval (sems ?y 0))"
    "nxsched_get_tcb (uint (sval (sems ?y 0) AND NOT NXSEM_MBLOCKING_BIT)) (sk ?y) = Some 2"
    "sem_proto (sems ?y 0) = SEM_PRIO_INHERIT" "\<not> is_idle_task (sk ?y) 2"
    by (simp_all add: sem_const_simps this_task_def current_task_def is_idle_task_def demo_sched_wf nxsched_get_tcb_def PIDHASH_def)
  obtain y' where y': "nxsem_wait_slow 1 0 ?y = Some (WBlocked, y')" "sval (sems y' 0) = sval (sems ?y 0) OR NXSEM_MBLOCKING_BIT"
      "mset (SEM_WAITLIST 0 y') = add_mset 3 (mset (SEM_WAITLIST 0 ?y))" "prio (sk ?y) 3 \<le> prio (sk y') 2"
    using mutex_wait_boosts_owner [OF demo_holders_wf h(1,2) h(3) h(4-10)] h(11,12) by blast
  have "set (SEM_WAITLIST 0 y') = {3, 4}" using arg_cong [OF y'(3), of set_mset] by simp
  then show ?thesis using y' by (simp add: sem_const_simps)
qed

text \<open>C23: the post of a contended mutex hands it to the first waiting task: this task is recorded as the owner,
  with the blocking bit exactly when tasks are left waiting, leaves the wait list and can run again.\<close>

theorem mutex_handed_over:
  assumes "holders_wf n y" and "sched_wf (sk y)" and "c < ncpus (sk y)"
    and "sem_proto (sems y s) = SEM_PRIO_INHERIT \<Longrightarrow> g_freeholders y \<noteq> []"
    and "NXSEM_IS_MUTEX (sems y s)" and "NXSEM_MBLOCKING (sval (sems y s))" and "sem_proto (sems y s) \<noteq> SEM_PRIO_PROTECT"
    and "SEM_WAITLIST s y = t # ts"
  shows "\<exists>sw y'. nxsem_post c s y = Some (OK, sw, y') \<and> holders_wf n y' \<and> sched_wf (sk y') \<and>
    sval (sems y' s) = word_of_int (pid (tcbs (sk y) t)) OR (if ts = [] then 0 else NXSEM_MBLOCKING_BIT) \<and>
    mset (SEM_WAITLIST s y') = mset ts \<and> runnable (sk y') t \<and> waitobj (tcbs (sk y') t) = None"
proof -
  have ne: "SEM_WAITLIST s y \<noteq> []" using assms(8) by simp
  obtain sw y' where y': "nxsem_post_slow c s y = Some (OK, sw, y')" "holders_wf n y'" "sched_wf (sk y')"
      "sval (sems y' s) = next_holder y (SEM_WAITLIST s y)" "handed_over s (SEM_WAITLIST s y) y y'"
    using nxsem_post_slow_mutex [OF assms(1-7) ne] by blast
  moreover have "mset (SEM_WAITLIST s y') = mset ts" "runnable (sk y') t" "waitobj (tcbs (sk y') t) = None"
    using y'(5) assms(8) by (simp_all add: handed_over_def)
  moreover have "nxsem_post c s y = nxsem_post_slow c s y" using assms(5,6) by (simp add: nxsem_post_def Let_def)
  ultimately show ?thesis by (simp add: next_holder_def assms(8))
qed

theorem mutex_handed_over_witness:
  "\<exists>sw y'. nxsem_post 0 0 (demo_sys (SEM_TYPE_MUTEX + SEM_PRIO_INHERIT) (NXSEM_MBLOCKING_BIT + 2)) = Some (OK, sw, y') \<and>
     sval (sems y' 0) = 4 \<and> SEM_WAITLIST 0 y' = [] \<and> runnable (sk y') 4"
proof -
  let ?y = "demo_sys (SEM_TYPE_MUTEX + SEM_PRIO_INHERIT) (NXSEM_MBLOCKING_BIT + 2)"
  have h: "sched_wf (sk ?y)" "(0 :: nat) < ncpus (sk ?y)" "g_freeholders ?y \<noteq> []" "NXSEM_IS_MUTEX (sems ?y 0)"
    "NXSEM_MBLOCKING (sval (sems ?y 0))" "sem_proto (sems ?y 0) \<noteq> SEM_PRIO_PROTECT" "SEM_WAITLIST 0 ?y = 4 # []"
    by (simp_all add: sem_const_simps demo_sched_wf)
  from mutex_handed_over [OF demo_holders_wf h(1,2) h(3) h(4-7)] show ?thesis by auto
qed



section \<open>Priorities\<close>

text \<open>Restoring the priority of a holder sets it to the highest of its base priority, its boost priority and the priorities
  of the first tasks that wait for the semaphores it holds, and changes no other priority.\<close>

theorem sem_restored_priority:
  assumes "holders_wf n y" and "0 < base_priority (tcbs (sk y) h)"
    and "prio (sk y) h \<noteq> max (base_priority (tcbs (sk y) h)) (boost_priority (tcbs (sk y) h))"
  shows "\<exists>y'. nxsem_restore_priority c h y = Some y' \<and>
    (\<forall>u. prio (sk y') u =
       (if u = h then Max (insert (max (base_priority (tcbs (sk y) h)) (boost_priority (tcbs (sk y) h))) (asked y (holdsem y h)))
        else prio (sk y) u))"
  by (rule nxsem_restore_priority_prio [OF assms])

theorem sem_restored_priority_witness:
  "\<exists>y'. nxsem_restore_priority 1 2 (set_priority 0 2 250 (demo_sys SEM_PRIO_INHERIT (- 1))) = Some y' \<and> prio (sk y') 2 = 200"
proof -
  let ?d = "demo_sys SEM_PRIO_INHERIT (- 1)"
  define y where "y = set_priority 0 2 250 ?d"
  have i: "holders_wf 4 ?d" "sched_wf (sk ?d)" "(0 :: nat) < ncpus (sk ?d)" "\<not> is_idle_task (sk ?d) 2"
    by (simp_all add: demo_holders_wf demo_sched_wf is_idle_task_def)
  note sp = set_priority_ok [OF i, of 250]
  have a: "holders_wf 4 y" "reprio 0 (sk ?d) (sk y)" "mset (SEM_WAITLIST 0 y) = {#4#}"
    using semadjD(1,2) [OF sp(1)] semadjD(6) [OF sp(1), of 0] by (simp_all add: y_def)
  have e: "base_priority (tcbs (sk y) 2) = 100" "boost_priority (tcbs (sk y) 2) = 0"
    using reprioD(7,8) [OF a(2), of 2] by (simp_all add: demo_tcb_def zero_tcb_def)
  have p: "prio (sk y) 2 = 250" "prio (sk y) 4 = 200" using set_priority_prio [of 250 0 2 ?d] by (simp_all add: y_def)
  have l: "SEM_WAITLIST 0 y = [4]" "holdsem y 2 = [0]" "hsem (holders y 0) = Some 0"
    using a(3) sp(2,3) by (simp_all add: y_def)
  have "asked y (holdsem y 2) = {200}" by (simp add: asked_def first_prio_def l p)
  then show ?thesis
    using sem_restored_priority [OF a(1), of 2 1] e p(1) unfolding y_def [symmetric] by auto
qed

text \<open>With the priority protection a task whose priority is not above the ceiling takes the semaphore and runs at
  the ceiling; its post gives the count back and restores the priority of every task.\<close>

theorem sem_protect_round_trip:
  assumes "sem_proto (sems y s) = SEM_PRIO_PROTECT" and "\<not> NXSEM_IS_MUTEX (sems y s)" and "0 < semcount (sems y s)"
    and "t = this_task c (sk y)" and "0 < prio (sk y) t" and "prio (sk y) t \<le> sceiling (sems y s)"
  shows "\<exists>y' sw y''. nxsem_wait_slow c s y = Some (WReturned OK, y') \<and> prio (sk y') t = sceiling (sems y s) \<and>
    semcount (sems y' s) = semcount (sems y s) - 1 \<and>
    nxsem_post_slow c s y' = Some (OK, sw, y'') \<and> semcount (sems y'' s) = semcount (sems y s) \<and>
    (\<forall>u. prio (sk y'') u = prio (sk y) u)"
proof -
  let ?y = "protected c s y"
  have q: "semcount (sems ?y s) = semcount (sems y s) - 1"
    using sint_step(2) [of "sval (sems y s)"] assms(3) by (simp add: protected_sel semcount_def)
  have b: "semcount (sems y s) \<le> SEM_VALUE_MAX"
    using sint_lt [of "sval (sems y s)"] by (simp add: semcount_def SEM_VALUE_MAX_def)
  have p: "sem_proto (sems ?y s) = SEM_PRIO_PROTECT" "\<not> NXSEM_IS_MUTEX (sems ?y s)" "ssaved (sems ?y s) = prio (sk y) t"
    using assms(1,2,4) by (simp_all add: protected_sel sem_proto_def NXSEM_IS_MUTEX_def)
  obtain sw y'' where "nxsem_post_slow c s ?y = Some (OK, sw, y'')" "semcount (sems y'' s) = semcount (sems ?y s) + 1"
      "\<forall>u. prio (sk y'') u = (if u = this_task c (sk ?y) then ssaved (sems ?y s) else prio (sk ?y) u)"
    using nxsem_protect_given_back [OF p(1,2), of c] q assms(3,5) b p(3) by auto
  then show ?thesis
    using nxsem_protect_taken [OF assms(1-3), of c] assms(4,6) q p(3) by (simp add: protected_sel)
qed

theorem sem_protect_round_trip_witness:
  "\<exists>y' sw y''. nxsem_wait_slow 0 0 (demo_sys SEM_PRIO_PROTECT 1) = Some (WReturned OK, y') \<and> prio (sk y') 2 = 120 \<and>
     nxsem_post_slow 0 0 y' = Some (OK, sw, y'') \<and> prio (sk y'') 2 = 100"
proof -
  let ?y = "demo_sys SEM_PRIO_PROTECT 1"
  have "sem_proto (sems ?y 0) = SEM_PRIO_PROTECT" "\<not> NXSEM_IS_MUTEX (sems ?y 0)" "0 < semcount (sems ?y 0)"
    "2 = this_task 0 (sk ?y)" "0 < prio (sk ?y) 2" "prio (sk ?y) 2 \<le> sceiling (sems ?y 0)"
    by (simp_all add: sem_const_simps this_task_def current_task_def)
  from sem_protect_round_trip [OF this] show ?thesis by auto
qed

section \<open>Errors, fast paths and recovery\<close>



text \<open>The fast paths, which change the count of a semaphore without a protocol by one atomic operation, do what the slow paths
  do, except for a post at the largest count.\<close>

theorem sem_fast_paths_agree:
  assumes "\<not> NXSEM_IS_MUTEX (sems y s)" and "sem_proto (sems y s) = SEM_PRIO_NONE"
  shows "nxsem_wait c s y = nxsem_wait_slow c s y \<and> nxsem_trywait c s y = nxsem_trywait_slow c s y \<and>
    (semcount (sems y s) < SEM_VALUE_MAX \<longrightarrow> nxsem_post c s y = nxsem_post_slow c s y)"
  using nxsem_wait_fast [OF assms] nxsem_trywait_fast [OF assms] nxsem_post_fast [OF assms] by simp

theorem sem_fast_paths_agree_witness:
  "nxsem_wait 0 2 (demo_sys SEM_PRIO_INHERIT (- 1)) = nxsem_wait_slow 0 2 (demo_sys SEM_PRIO_INHERIT (- 1)) \<and>
   nxsem_post 0 2 (demo_sys SEM_PRIO_INHERIT (- 1)) = nxsem_post_slow 0 2 (demo_sys SEM_PRIO_INHERIT (- 1))"
proof -
  let ?y = "demo_sys SEM_PRIO_INHERIT (- 1)"
  have h: "\<not> NXSEM_IS_MUTEX (sems ?y 2)" "sem_proto (sems ?y 2) = SEM_PRIO_NONE" "semcount (sems ?y 2) < SEM_VALUE_MAX"
    by (simp_all add: sem_const_simps)
  from sem_fast_paths_agree [OF h(1,2)] h(3) show ?thesis by blast
qed

text \<open>The loop that gives up all semaphores of an exiting task ends, leaves the task without a container, and keeps
  the containers well formed.\<close>

theorem sem_release_all_ends:
  assumes "holders_wf n y"
  shows "\<exists>y'. nxsem_release_all h y = Some y' \<and> holders_wf n y' \<and> holdsem y' h = [] \<and> sk y' = sk y"
  by (rule nxsem_release_all_ok [OF assms])

theorem sem_release_all_ends_witness:
  "\<exists>y'. nxsem_release_all 2 (demo_sys SEM_PRIO_INHERIT (- 1)) = Some y' \<and> holdsem y' 2 = []"
  using sem_release_all_ends [OF demo_holders_wf, of 2] by blast

text \<open>a reset of a semaphore without a protocol to the value \<open>m\<close> wakes as many of the waiting tasks as the new value allows:
  the count becomes \<open>m\<close> minus the number of tasks that were waiting; the invariant is kept.\<close>

theorem sem_reset_counts:
  assumes "sem_inv n y" and "c < ncpus (sk y)" and "\<not> NXSEM_IS_MUTEX (sems y s)" and "sem_proto (sems y s) = SEM_PRIO_NONE"
    and "m < 2 ^ 15"
  shows "\<exists>sw y'. nxsem_reset c s m y = Some (OK, sw, y') \<and> sem_inv n y' \<and>
    semcount (sems y' s) = int m - int (length (SEM_WAITLIST s y)) \<and>
    length (SEM_WAITLIST s y') = length (SEM_WAITLIST s y) - m"
  by (rule nxsem_reset_count [OF assms])

theorem sem_reset_counts_witness:
  "\<exists>sw y'. nxsem_reset 1 0 3 (demo_sys SEM_PRIO_NONE (- 1)) = Some (OK, sw, y') \<and> semcount (sems y' 0) = 2 \<and> SEM_WAITLIST 0 y' = []"
proof -
  let ?y = "demo_sys SEM_PRIO_NONE (- 1)"
  have i: "sem_inv 4 ?y" by (rule demo_sem_inv) simp
  have "(1 :: nat) < ncpus (sk ?y)" "\<not> NXSEM_IS_MUTEX (sems ?y 0)" "sem_proto (sems ?y 0) = SEM_PRIO_NONE" "(3 :: nat) < 2 ^ 15"
    by (simp_all add: sem_const_simps)
  from sem_reset_counts [OF i this] show ?thesis by auto
qed

end
