(* ===== verification/Wdog.thy ===== *)
theory Wdog
  imports Prelude
begin

text \<open>
  Watchdog timers: \<open>sched/wdog\<close> and \<open>include/nuttx/wdog.h\<close> without tickless mode, where \<open>wd_timer\<close> is called on each tick.
  Ticks are 64-bit words that wrap around. The active list is the list of the watchdogs in
  its order; theory \<open>List_Node\<close> has the macros it is made of. A watchdog function is a value of the type \<open>'f\<close>, and
  what calling it does is the argument \<open>call\<close> of \<open>wd_expiration\<close>.

  The invariant orders the active list by the distance of the expiration from the current tick. It needs
  the bound of the code on a delay, \<open>WDOG_MAX_DELAY\<close>, and that an expired watchdog is processed within the same number of ticks.
\<close>

section \<open>Data\<close>

type_synonym clock = u64
type_synonym wid = nat

record 'f wdog_s =
  warg :: nat
  wfunc :: "'f option"
  wexpired :: clock

record ('f, 'e) wdsys =
  wdogs :: "wid \<Rightarrow> 'f wdog_s"
  g_wdactivelist :: "wid list"
  g_system_ticks :: clock
  wenv :: 'e

definition CLOCK_MAX :: clock where "CLOCK_MAX = - 1"

definition WDOG_MAX_DELAY :: clock where
  "WDOG_MAX_DELAY = drop_bit 2 CLOCK_MAX"

definition clock_compare :: "clock \<Rightarrow> clock \<Rightarrow> bool" where
  "clock_compare t1 t2 \<longleftrightarrow> 0 \<le> sint (t2 - t1)"

definition clock_delay2abstick :: "clock \<Rightarrow> ('f, 'e) wdsys \<Rightarrow> clock" where
  "clock_delay2abstick delay y = g_system_ticks y + delay + 1"

definition WDOG_ISACTIVE :: "'f wdog_s \<Rightarrow> bool" where
  "WDOG_ISACTIVE w \<longleftrightarrow> wfunc w \<noteq> None"

section \<open>Operations\<close>

text \<open>The result tells whether the head of the list has changed.\<close>

definition wd_insert :: "wid \<Rightarrow> clock \<Rightarrow> 'f \<Rightarrow> nat \<Rightarrow> ('f, 'e) wdsys \<Rightarrow> bool \<times> ('f, 'e) wdsys" where
  "wd_insert w expired f arg y =
     (let passed = (\<lambda>curr. clock_compare (wexpired (wdogs y curr)) expired);
          front = takeWhile passed (g_wdactivelist y);
          behind = dropWhile passed (g_wdactivelist y)
      in (front = [],
          y\<lparr>g_wdactivelist := front @ w # behind, wdogs := (wdogs y)(w := \<lparr>warg = arg, wfunc = Some f, wexpired = expired\<rparr>)\<rparr>))"

definition wd_delete :: "wid \<Rightarrow> ('f, 'e) wdsys \<Rightarrow> ('f, 'e) wdsys" where
  "wd_delete w y = y\<lparr>g_wdactivelist := remove1 w (g_wdactivelist y)\<rparr>"

definition wd_start_abstick ::
    "wid option \<Rightarrow> clock \<Rightarrow> 'f option \<Rightarrow> nat \<Rightarrow> ('f, 'e) wdsys \<Rightarrow> int \<times> ('f, 'e) wdsys" where
  "wd_start_abstick wdog ticks wdentry arg y =
     (case (wdog, wdentry) of
        (Some w, Some f) \<Rightarrow>
          let y1 = (if WDOG_ISACTIVE (wdogs y w) then wd_delete w y else y)
          in (OK, snd (wd_insert w ticks f arg y1))
      | _ \<Rightarrow> (- EINVAL, y))"

definition wd_start :: "wid option \<Rightarrow> clock \<Rightarrow> 'f option \<Rightarrow> nat \<Rightarrow> ('f, 'e) wdsys \<Rightarrow> int \<times> ('f, 'e) wdsys" where
  "wd_start wdog delay wdentry arg y =
     (if delay \<le> WDOG_MAX_DELAY then wd_start_abstick wdog (clock_delay2abstick delay y) wdentry arg y
      else (- EINVAL, y))"

definition wd_start_next ::
    "wid \<Rightarrow> clock \<Rightarrow> 'f option \<Rightarrow> nat \<Rightarrow> ('f, 'e) wdsys \<Rightarrow> int \<times> ('f, 'e) wdsys" where
  "wd_start_next w delay wdentry arg y =
     (if WDOG_MAX_DELAY < delay then (- EINVAL, y)
      else wd_start_abstick (Some w) (wexpired (wdogs y w) + delay) wdentry arg y)"

definition wd_cancel :: "wid option \<Rightarrow> ('f, 'e) wdsys \<Rightarrow> int \<times> ('f, 'e) wdsys" where
  "wd_cancel wdog y =
     (case wdog of
        None \<Rightarrow> (- EINVAL, y)
      | Some w \<Rightarrow>
          if WDOG_ISACTIVE (wdogs y w)
          then (OK, (wd_delete w y)\<lparr>wdogs := (wdogs y)(w := (wdogs y w)\<lparr>wfunc := None\<rparr>)\<rparr>)
          else (- EINVAL, y))"

definition wd_gettime :: "wid option \<Rightarrow> ('f, 'e) wdsys \<Rightarrow> int" where
  "wd_gettime wdog y =
     (case wdog of
        None \<Rightarrow> 0
      | Some w \<Rightarrow>
          if WDOG_ISACTIVE (wdogs y w) then max 0 (sint (wexpired (wdogs y w) - g_system_ticks y)) else 0)"

text \<open>
  The loop of \<open>wd_expiration\<close>: a watchdog is taken off the list before its function is called, and the function may change the
  list. Calling a NULL function is \<open>None\<close>.
\<close>

type_synonym ('f, 'e) wdcall = "'f \<Rightarrow> nat \<Rightarrow> ('f, 'e) wdsys \<Rightarrow> ('f, 'e) wdsys option"

partial_function (option) wd_expire_loop ::
    "('f, 'e) wdcall \<Rightarrow> clock \<Rightarrow> ('f, 'e) wdsys \<Rightarrow> (clock \<times> ('f, 'e) wdsys) option" where
  "wd_expire_loop call ticks y =
     (case g_wdactivelist y of
        [] \<Rightarrow> Some (ticks, y)
      | w # ws \<Rightarrow>
          if \<not> clock_compare (wexpired (wdogs y w)) ticks then Some (wexpired (wdogs y w), y)
          else do {
            f \<leftarrow> wfunc (wdogs y w);
            y1 \<leftarrow> call f (warg (wdogs y w))
                   (y\<lparr>g_wdactivelist := ws, wdogs := (wdogs y)(w := (wdogs y w)\<lparr>wfunc := None\<rparr>)\<rparr>);
            wd_expire_loop call ticks y1
          })"

definition wd_expiration :: "('f, 'e) wdcall \<Rightarrow> clock \<Rightarrow> ('f, 'e) wdsys \<Rightarrow> (clock \<times> ('f, 'e) wdsys) option" where
  "wd_expiration call ticks y = wd_expire_loop call ticks y"

definition wd_timer :: "('f, 'e) wdcall \<Rightarrow> clock \<Rightarrow> ('f, 'e) wdsys \<Rightarrow> ('f, 'e) wdsys option" where
  "wd_timer call ticks y = map_option snd (wd_expiration call ticks y)"

definition clock_increase_sched_ticks :: "clock \<Rightarrow> ('f, 'e) wdsys \<Rightarrow> ('f, 'e) wdsys" where
  "clock_increase_sched_ticks ticks y = y\<lparr>g_system_ticks := g_system_ticks y + ticks\<rparr>"

text \<open>
  A watchdog function that leaves the watchdogs alone and changes the rest of the system by \<open>fire\<close>, running the functions of some
  watchdogs one after the other, and marking them as inactive.
\<close>

definition wd_call :: "('f \<Rightarrow> nat \<Rightarrow> 'e \<Rightarrow> 'e option) \<Rightarrow> ('f, 'e) wdcall" where
  "wd_call fire f arg y = map_option (\<lambda>e. y\<lparr>wenv := e\<rparr>) (fire f arg (wenv y))"

primrec wd_run :: "('f \<Rightarrow> nat \<Rightarrow> 'e \<Rightarrow> 'e option) \<Rightarrow> (wid \<Rightarrow> 'f wdog_s) \<Rightarrow> wid list \<Rightarrow> 'e \<Rightarrow> 'e option" where
  "wd_run fire g [] e = Some e"
| "wd_run fire g (w # ws) e = do { f \<leftarrow> wfunc (g w); e1 \<leftarrow> fire f (warg (g w)) e; wd_run fire g ws e1 }"

text \<open>Watchdog functions that record their calls.\<close>

definition wd_log :: "'f \<Rightarrow> nat \<Rightarrow> ('f \<times> nat) list \<Rightarrow> ('f \<times> nat) list option" where
  "wd_log f arg calls = Some (calls @ [(f, arg)])"

definition wd_off :: "wid list \<Rightarrow> (wid \<Rightarrow> 'f wdog_s) \<Rightarrow> wid \<Rightarrow> 'f wdog_s" where
  "wd_off ws g = (\<lambda>w. if w \<in> set ws then (g w)\<lparr>wfunc := None\<rparr> else g w)"

text \<open>One tick of the watchdogs and several of them.\<close>

definition wd_tick :: "('f \<Rightarrow> nat \<Rightarrow> 'e \<Rightarrow> 'e option) \<Rightarrow> ('f, 'e) wdsys \<Rightarrow> ('f, 'e) wdsys option" where
  "wd_tick fire y =
     (let y1 = clock_increase_sched_ticks 1 y in wd_timer (wd_call fire) (g_system_ticks y1) y1)"

primrec wd_ticks :: "('f \<Rightarrow> nat \<Rightarrow> 'e \<Rightarrow> 'e option) \<Rightarrow> nat \<Rightarrow> ('f, 'e) wdsys \<Rightarrow> ('f, 'e) wdsys option" where
  "wd_ticks fire 0 y = Some y"
| "wd_ticks fire (Suc n) y = do { y1 \<leftarrow> wd_tick fire y; wd_ticks fire n y1 }"

section \<open>The order of ticks\<close>

text \<open>The distance of a tick from the current one, between half of the range before and after it.\<close>

definition dist :: "clock \<Rightarrow> clock \<Rightarrow> int" where
  "dist now t = sint (t - now)"

definition near :: "clock \<Rightarrow> clock \<Rightarrow> bool" where
  "near now t \<longleftrightarrow> - (2 ^ 62) < dist now t \<and> dist now t \<le> 2 ^ 62"

definition wd_wf :: "('f, 'e) wdsys \<Rightarrow> bool" where
  "wd_wf y \<longleftrightarrow>
     distinct (g_wdactivelist y) \<and> (\<forall>w. w \<in> set (g_wdactivelist y) \<longleftrightarrow> WDOG_ISACTIVE (wdogs y w)) \<and>
     (\<forall>w \<in> set (g_wdactivelist y). near (g_system_ticks y) (wexpired (wdogs y w))) \<and>
     sorted (map (\<lambda>w. dist (g_system_ticks y) (wexpired (wdogs y w))) (g_wdactivelist y))"

lemma clock_compare_dist:
  assumes "near now a" "near now b"
  shows "clock_compare a b \<longleftrightarrow> dist now a \<le> dist now b"
proof -
  have "sint ((b - now) - (a - now)) = signed_take_bit 63 (dist now b - dist now a)"
    unfolding dist_def by (subst sint_word_ariths(2)) simp
  then have "sint (b - a) = signed_take_bit 63 (dist now b - dist now a)" by simp
  also have "\<dots> = dist now b - dist now a" using assms by (intro signed_take_bit_int_eq_self) (simp_all add: near_def)
  finally show ?thesis by (simp add: clock_compare_def)
qed

lemma dist_self [simp]: "dist now now = 0" "near now now"
  by (simp_all add: dist_def near_def)

lemma delay_near:
  assumes "delay \<le> WDOG_MAX_DELAY"
  shows "dist now (now + delay + 1) = uint delay + 1" "near now (now + delay + 1)"
proof -
  have m: "uint WDOG_MAX_DELAY = 2 ^ 62 - 1" by (simp add: WDOG_MAX_DELAY_def CLOCK_MAX_def mask_eq_exp_minus_1)
  have d: "0 \<le> uint delay" "uint delay \<le> 2 ^ 62 - 1" using assms m by (simp_all add: word_le_def)
  have "now + delay + 1 - now = word_of_int (uint delay + 1)" by simp
  then have "dist now (now + delay + 1) = sint (word_of_int (uint delay + 1) :: clock)" unfolding dist_def by (rule arg_cong)
  then have "dist now (now + delay + 1) = signed_take_bit 63 (uint delay + 1)" by (simp only: sint_sbintrunc') simp
  also have "\<dots> = uint delay + 1" using d by (intro signed_take_bit_int_eq_self) simp_all
  finally show "dist now (now + delay + 1) = uint delay + 1" "near now (now + delay + 1)"
    using d by (simp_all only: near_def) linarith+
qed

lemma clock_compare_now: "near now a \<Longrightarrow> clock_compare a now \<longleftrightarrow> dist now a \<le> 0"
  using clock_compare_dist [of now a now] by simp

section \<open>Starting and cancelling\<close>

lemma sorted_key_insert:
  "sorted (map k xs) \<Longrightarrow>
   sorted (map k (takeWhile (\<lambda>x. k x \<le> (d :: int)) xs) @ d # map k (dropWhile (\<lambda>x. k x \<le> d) xs))"
  by (induction xs) (auto simp: sorted_append dest: set_takeWhileD)

text \<open>The invariant while the watchdog \<open>w\<close> is off the list, whatever its function is.\<close>

definition wd_wf_but :: "wid \<Rightarrow> ('f, 'e) wdsys \<Rightarrow> bool" where
  "wd_wf_but w y \<longleftrightarrow>
     distinct (g_wdactivelist y) \<and> w \<notin> set (g_wdactivelist y) \<and>
     (\<forall>v. v \<noteq> w \<longrightarrow> (v \<in> set (g_wdactivelist y) \<longleftrightarrow> WDOG_ISACTIVE (wdogs y v))) \<and>
     (\<forall>v \<in> set (g_wdactivelist y). near (g_system_ticks y) (wexpired (wdogs y v))) \<and>
     sorted (map (\<lambda>v. dist (g_system_ticks y) (wexpired (wdogs y v))) (g_wdactivelist y))"

lemma sorted_map_remove1: "sorted (map k xs) \<Longrightarrow> sorted (map k (remove1 x xs))"
  by (induction xs) (auto dest: notin_set_remove1 set_remove1_subset [THEN subsetD])

lemma wd_delete_wf: "wd_wf y \<Longrightarrow> wd_wf_but w (wd_delete w y)"
  by (simp add: wd_wf_def wd_wf_but_def wd_delete_def sorted_map_remove1)

lemma wd_wf_inactive: "wd_wf y \<Longrightarrow> \<not> WDOG_ISACTIVE (wdogs y w) \<Longrightarrow> wd_wf_but w y"
  by (simp add: wd_wf_def wd_wf_but_def)

lemma wd_insert_wf:
  assumes "wd_wf_but w y" "near (g_system_ticks y) e"
  shows "wd_wf (snd (wd_insert w e f arg y))" "set (g_wdactivelist (snd (wd_insert w e f arg y))) = insert w (set (g_wdactivelist y))"
proof -
  let ?k = "\<lambda>v. dist (g_system_ticks y) (wexpired (wdogs y v))"
  let ?d = "dist (g_system_ticks y) e"
  let ?l = "g_wdactivelist y"
  let ?front = "takeWhile (\<lambda>v. ?k v \<le> ?d) ?l" and ?behind = "dropWhile (\<lambda>v. ?k v \<le> ?d) ?l"
  define y' where "y' = snd (wd_insert w e f arg y)"
  have p: "clock_compare (wexpired (wdogs y v)) e \<longleftrightarrow> ?k v \<le> ?d" if "v \<in> set ?l" for v
    using clock_compare_dist assms that by (simp add: wd_wf_but_def)
  then have tw: "takeWhile (\<lambda>v. clock_compare (wexpired (wdogs y v)) e) ?l = ?front"
    "dropWhile (\<lambda>v. clock_compare (wexpired (wdogs y v)) e) ?l = ?behind"
    by (auto intro: takeWhile_cong dropWhile_cong)
  have l: "g_wdactivelist y' = ?front @ w # ?behind" and t: "g_system_ticks y' = g_system_ticks y"
    and g: "wdogs y' = (wdogs y)(w := \<lparr>warg = arg, wfunc = Some f, wexpired = e\<rparr>)"
    by (simp_all add: y'_def wd_insert_def Let_def tw)
  have m: "mset (g_wdactivelist y') = add_mset w (mset ?l)"
    unfolding l using mset_append [of ?front ?behind] by simp
  then have s: "set (g_wdactivelist y') = insert w (set ?l)" by (metis set_mset_add_mset_insert set_mset_mset)
  have "distinct (g_wdactivelist y') \<longleftrightarrow> distinct (w # ?l)" using m by (intro mset_eq_imp_distinct_iff) simp
  then have 1: "distinct (g_wdactivelist y')" using assms(1) by (simp add: wd_wf_but_def)
  have "v \<noteq> w" if "v \<in> set ?front \<or> v \<in> set ?behind" for v
    using that assms(1) by (auto simp: wd_wf_but_def dest: set_takeWhileD set_dropWhileD)
  then have "map (\<lambda>v. dist (g_system_ticks y) (wexpired (wdogs y' v))) (g_wdactivelist y') = map ?k ?front @ ?d # map ?k ?behind"
    by (auto simp: l g)
  also have "sorted \<dots>" using assms(1) by (intro sorted_key_insert) (simp add: wd_wf_but_def)
  finally have 2: "sorted (map (\<lambda>v. dist (g_system_ticks y) (wexpired (wdogs y' v))) (g_wdactivelist y'))" .
  have "wd_wf y'"
    using 1 2 assms unfolding wd_wf_def s t by (auto simp: wd_wf_but_def g WDOG_ISACTIVE_def)
  then show "wd_wf (snd (wd_insert w e f arg y))" "set (g_wdactivelist (snd (wd_insert w e f arg y))) = insert w (set ?l)"
    using s by (simp_all add: y'_def)
qed

lemma wd_start_abstick_ok:
  assumes w: "wd_wf y" and e: "near (g_system_ticks y) ticks"
    and y': "y' = snd (wd_start_abstick (Some w) ticks (Some f) arg y)"
  shows "fst (wd_start_abstick (Some w) ticks (Some f) arg y) = OK" "wd_wf y'"
    "set (g_wdactivelist y') = insert w (set (g_wdactivelist y))"
    "wdogs y' = (wdogs y)(w := \<lparr>warg = arg, wfunc = Some f, wexpired = ticks\<rparr>)"
    "g_system_ticks y' = g_system_ticks y" "wenv y' = wenv y"
proof -
  define y1 where "y1 = (if WDOG_ISACTIVE (wdogs y w) then wd_delete w y else y)"
  have b: "wd_wf_but w y1" using wd_delete_wf [OF w] wd_wf_inactive [OF w] by (simp add: y1_def)
  have e1: "near (g_system_ticks y1) ticks" using e by (simp add: y1_def wd_delete_def)
  have s1: "insert w (set (g_wdactivelist y1)) = insert w (set (g_wdactivelist y))"
    using w by (auto simp: y1_def wd_delete_def wd_wf_def)
  have y1': "y' = snd (wd_insert w ticks f arg y1)" by (simp add: y' y1_def wd_start_abstick_def)
  show "wd_wf y'" "set (g_wdactivelist y') = insert w (set (g_wdactivelist y))"
    unfolding y1' wd_insert_wf(2) [OF b e1] using wd_insert_wf(1) [OF b e1] s1 by simp_all
  show "fst (wd_start_abstick (Some w) ticks (Some f) arg y) = OK"
    "wdogs y' = (wdogs y)(w := \<lparr>warg = arg, wfunc = Some f, wexpired = ticks\<rparr>)"
    "g_system_ticks y' = g_system_ticks y" "wenv y' = wenv y"
    by (simp_all add: y1' wd_start_abstick_def wd_insert_def Let_def y1_def wd_delete_def)
qed

lemma wd_start_eq:
  "delay \<le> WDOG_MAX_DELAY \<Longrightarrow> wd_start w delay f arg y = wd_start_abstick w (g_system_ticks y + delay + 1) f arg y"
  by (simp add: wd_start_def clock_delay2abstick_def)

lemma wd_cancel_ok:
  assumes w: "wd_wf y" and y': "y' = snd (wd_cancel (Some w) y)"
  shows "wd_wf y'" "\<not> WDOG_ISACTIVE (wdogs y' w)" "set (g_wdactivelist y') = set (g_wdactivelist y) - {w}"
    "v \<noteq> w \<Longrightarrow> wdogs y' v = wdogs y v" "g_system_ticks y' = g_system_ticks y" "wenv y' = wenv y"
    "fst (wd_cancel (Some w) y) = (if WDOG_ISACTIVE (wdogs y w) then OK else - EINVAL)"
proof -
  have l: "g_wdactivelist y' = remove1 w (g_wdactivelist y)"
    using w by (auto simp: y' wd_cancel_def wd_delete_def wd_wf_def remove1_idem)
  have d: "distinct (g_wdactivelist y)" "\<forall>v. v \<in> set (g_wdactivelist y) \<longleftrightarrow> WDOG_ISACTIVE (wdogs y v)"
    using w by (simp_all add: wd_wf_def)
  show s: "set (g_wdactivelist y') = set (g_wdactivelist y) - {w}" using d(1) by (simp add: l set_remove1_eq)
  show o: "v \<noteq> w \<Longrightarrow> wdogs y' v = wdogs y v" for v by (simp add: y' wd_cancel_def wd_delete_def)
  show a: "\<not> WDOG_ISACTIVE (wdogs y' w)" by (simp add: y' wd_cancel_def wd_delete_def WDOG_ISACTIVE_def)
  show t: "g_system_ticks y' = g_system_ticks y" "wenv y' = wenv y"
    "fst (wd_cancel (Some w) y) = (if WDOG_ISACTIVE (wdogs y w) then OK else - EINVAL)"
    by (simp_all add: y' wd_cancel_def wd_delete_def)
  have x: "wexpired (wdogs y' v) = wexpired (wdogs y v)" for v by (simp add: y' wd_cancel_def wd_delete_def)
  have "v \<in> set (g_wdactivelist y') \<longleftrightarrow> WDOG_ISACTIVE (wdogs y' v)" for v
    using s a o [of v] d(2) by (cases "v = w") auto
  moreover have "distinct (g_wdactivelist y')" using d(1) by (simp add: l)
  moreover have "sorted (map (\<lambda>v. dist (g_system_ticks y') (wexpired (wdogs y' v))) (g_wdactivelist y'))"
    using w by (simp add: l t x wd_wf_def sorted_map_remove1)
  moreover have "\<forall>v \<in> set (g_wdactivelist y'). near (g_system_ticks y') (wexpired (wdogs y' v))"
    using w by (simp add: s t x wd_wf_def)
  ultimately show "wd_wf y'" by (simp add: wd_wf_def)
qed

section \<open>Expiration\<close>

lemma wd_run_cong:
  "(\<And>w. w \<in> set ws \<Longrightarrow> g w = g' w) \<Longrightarrow> wd_run fire g ws e = wd_run fire g' ws e"
  by (induction ws arbitrary: e) (auto cong: Option.bind_cong)

lemma wd_expire_loop_due:
  assumes l: "g_wdactivelist y = w # ws" and c: "clock_compare (wexpired (wdogs y w)) ticks"
  shows "wd_expire_loop (wd_call fire) ticks y = do {
    f \<leftarrow> wfunc (wdogs y w);
    e \<leftarrow> fire f (warg (wdogs y w)) (wenv y);
    wd_expire_loop (wd_call fire) ticks
      (y\<lparr>g_wdactivelist := ws, wdogs := (wdogs y)(w := (wdogs y w)\<lparr>wfunc := None\<rparr>), wenv := e\<rparr>)
  }"
proof (cases "wfunc (wdogs y w)")
  case None
  then show ?thesis using l c by (subst wd_expire_loop.simps) simp
next
  case (Some f)
  then show ?thesis using l c
    by (subst wd_expire_loop.simps) (cases "fire f (warg (wdogs y w)) (wenv y)"; simp add: wd_call_def)
qed

lemma wd_expire_loop_run:
  assumes "distinct (g_wdactivelist y)"
    and "due = takeWhile (\<lambda>w. clock_compare (wexpired (wdogs y w)) ticks) (g_wdactivelist y)"
    and "rest = dropWhile (\<lambda>w. clock_compare (wexpired (wdogs y w)) ticks) (g_wdactivelist y)"
  shows "wd_expire_loop (wd_call fire) ticks y =
    map_option (\<lambda>e. (case rest of [] \<Rightarrow> ticks | w # _ \<Rightarrow> wexpired (wdogs y w),
                    y\<lparr>g_wdactivelist := rest, wdogs := wd_off due (wdogs y), wenv := e\<rparr>))
      (wd_run fire (wdogs y) due (wenv y))"
  using assms
proof (induction "g_wdactivelist y" arbitrary: y due rest)
  case Nil
  then show ?case by (subst wd_expire_loop.simps) (simp add: wd_off_def)
next
  case (Cons w ws)
  show ?case
  proof (cases "clock_compare (wexpired (wdogs y w)) ticks")
    case False
    then show ?thesis using Cons.prems by (subst wd_expire_loop.simps) (simp add: wd_off_def flip: Cons.hyps(2))
  next
    case True
    define due' where "due' = takeWhile (\<lambda>w. clock_compare (wexpired (wdogs y w)) ticks) ws"
    have dr: "due = w # due'" "rest = dropWhile (\<lambda>w. clock_compare (wexpired (wdogs y w)) ticks) ws" "w \<notin> set ws" "distinct ws"
      using Cons.prems True by (simp_all add: due'_def flip: Cons.hyps(2))
    then have dw: "w \<notin> set due'" by (auto simp: due'_def dest: set_takeWhileD)
    have ih: "wd_expire_loop (wd_call fire) ticks y1 =
        map_option (\<lambda>e. (case rest of [] \<Rightarrow> ticks | w # _ \<Rightarrow> wexpired (wdogs y w),
                        y\<lparr>g_wdactivelist := rest, wdogs := wd_off due (wdogs y), wenv := e\<rparr>))
          (wd_run fire (wdogs y) due' e1)"
      if y1: "y1 = y\<lparr>g_wdactivelist := ws, wdogs := (wdogs y)(w := (wdogs y w)\<lparr>wfunc := None\<rparr>), wenv := e1\<rparr>" for y1 e1
    proof -
      have x: "wexpired (wdogs y1 v) = wexpired (wdogs y v)" for v by (simp add: y1)
      have o: "wd_off due' (wdogs y1) = wd_off due (wdogs y)" using dr dw by (auto simp: wd_off_def y1)
      have r: "wd_run fire (wdogs y1) due' e1 = wd_run fire (wdogs y) due' e1"
        using dw by (intro wd_run_cong) (auto simp: y1)
      have h: "ws = g_wdactivelist y1" "distinct (g_wdactivelist y1)"
        "due' = takeWhile (\<lambda>w. clock_compare (wexpired (wdogs y1 w)) ticks) (g_wdactivelist y1)"
        "rest = dropWhile (\<lambda>w. clock_compare (wexpired (wdogs y1 w)) ticks) (g_wdactivelist y1)"
        using dr by (simp_all add: x due'_def) (simp_all add: y1)
      have y2: "y1\<lparr>g_wdactivelist := rest, wdogs := g, wenv := e\<rparr> = y\<lparr>g_wdactivelist := rest, wdogs := g, wenv := e\<rparr>" for g e
        by (simp add: y1)
      have e1: "wenv y1 = e1" by (simp add: y1)
      show ?thesis using Cons.hyps(1) [OF h] by (simp only: x o r y2 e1)
    qed
    have step: "wd_expire_loop (wd_call fire) ticks y = do {
        f \<leftarrow> wfunc (wdogs y w);
        e \<leftarrow> fire f (warg (wdogs y w)) (wenv y);
        map_option (\<lambda>e. (case rest of [] \<Rightarrow> ticks | w # _ \<Rightarrow> wexpired (wdogs y w),
                        y\<lparr>g_wdactivelist := rest, wdogs := wd_off due (wdogs y), wenv := e\<rparr>)) (wd_run fire (wdogs y) due' e)
      }"
      unfolding wd_expire_loop_due [OF Cons.hyps(2) [symmetric] True] ih [OF refl] ..
    show ?thesis unfolding step dr(1) by (cases "wfunc (wdogs y w)") (simp_all add: map_option_bind comp_def)
  qed
qed

lemma takeWhile_sorted:
  "sorted (map k xs) \<Longrightarrow> takeWhile (\<lambda>x. k x \<le> (d :: int)) xs = filter (\<lambda>x. k x \<le> d) xs"
  "sorted (map k xs) \<Longrightarrow> dropWhile (\<lambda>x. k x \<le> (d :: int)) xs = filter (\<lambda>x. d < k x) xs"
proof (induction xs)
  case (Cons x xs)
  {
    case 1
    with Cons.IH have "filter (\<lambda>x. k x \<le> d) xs = []" if "d < k x" using that by (force simp: filter_empty_conv)
    with 1 Cons.IH show ?case by (auto simp: not_le)
  next
    case 2
    with Cons.IH have "filter (\<lambda>x. d < k x) xs = xs" if "d < k x" using that by (force simp: filter_id_conv)
    with 2 Cons.IH show ?case by auto
  }
qed simp_all

lemma wd_timer_ok:
  assumes w: "wd_wf y"
    and due: "due = filter (\<lambda>w. clock_compare (wexpired (wdogs y w)) (g_system_ticks y)) (g_wdactivelist y)"
    and rest: "rest = filter (\<lambda>w. \<not> clock_compare (wexpired (wdogs y w)) (g_system_ticks y)) (g_wdactivelist y)"
  shows "wd_timer (wd_call fire) (g_system_ticks y) y =
      map_option (\<lambda>e. y\<lparr>g_wdactivelist := rest, wdogs := wd_off due (wdogs y), wenv := e\<rparr>) (wd_run fire (wdogs y) due (wenv y))"
    "wd_wf (y\<lparr>g_wdactivelist := rest, wdogs := wd_off due (wdogs y), wenv := e\<rparr>)"
proof -
  let ?n = "g_system_ticks y" and ?l = "g_wdactivelist y"
  let ?k = "\<lambda>w. dist ?n (wexpired (wdogs y w))"
  have c: "clock_compare (wexpired (wdogs y w)) ?n \<longleftrightarrow> ?k w \<le> 0" if "w \<in> set ?l" for w
    using that w clock_compare_now by (simp add: wd_wf_def)
  have s: "sorted (map ?k ?l)" using w by (simp add: wd_wf_def)
  have "takeWhile (\<lambda>w. clock_compare (wexpired (wdogs y w)) ?n) ?l = takeWhile (\<lambda>w. ?k w \<le> 0) ?l"
    "dropWhile (\<lambda>w. clock_compare (wexpired (wdogs y w)) ?n) ?l = dropWhile (\<lambda>w. ?k w \<le> 0) ?l"
    using c by (auto intro: takeWhile_cong dropWhile_cong)
  moreover have "due = filter (\<lambda>w. ?k w \<le> 0) ?l" "rest = filter (\<lambda>w. 0 < ?k w) ?l"
    using c by (auto simp: due rest intro: filter_cong)
  ultimately have d: "due = takeWhile (\<lambda>w. clock_compare (wexpired (wdogs y w)) ?n) ?l"
      "rest = dropWhile (\<lambda>w. clock_compare (wexpired (wdogs y w)) ?n) ?l"
    using takeWhile_sorted [OF s, of 0] by simp_all
  show "wd_timer (wd_call fire) ?n y =
      map_option (\<lambda>e. y\<lparr>g_wdactivelist := rest, wdogs := wd_off due (wdogs y), wenv := e\<rparr>) (wd_run fire (wdogs y) due (wenv y))"
    unfolding wd_timer_def wd_expiration_def wd_expire_loop_run [OF _ d, of fire] using w
    by (simp add: wd_wf_def wd_expire_loop_run [OF _ d] option.map_comp comp_def)
  have dr: "distinct rest" "sorted (map ?k rest)" using w s by (simp_all add: rest wd_wf_def sorted_filter)
  have "\<forall>v \<in> set rest. near ?n (wexpired (wdogs y v))" using w by (simp add: rest wd_wf_def)
  moreover have "v \<in> set rest \<longleftrightarrow> WDOG_ISACTIVE (wd_off due (wdogs y) v)" for v
    using w by (auto simp: due rest wd_off_def WDOG_ISACTIVE_def wd_wf_def)
  moreover have "wexpired (wd_off due (wdogs y) v) = wexpired (wdogs y v)" for v by (simp add: wd_off_def)
  ultimately show "wd_wf (y\<lparr>g_wdactivelist := rest, wdogs := wd_off due (wdogs y), wenv := e\<rparr>)"
    using dr by (simp add: wd_wf_def)
qed

section \<open>The passage of time\<close>

text \<open>Nothing is overdue, as it is after each tick.\<close>

definition wd_fresh :: "('f, 'e) wdsys \<Rightarrow> bool" where
  "wd_fresh y \<longleftrightarrow> wd_wf y \<and> (\<forall>w \<in> set (g_wdactivelist y). 0 < dist (g_system_ticks y) (wexpired (wdogs y w)))"

lemma dist_tick:
  assumes "near now t" "0 < dist now t"
  shows "dist (now + 1) t = dist now t - 1" "near (now + 1) t"
proof -
  have "sint ((t - now) - 1) = signed_take_bit 63 (dist now t - 1)"
    unfolding dist_def by (subst sint_word_ariths(2)) simp
  also have "\<dots> = dist now t - 1" using assms by (intro signed_take_bit_int_eq_self) (simp_all add: near_def)
  finally show "dist (now + 1) t = dist now t - 1" by (simp add: dist_def algebra_simps)
  then show "near (now + 1) t" using assms by (simp add: near_def)
qed

lemma wd_increase_wf:
  assumes "wd_fresh y" and y': "y' = clock_increase_sched_ticks 1 y"
  shows "wd_wf y'" "w \<in> set (g_wdactivelist y) \<Longrightarrow> 0 \<le> dist (g_system_ticks y') (wexpired (wdogs y' w))"
proof -
  have w: "wd_wf y" and f: "\<forall>w \<in> set (g_wdactivelist y). 0 < dist (g_system_ticks y) (wexpired (wdogs y w))"
    using assms(1) by (simp_all add: wd_fresh_def)
  have sel: "g_wdactivelist y' = g_wdactivelist y" "wdogs y' = wdogs y" "g_system_ticks y' = g_system_ticks y + 1"
    by (simp_all add: y' clock_increase_sched_ticks_def)
  let ?n = "g_system_ticks y"
  have d: "dist (?n + 1) (wexpired (wdogs y v)) = dist ?n (wexpired (wdogs y v)) - 1" "near (?n + 1) (wexpired (wdogs y v))"
    if "v \<in> set (g_wdactivelist y)" for v
    using that w f dist_tick [of ?n "wexpired (wdogs y v)"] by (simp_all add: wd_wf_def)
  then show "w \<in> set (g_wdactivelist y) \<Longrightarrow> 0 \<le> dist (g_system_ticks y') (wexpired (wdogs y' w))"
    using f by (simp add: sel)
  have m: "map (\<lambda>v. dist (?n + 1) (wexpired (wdogs y v))) (g_wdactivelist y) =
      map (\<lambda>x. x - 1) (map (\<lambda>v. dist ?n (wexpired (wdogs y v))) (g_wdactivelist y))"
    using d by simp
  have "sorted (map (\<lambda>x. x - 1 :: int) xs)" if "sorted xs" for xs using that by (induction xs) auto
  then have "sorted (map (\<lambda>v. dist (?n + 1) (wexpired (wdogs y v))) (g_wdactivelist y))"
    unfolding m using w unfolding wd_wf_def by blast
  then show "wd_wf y'" using w d(2) by (simp add: wd_wf_def sel)
qed

text \<open>The first watchdog of the list is the only one that is due at the next tick.\<close>

lemma wd_only_due:
  assumes w: "wd_wf y" and l: "g_wdactivelist y = t # ws" "wexpired (wdogs y t) = g_system_ticks y + 1"
    and n: "\<forall>v \<in> set ws. wexpired (wdogs y v) \<noteq> g_system_ticks y + 1"
  shows "wd_fresh y" "clock_compare (wexpired (wdogs y t)) (g_system_ticks y + 1)"
    "\<forall>v \<in> set ws. \<not> clock_compare (wexpired (wdogs y v)) (g_system_ticks y + 1)"
proof -
  let ?now = "g_system_ticks y"
  have dt: "dist ?now (?now + 1) = 1" by (simp add: dist_def)
  have d: "1 \<le> dist ?now (wexpired (wdogs y v))" if "v \<in> set ws" for v using w that by (simp add: wd_wf_def l dt)
  then show "wd_fresh y" using w by (force simp: wd_fresh_def l dt)
  show "clock_compare (wexpired (wdogs y t)) (?now + 1)" by (simp add: l clock_compare_def)
  show "\<forall>v \<in> set ws. \<not> clock_compare (wexpired (wdogs y v)) (?now + 1)"
  proof
    fix v
    assume v: "v \<in> set ws"
    then have "v \<in> set (g_wdactivelist y)" by (simp add: l)
    then have m: "near ?now (wexpired (wdogs y v))" using w unfolding wd_wf_def by blast
    have "dist ?now (wexpired (wdogs y v)) \<noteq> 1"
    proof
      assume "dist ?now (wexpired (wdogs y v)) = 1"
      moreover have "wexpired (wdogs y v) - ?now = word_of_int (dist ?now (wexpired (wdogs y v)))" by (simp add: dist_def)
      ultimately have "wexpired (wdogs y v) - ?now = 1" by simp
      then have "wexpired (wdogs y v) = ?now + 1" by (simp add: diff_eq_eq add.commute)
      then show False using n v by simp
    qed
    then show "\<not> clock_compare (wexpired (wdogs y v)) (?now + 1)"
      using m d [OF v] dist_tick [of ?now "wexpired (wdogs y v)"] clock_compare_now [of "?now + 1" "wexpired (wdogs y v)"] by simp
  qed
qed

lemma wd_tick_ok:
  assumes f: "wd_fresh y" and t: "\<And>f a e. fire f a e \<noteq> None"
  shows "\<exists>y'. wd_tick fire y = Some y' \<and> wd_fresh y' \<and> g_system_ticks y' = g_system_ticks y + 1 \<and>
    g_wdactivelist y' = filter (\<lambda>w. 1 < dist (g_system_ticks y) (wexpired (wdogs y w))) (g_wdactivelist y) \<and>
    (\<forall>w. wexpired (wdogs y' w) = wexpired (wdogs y w) \<and> warg (wdogs y' w) = warg (wdogs y w) \<and>
       (w \<in> set (g_wdactivelist y') \<longrightarrow> wfunc (wdogs y' w) = wfunc (wdogs y w))) \<and>
    wd_run fire (wdogs y) (filter (\<lambda>w. dist (g_system_ticks y) (wexpired (wdogs y w)) = 1) (g_wdactivelist y)) (wenv y) = Some (wenv y')"
proof -
  define y1 where "y1 = clock_increase_sched_ticks 1 y"
  note w1 = wd_increase_wf [OF f y1_def]
  let ?n = "g_system_ticks y" and ?l = "g_wdactivelist y"
  define due where "due = filter (\<lambda>w. clock_compare (wexpired (wdogs y1 w)) (g_system_ticks y1)) (g_wdactivelist y1)"
  define rest where "rest = filter (\<lambda>w. \<not> clock_compare (wexpired (wdogs y1 w)) (g_system_ticks y1)) (g_wdactivelist y1)"
  have sel: "g_wdactivelist y1 = ?l" "wdogs y1 = wdogs y" "g_system_ticks y1 = ?n + 1" "wenv y1 = wenv y"
    by (simp_all add: y1_def clock_increase_sched_ticks_def)
  have n: "near ?n (wexpired (wdogs y w))" "0 < dist ?n (wexpired (wdogs y w))" if "w \<in> set ?l" for w
    using that f by (simp_all add: wd_fresh_def wd_wf_def)
  have c: "clock_compare (wexpired (wdogs y w)) (?n + 1) \<longleftrightarrow> dist ?n (wexpired (wdogs y w)) = 1" if "w \<in> set ?l" for w
    using n [OF that] dist_tick [of ?n "wexpired (wdogs y w)"] clock_compare_now [of "?n + 1" "wexpired (wdogs y w)"] by auto
  have due': "due = filter (\<lambda>w. dist ?n (wexpired (wdogs y w)) = 1) ?l"
    using c by (auto simp: due_def sel intro: filter_cong)
  have c': "\<not> clock_compare (wexpired (wdogs y w)) (?n + 1) \<longleftrightarrow> 1 < dist ?n (wexpired (wdogs y w))" if "w \<in> set ?l" for w
    using c [OF that] n(2) [OF that] by linarith
  have rest': "rest = filter (\<lambda>w. 1 < dist ?n (wexpired (wdogs y w))) ?l"
    unfolding rest_def sel using c' by (intro filter_cong) simp_all
  have "\<exists>e'. wd_run fire (wdogs y) ws e = Some e'" if "\<forall>w \<in> set ws. wfunc (wdogs y w) \<noteq> None" for ws e
    using that
  proof (induction ws arbitrary: e)
    case (Cons w ws)
    obtain g e1 where "wfunc (wdogs y w) = Some g" "fire g (warg (wdogs y w)) e = Some e1" using Cons.prems t by fastforce
    with Cons show ?case by simp
  qed simp
  moreover have "\<forall>w \<in> set due. wfunc (wdogs y w) \<noteq> None"
    using f by (auto simp: due' wd_fresh_def wd_wf_def WDOG_ISACTIVE_def)
  ultimately obtain e where e: "wd_run fire (wdogs y) due (wenv y) = Some e" by blast
  define y' where "y' = y1\<lparr>g_wdactivelist := rest, wdogs := wd_off due (wdogs y1), wenv := e\<rparr>"
  note o = wd_timer_ok [OF w1(1) due_def rest_def]
  have run: "wd_tick fire y = Some y'" using o(1) e by (simp add: wd_tick_def y1_def [symmetric] y'_def sel)
  have sel': "g_wdactivelist y' = rest" "g_system_ticks y' = ?n + 1" "wexpired (wdogs y' w) = wexpired (wdogs y w)"
      "warg (wdogs y' w) = warg (wdogs y w)" "w \<in> set rest \<Longrightarrow> wfunc (wdogs y' w) = wfunc (wdogs y w)" "wenv y' = e" for w
    by (auto simp: y'_def sel wd_off_def due' rest')
  have "0 < dist (?n + 1) (wexpired (wdogs y w))" if "w \<in> set rest" for w
    using that n dist_tick [of ?n "wexpired (wdogs y w)"] by (auto simp: rest')
  then have "wd_fresh y'" using o(2) [of e] unfolding wd_fresh_def sel' by (simp add: y'_def)
  then show ?thesis using run sel' e rest' due' by auto
qed

text \<open>
  A watchdog that is active with the distance \<open>n + 1\<close> is still active after \<open>n\<close> ticks, and the next tick runs it.
\<close>

lemma wd_ticks_active:
  assumes "wd_fresh y" and t: "\<And>f a e. fire f a e \<noteq> None" and "w \<in> set (g_wdactivelist y)"
    and "dist (g_system_ticks y) (wexpired (wdogs y w)) = int n + 1"
  shows "\<exists>y'. wd_ticks fire n y = Some y' \<and> wd_fresh y' \<and> w \<in> set (g_wdactivelist y') \<and> wdogs y' w = wdogs y w \<and>
    g_system_ticks y' = g_system_ticks y + of_nat n \<and> dist (g_system_ticks y') (wexpired (wdogs y' w)) = 1"
  using assms(1,3,4)
proof (induction n arbitrary: y)
  case (Suc n)
  obtain y1 where y1: "wd_tick fire y = Some y1" "wd_fresh y1" "g_system_ticks y1 = g_system_ticks y + 1"
      "g_wdactivelist y1 = filter (\<lambda>w. 1 < dist (g_system_ticks y) (wexpired (wdogs y w))) (g_wdactivelist y)"
      "wexpired (wdogs y1 w) = wexpired (wdogs y w)" "warg (wdogs y1 w) = warg (wdogs y w)"
      "w \<in> set (g_wdactivelist y1) \<longrightarrow> wfunc (wdogs y1 w) = wfunc (wdogs y w)"
    using wd_tick_ok [where fire = fire, OF Suc.prems(1) t] by blast
  have w1: "w \<in> set (g_wdactivelist y1)" using Suc.prems(2,3) by (simp add: y1(4))
  then have g: "wdogs y1 w = wdogs y w" using y1(5-7) by (simp add: wdog_s.equality)
  have "near (g_system_ticks y) (wexpired (wdogs y w))" using Suc.prems(1,2) by (simp add: wd_fresh_def wd_wf_def)
  then have "dist (g_system_ticks y1) (wexpired (wdogs y1 w)) = int n + 1"
    using dist_tick(1) [of "g_system_ticks y" "wexpired (wdogs y w)"] Suc.prems(3) by (simp add: y1(3,5))
  from Suc.IH [OF y1(2) w1 this] show ?case using y1(1,3) g by (auto simp: algebra_simps)
qed (use assms in simp)

lemma wd_run_log:
  "\<forall>w \<in> set ws. wfunc (g w) \<noteq> None \<Longrightarrow>
   wd_run wd_log g ws e = Some (e @ map (\<lambda>w. (the (wfunc (g w)), warg (g w))) ws)"
  by (induction ws arbitrary: e) (auto simp: wd_log_def)

lemma wd_start_fires:
  assumes y: "wd_fresh y" and d: "delay \<le> WDOG_MAX_DELAY" and y0: "y0 = snd (wd_start (Some w) delay (Some f) arg y)"
  shows "\<exists>y1 y2 calls. wd_ticks wd_log (unat delay) y0 = Some y1 \<and> WDOG_ISACTIVE (wdogs y1 w) \<and>
    wd_tick wd_log y1 = Some y2 \<and> \<not> WDOG_ISACTIVE (wdogs y2 w) \<and> wenv y2 = wenv y1 @ calls \<and> (f, arg) \<in> set calls"
proof -
  let ?e = "g_system_ticks y + delay + 1"
  note n = delay_near [OF d, of "g_system_ticks y"]
  have w: "wd_wf y" and fr: "\<forall>v \<in> set (g_wdactivelist y). 0 < dist (g_system_ticks y) (wexpired (wdogs y v))"
    using y by (simp_all add: wd_fresh_def)
  note s = wd_start_abstick_ok [OF w n(2), where f = f, OF y0 [unfolded wd_start_eq [OF d]]]
  have f0: "wd_fresh y0" unfolding wd_fresh_def s(3-5) using s(2) fr n(1) by auto
  have total: "wd_log f a e \<noteq> None" for f a and e :: "('a \<times> nat) list" by (simp add: wd_log_def)
  have w0: "w \<in> set (g_wdactivelist y0)" by (simp add: s(3))
  have d0: "dist (g_system_ticks y0) (wexpired (wdogs y0 w)) = int (unat delay) + 1" using n(1) by (simp add: s(4,5))
  obtain y1 where y1: "wd_ticks wd_log (unat delay) y0 = Some y1" "wd_fresh y1" "w \<in> set (g_wdactivelist y1)"
      "wdogs y1 w = wdogs y0 w" "dist (g_system_ticks y1) (wexpired (wdogs y1 w)) = 1"
    using wd_ticks_active [where fire = wd_log, OF f0 total w0 d0] by blast
  let ?due = "filter (\<lambda>v. dist (g_system_ticks y1) (wexpired (wdogs y1 v)) = 1) (g_wdactivelist y1)"
  obtain y2 where y2: "wd_tick wd_log y1 = Some y2" "wd_fresh y2"
      "g_wdactivelist y2 = filter (\<lambda>v. 1 < dist (g_system_ticks y1) (wexpired (wdogs y1 v))) (g_wdactivelist y1)"
      "wd_run wd_log (wdogs y1) ?due (wenv y1) = Some (wenv y2)"
    using wd_tick_ok [where fire = wd_log, OF y1(2) total] by blast
  have act: "v \<in> set (g_wdactivelist y1) \<longleftrightarrow> WDOG_ISACTIVE (wdogs y1 v)" "v \<in> set (g_wdactivelist y2) \<longleftrightarrow> WDOG_ISACTIVE (wdogs y2 v)" for v
    using y1(2) y2(2) by (simp_all add: wd_fresh_def wd_wf_def)
  have "w \<notin> set (g_wdactivelist y2)" using y1(5) by (simp add: y2(3))
  moreover have "\<forall>v \<in> set ?due. wfunc (wdogs y1 v) \<noteq> None" using act by (simp add: WDOG_ISACTIVE_def)
  then have "wenv y2 = wenv y1 @ map (\<lambda>w. (the (wfunc (wdogs y1 w)), warg (wdogs y1 w))) ?due"
    using y2(4) by (simp add: wd_run_log)
  moreover have "(f, arg) \<in> set (map (\<lambda>w. (the (wfunc (wdogs y1 w)), warg (wdogs y1 w))) ?due)"
    using y1(3-5) by (force simp: s(4))
  ultimately show ?thesis using y1(1,3) y2(1) act by blast
qed

end
