(* ===== verification/Round_Robin.thy ===== *)
theory Round_Robin
  imports Task_Setup Sched_Frame Wdog
begin

text \<open>
  Round-robin scheduling on SMP: \<open>sched/sched/sched_roundrobin.c\<close>, its use of the SMP calls of \<open>sched/sched/sched_smp.c\<close>,
  and the scheduler part of the tick, \<open>nxsched_process_scheduler\<close> of \<open>sched/sched/sched_processtick.c\<close>.

  A task on another CPU is preempted by an SMP call. The call data, with the process ID the handler is to be called with, is one
  static variable; that it is in the call queue of a CPU is a flag per CPU. The interrupt that
  \<open>up_send_smp_call\<close> raises is the later \<open>nxsched_smp_call_handler\<close> of that CPU.
\<close>

section \<open>SMP calls\<close>

record smp_call_data_s =
  call_arg :: int
  call_queued :: "nat \<Rightarrow> bool"

definition nxsched_smp_call_init :: "int \<Rightarrow> smp_call_data_s \<Rightarrow> smp_call_data_s" where
  "nxsched_smp_call_init arg d = d\<lparr>call_arg := arg\<rparr>"

definition nxsched_smp_call_add :: "nat \<Rightarrow> smp_call_data_s \<Rightarrow> smp_call_data_s" where
  "nxsched_smp_call_add target d = d\<lparr>call_queued := (call_queued d)(target := True)\<rparr>"

section \<open>Time slices\<close>

definition TCB_FLAG_EXIT_PROCESSING :: u32 where "TCB_FLAG_EXIT_PROCESSING = push_bit 8 1"

definition nxsched_roundrobin_handler :: "nat \<Rightarrow> int \<Rightarrow> kernel \<Rightarrow> bool \<times> kernel" where
  "nxsched_roundrobin_handler c p k =
     (case nxsched_get_tcb p k of
        None \<Rightarrow> (False, k)
      | Some t \<Rightarrow>
          if tstate_of k t = TSTATE_TASK_INVALID \<or> flags (tcbs k t) AND TCB_FLAG_EXIT_PROCESSING \<noteq> 0 then (False, k)
          else if tstate_of k t = TSTATE_TASK_RUNNING \<and> cpu (tcbs k t) = c
          then nxsched_switch_running (cpu (tcbs k t)) True k
          else (False, k))"

definition nxsched_smp_call_handler :: "nat \<Rightarrow> smp_call_data_s \<Rightarrow> kernel \<Rightarrow> bool \<times> smp_call_data_s \<times> kernel" where
  "nxsched_smp_call_handler c d k =
     (if call_queued d c then
        let (sw, k1) = nxsched_roundrobin_handler c (call_arg d) k
        in (sw, d\<lparr>call_queued := (call_queued d)(c := False)\<rparr>, k1)
      else (False, d, k))"

text \<open>
  \<open>MIN(tcb->timeslice, ticks)\<close> compares as unsigned 64-bit numbers. The result has the ticks until the
  slice ends and whether the CPU \<open>c\<close>, which executes the code, has to switch.
\<close>

definition slice_decr :: "i32 \<Rightarrow> clock \<Rightarrow> i32" where
  "slice_decr ts ticks = (if (signed ts :: clock) < ticks then ts else unsigned ticks)"

definition nxsched_process_roundrobin ::
    "nat \<Rightarrow> tid \<Rightarrow> clock \<Rightarrow> bool \<Rightarrow> smp_call_data_s \<Rightarrow> kernel \<Rightarrow> clock \<times> bool \<times> smp_call_data_s \<times> kernel" where
  "nxsched_process_roundrobin c t ticks noswitches d k =
     (let ts = timeslice (tcbs k t) - slice_decr (timeslice (tcbs k t)) ticks;
          k1 = upd_tcb t (\<lambda>x. x\<lparr>timeslice := ts\<rparr>) k
      in if sint ts \<le> 0 \<and> \<not> nxsched_islocked_tcb (tcbs k1 t) then
           if noswitches then (0, False, d, k1)
           else
             let k2 = upd_tcb t (\<lambda>x. x\<lparr>timeslice := rr_interval k\<rparr>) k1;
                 ret = signed (rr_interval k)
             in if cpu (tcbs k2 t) \<noteq> c
                then (ret, False, nxsched_smp_call_add (cpu (tcbs k2 t)) (nxsched_smp_call_init (pid (tcbs k2 t)) d), k2)
                else let (sw, k3) = nxsched_switch_running (cpu (tcbs k2 t)) True k2 in (ret, sw, d, k3)
         else if ts = 0 then (CLOCK_MAX, False, d, k1)
         else (signed ts, False, d, k1))"

definition nxsched_cpu_scheduler :: "nat \<Rightarrow> nat \<Rightarrow> smp_call_data_s \<Rightarrow> kernel \<Rightarrow> bool \<times> smp_call_data_s \<times> kernel" where
  "nxsched_cpu_scheduler c i d k =
     (if flags (tcbs k (current_task k i)) AND TCB_FLAG_POLICY_MASK = TCB_FLAG_SCHED_RR
      then snd (nxsched_process_roundrobin c (current_task k i) 1 False d k)
      else (False, d, k))"

primrec process_cpus :: "nat \<Rightarrow> nat list \<Rightarrow> smp_call_data_s \<Rightarrow> kernel \<Rightarrow> bool \<times> smp_call_data_s \<times> kernel" where
  "process_cpus c [] d k = (False, d, k)"
| "process_cpus c (i # is) d k =
     (let (sw, d1, k1) = nxsched_cpu_scheduler c i d k;
          (sw', d2, k2) = process_cpus c is d1 k1
      in (sw \<or> sw', d2, k2))"

definition nxsched_process_scheduler :: "nat \<Rightarrow> smp_call_data_s \<Rightarrow> kernel \<Rightarrow> bool \<times> smp_call_data_s \<times> kernel" where
  "nxsched_process_scheduler c d k = process_cpus c [0..<ncpus k] d k"

section \<open>The scheduler's invariant\<close>

lemma slice_wf: "sched_wf k \<Longrightarrow> sched_wf (upd_tcb t (\<lambda>x. x\<lparr>timeslice := n\<rparr>) k)"
  by (rule sched_wf_tcb) simp_all

lemma roundrobin_kernel:
  obtains n where "snd (snd (snd (nxsched_process_roundrobin c t ticks ns d k))) = upd_tcb t (\<lambda>x. x\<lparr>timeslice := n\<rparr>) k"
  | "snd (snd (snd (nxsched_process_roundrobin c t ticks ns d k))) =
       snd (nxsched_switch_running c True (upd_tcb t (\<lambda>x. x\<lparr>timeslice := rr_interval k\<rparr>) k))"
proof -
  have u: "upd_tcb t (\<lambda>x. x\<lparr>timeslice := m\<rparr>) (upd_tcb t (\<lambda>x. x\<lparr>timeslice := n\<rparr>) k) = upd_tcb t (\<lambda>x. x\<lparr>timeslice := m\<rparr>) k" for m n
    by (simp add: upd_tcb_def)
  show thesis using that unfolding nxsched_process_roundrobin_def Let_def u by (fastforce split: if_splits prod.splits)
qed

lemma nxsched_process_roundrobin_wf:
  assumes "sched_wf k" "c < ncpus k"
  shows "sched_wf (snd (snd (snd (nxsched_process_roundrobin c t ticks ns d k))))"
  by (rule roundrobin_kernel [of c t ticks ns d k]) (use assms in \<open>simp_all add: slice_wf nxsched_switch_running_wf\<close>)

lemma nxsched_process_roundrobin_ncpus:
  "ncpus (snd (snd (snd (nxsched_process_roundrobin c t ticks ns d k)))) = ncpus k"
  by (rule roundrobin_kernel [of c t ticks ns d k]) (simp_all add: sched_eq_globals [OF nxsched_switch_running_eq])

section \<open>Rotation\<close>

lemma slice_decr_one:
  assumes "0 < sint ts"
  shows "slice_decr ts 1 = 1"
proof -
  have "sint (signed ts :: clock) = sint ts"
    using sint_range_size [of ts] unfolding word_size
    by (simp only: scast_eq sint_sbintrunc') (intro signed_take_bit_int_eq_self, simp_all)
  then have "(signed ts :: clock) \<noteq> 0" using assms by (metis less_irrefl signed_0)
  then show ?thesis by (simp add: slice_decr_def)
qed

lemma switched_rotates:
  assumes w: "sched_wf k" and r: "r = current_task k c" "\<not> is_idle_task k r" and b: "b \<noteq> r"
  obtains ys zs where "readytorun (switched c b k) = ys @ r # zs" "remove1 b (readytorun k) = ys @ zs"
    "\<forall>y \<in> set ys. prio k r \<le> prio k y" "\<forall>z \<in> set zs. prio k z < prio k r"
proof -
  have d: "desc (prio k) (remove1 b (readytorun k))" using w by (simp add: sched_wf_def readytorun_wf desc_remove1)
  obtain ys zs where s: "remove1 b (readytorun k) = ys @ zs" "ins_desc (prio k) r (remove1 b (readytorun k)) = ys @ r # zs"
      "\<forall>y \<in> set ys. prio k r \<le> prio k y" "\<forall>z \<in> set zs. prio k z < prio k r"
    using ins_desc_split [OF d, of r] by metis
  moreover have "readytorun (switched c b k) = ins_desc (prio k) r (remove1 b (readytorun k))"
    using r b by (simp add: switched_sel)
  ultimately show thesis using that by simp
qed

lemma roundrobin_switches:
  assumes w: "sched_wf k" and c: "c < ncpus k" and t: "t = current_task k c" "\<not> is_idle_task k t" "\<not> nxsched_islocked_tcb (tcbs k t)"
    and p: "0 < prio k t" and ts: "timeslice (tcbs k t) = 1"
    and u: "u \<in> set (readytorun k)" "may_run_on k c u" "prio k u = prio k t"
  shows "\<exists>b k' ys zs. nxsched_process_roundrobin c t 1 False d k = (signed (rr_interval k), True, d, k') \<and> sched_wf k' \<and>
    current_task k' c = b \<and> b \<in> set (readytorun k) \<and> may_run_on k c b \<and> prio k t \<le> prio k b \<and>
    (\<forall>v \<in> set (takeWhile (\<lambda>v. v \<noteq> b) (readytorun k)). \<not> may_run_on k c v) \<and>
    tstate_of k' t = TSTATE_TASK_READYTORUN \<and> timeslice (tcbs k' t) = rr_interval k \<and>
    readytorun k' = ys @ t # zs \<and> remove1 b (readytorun k) = ys @ zs \<and>
    (\<forall>v \<in> set ys. prio k t \<le> prio k v) \<and> (\<forall>v \<in> set zs. prio k v < prio k t)"
proof -
  define k2 where "k2 = upd_tcb t (\<lambda>x. x\<lparr>timeslice := rr_interval k\<rparr>) k"
  have w2: "sched_wf k2" "c < ncpus k2" using slice_wf [OF w] c by (simp_all add: k2_def)
  have same: "current_task k2 c = t" "readytorun k2 = readytorun k" "prio k2 v = prio k v"
      "nxsched_islocked_tcb (tcbs k2 t) \<longleftrightarrow> nxsched_islocked_tcb (tcbs k t)" "is_idle_task k2 t = is_idle_task k t"
      "may_run_on k2 c v \<longleftrightarrow> may_run_on k c v" for v
    using t by (auto simp: k2_def current_task_def nxsched_islocked_tcb_def is_idle_task_def may_run_on_def cpu_locked_def)
  have cpu: "cpu (tcbs k t) = c" using w c t by (simp add: sched_wf_def cpus_wf_def current_task_def)
  have cpu2: "cpu (tcbs k2 t) = c" using cpu by (simp add: k2_def)
  have u2: "upd_tcb t (\<lambda>x. x\<lparr>timeslice := rr_interval k\<rparr>) (upd_tcb t (\<lambda>x. x\<lparr>timeslice := 0\<rparr>) k) = k2"
    by (simp add: k2_def upd_tcb_def)
  have run: "nxsched_process_roundrobin c t 1 False d k =
      (signed (rr_interval k), fst (nxsched_switch_running c True k2), d, snd (nxsched_switch_running c True k2))"
    using ts t(3) cpu cpu2 u2 by (simp add: nxsched_process_roundrobin_def slice_decr_one Let_def nxsched_islocked_tcb_def split: prod.split)
  have d2: "desc (prio k2) (readytorun k2)" "distinct (readytorun k2)" using w2 by (simp_all add: sched_wf_def readytorun_wf)
  have p2: "0 < uint (prio k2 t)" using p same(3) by (simp add: word_less_def)
  have "rtr_search k2 c (uint (prio k2 t) - 1) (readytorun k2) \<noteq> None"
  proof
    assume "rtr_search k2 c (uint (prio k2 t) - 1) (readytorun k2) = None"
    from rtr_search_None [OF this d2(1), of u] u have "uint (prio k u) \<le> uint (prio k t) - 1" by (simp add: same)
    then show False using u(3) by simp
  qed
  then have sw: "fst (nxsched_switch_running c True k2)"
    using t(3) p2 same by (simp add: nxsched_switch_running_def Let_def split: option.split)
  show ?thesis
    using w2
  proof (cases rule: nxsched_switch_running_cases [of k2 c True])
    case (switch q b)
    obtain us vs where uv: "readytorun k = us @ b # vs" "q < uint (prio k b)" "may_run_on k c b" "\<forall>v \<in> set us. \<not> may_run_on k c v"
      using rtr_search_Some [OF switch(3)] by (auto simp: same)
    have "takeWhile (\<lambda>v. v \<noteq> b) (readytorun k) = us" using d2(2) uv(1) by (auto simp: same takeWhile_append)
    moreover have "prio k t \<le> prio k b" using switch(2) uv(2) by (auto simp: same word_le_def)
    moreover obtain ys zs where "readytorun (switched c b k2) = ys @ t # zs" "remove1 b (readytorun k) = ys @ zs"
        "\<forall>y \<in> set ys. prio k t \<le> prio k y" "\<forall>z \<in> set zs. prio k z < prio k t"
      using switched_rotates [OF w2(1), of t c b] switch(5) t(2) by (metis same(1,2,3,5))
    moreover have "sched_wf (switched c b k2)" using nxsched_switch_running_wf [OF w2, of True] switch(6) by simp
    moreover have "tcbs (switched c b k2) t = (tcbs k t)\<lparr>timeslice := rr_interval k, task_state := TSTATE_TASK_READYTORUN\<rparr>"
      using switch(5) t(2) by (simp add: switched_sel same) (simp add: k2_def)
    moreover have "current_task (switched c b k2) c = b" using switch(5) by (simp add: switched_sel current_task_def)
    moreover have "nxsched_process_roundrobin c t 1 False d k = (signed (rr_interval k), True, d, switched c b k2)"
      using run switch(6) by simp
    moreover have "b \<in> set (readytorun k)" using uv(1) by simp
    ultimately show ?thesis using uv(3,4)
      by (intro exI [of _ b] exI [of _ "switched c b k2"] exI [of _ ys] exI [of _ zs]) simp
  qed (use sw in simp_all)
qed

section \<open>The other branches\<close>

lemma roundrobin_continues:
  assumes "1 < sint (timeslice (tcbs k t))" and "ts = timeslice (tcbs k t) - 1"
  shows "nxsched_process_roundrobin c t 1 ns d k = (signed ts, False, d, upd_tcb t (\<lambda>x. x\<lparr>timeslice := ts\<rparr>) k)" "0 < sint ts"
proof -
  have "sint ts = sint (timeslice (tcbs k t)) - 1"
    using assms sint_range_size [of "timeslice (tcbs k t)"] unfolding word_size
    by (simp add: sint_word_ariths) (intro signed_take_bit_int_eq_self, simp_all)
  then show p: "0 < sint ts" using assms by simp
  then have "ts \<noteq> 0" by auto
  then show "nxsched_process_roundrobin c t 1 ns d k = (signed ts, False, d, upd_tcb t (\<lambda>x. x\<lparr>timeslice := ts\<rparr>) k)"
    using assms p by (simp add: nxsched_process_roundrobin_def Let_def slice_decr_one)
qed

lemma roundrobin_locked:
  assumes "nxsched_islocked_tcb (tcbs k t)" "timeslice (tcbs k t) = 1"
  shows "nxsched_process_roundrobin c t 1 ns d k = (CLOCK_MAX, False, d, upd_tcb t (\<lambda>x. x\<lparr>timeslice := 0\<rparr>) k)"
  using assms by (simp add: nxsched_process_roundrobin_def slice_decr_one nxsched_islocked_tcb_def Let_def)

lemma roundrobin_remote:
  assumes "\<not> nxsched_islocked_tcb (tcbs k t)" "timeslice (tcbs k t) = 1" "cpu (tcbs k t) \<noteq> c"
  shows "nxsched_process_roundrobin c t 1 False d k =
    (signed (rr_interval k), False,
     d\<lparr>call_arg := pid (tcbs k t), call_queued := (call_queued d)(cpu (tcbs k t) := True)\<rparr>,
     upd_tcb t (\<lambda>x. x\<lparr>timeslice := rr_interval k\<rparr>) k)"
  using assms by (simp add: nxsched_process_roundrobin_def slice_decr_one nxsched_islocked_tcb_def Let_def
      nxsched_smp_call_add_def nxsched_smp_call_init_def upd_tcb_def)

text \<open>
  The slices of two tasks on other CPUs end in the same tick: the second call overwrites the process ID of the first, which
  is still queued, and the handler of the first CPU finds a task that does not run there. The first task has a new slice and
  no other task gets its CPU.
\<close>

lemma roundrobin_call_overwritten:
  assumes t: "\<not> nxsched_islocked_tcb (tcbs k t)" "timeslice (tcbs k t) = 1" "cpu (tcbs k t) = i"
    and u: "\<not> nxsched_islocked_tcb (tcbs k u)" "timeslice (tcbs k u) = 1" "cpu (tcbs k u) = j"
    and ij: "i \<noteq> c" "j \<noteq> c" "i \<noteq> j" and p: "nxsched_get_tcb (pid (tcbs k u)) k = Some u"
    and r: "nxsched_process_roundrobin c t 1 False d k = (a, sw, d1, k1)" "nxsched_process_roundrobin c u 1 False d1 k1 = (a', sw', d2, k2)"
  shows "call_queued d2 i" "timeslice (tcbs k2 t) = rr_interval k" "fst (nxsched_smp_call_handler i d2 k2) = False"
    "snd (snd (nxsched_smp_call_handler i d2 k2)) = k2"
proof -
  have 1: "k1 = upd_tcb t (\<lambda>x. x\<lparr>timeslice := rr_interval k\<rparr>) k" "d1 = d\<lparr>call_arg := pid (tcbs k t), call_queued := (call_queued d)(i := True)\<rparr>"
    using roundrobin_remote [OF t(1,2), of c d] r(1) t(3) ij(1) by simp_all
  have "t \<noteq> u" using t(3) u(3) ij(3) by blast
  then have "nxsched_process_roundrobin c u 1 False d1 k1 =
    (signed (rr_interval k1), False,
     d1\<lparr>call_arg := pid (tcbs k1 u), call_queued := (call_queued d1)(j := True)\<rparr>, upd_tcb u (\<lambda>x. x\<lparr>timeslice := rr_interval k1\<rparr>) k1)"
    using roundrobin_remote [of k1 u c d1] u ij(2) by (simp add: 1)
  then have r2: "k2 = upd_tcb u (\<lambda>x. x\<lparr>timeslice := rr_interval k1\<rparr>) k1"
      "d2 = d1\<lparr>call_arg := pid (tcbs k1 u), call_queued := (call_queued d1)(j := True)\<rparr>"
    using r(2) by simp_all
  have 2: "k2 = upd_tcb u (\<lambda>x. x\<lparr>timeslice := rr_interval k\<rparr>) k1" "call_arg d2 = pid (tcbs k u)" "call_queued d2 i"
    unfolding r2 using \<open>t \<noteq> u\<close> by (simp_all add: 1)
  have sel: "g_pidhash k2 = g_pidhash k" "g_npidhash k2 = g_npidhash k" "pid (tcbs k2 v) = pid (tcbs k v)" for v
    by (simp_all add: 1 2(1))
  have g: "nxsched_get_tcb (pid (tcbs k u)) k2 = Some u"
    using p unfolding nxsched_get_tcb_def sel .
  have "cpu (tcbs k2 u) = j" using u \<open>t \<noteq> u\<close> by (simp add: 1 2)
  then show "fst (nxsched_smp_call_handler i d2 k2) = False" "snd (snd (nxsched_smp_call_handler i d2 k2)) = k2"
    using g 2 ij by (simp_all add: nxsched_smp_call_handler_def nxsched_roundrobin_handler_def)
  show "call_queued d2 i" "timeslice (tcbs k2 t) = rr_interval k" using 2 \<open>t \<noteq> u\<close> by (simp_all add: 1)
qed

section \<open>All CPUs\<close>

lemma nxsched_cpu_scheduler_wf:
  assumes "sched_wf k" "c < ncpus k" "nxsched_cpu_scheduler c i d k = (sw, d', k')"
  shows "sched_wf k'" "ncpus k' = ncpus k"
  using assms nxsched_process_roundrobin_wf [OF assms(1,2), of "current_task k i" 1 False d]
    nxsched_process_roundrobin_ncpus [of c "current_task k i" 1 False d k]
  by (auto simp: nxsched_cpu_scheduler_def split: if_splits)

end
