(* ===== verification/Timer.thy ===== *)
theory Timer
  imports Round_Robin Sem_Ops
begin

text \<open>
  The tick of the system and what depends on it: \<open>nxsched_process_timer\<close> of \<open>sched/sched/sched_processtick.c\<close>, which advances
  the clock, rotates the round-robin tasks and runs the expired watchdogs, and the timed wait for a semaphore,
  \<open>sched/semaphore/sem_tickwait.c\<close>, whose watchdog ends the wait with \<open>nxsem_timeout\<close>.

  The watchdog \<open>t\<close> is the member \<open>waitdog\<close> of the TCB \<open>t\<close>. The only watchdog function is
  \<open>nxsem_timeout\<close>.
\<close>

section \<open>The tick\<close>

datatype wdentry = Nxsem_timeout

type_synonym tsys = "(wdentry, semsys \<times> smp_call_data_s) wdsys"

abbreviation tsem :: "tsys \<Rightarrow> semsys" where "tsem y \<equiv> fst (wenv y)"

definition set_sem :: "semsys \<Rightarrow> tsys \<Rightarrow> tsys" where
  "set_sem e y = y\<lparr>wenv := (e, snd (wenv y))\<rparr>"

definition wd_func :: "nat \<Rightarrow> wdentry \<Rightarrow> nat \<Rightarrow> semsys \<times> smp_call_data_s \<Rightarrow> (semsys \<times> smp_call_data_s) option" where
  "wd_func c f arg e = (case f of Nxsem_timeout \<Rightarrow> map_option (\<lambda>(sw, y). (y, snd e)) (nxsem_timeout c arg (fst e)))"

definition nxsched_process_timer :: "nat \<Rightarrow> tsys \<Rightarrow> tsys option" where
  "nxsched_process_timer c y =
     (let y1 = clock_increase_sched_ticks 1 y;
          (sw, d, k) = nxsched_process_scheduler c (snd (wenv y1)) (sk (tsem y1));
          y2 = y1\<lparr>wenv := ((tsem y1)\<lparr>sk := k\<rparr>, d)\<rparr>
      in wd_timer (wd_call (wd_func c)) (g_system_ticks y2) y2)"

section \<open>Timed waits\<close>

text \<open>
  A wait that blocks goes on with \<open>nxsem_tickwait_resume\<close> when the task \<open>rtcb\<close> runs again.
\<close>

definition nxsem_tickwait :: "nat \<Rightarrow> oid \<Rightarrow> u32 \<Rightarrow> tsys \<Rightarrow> (wait_end \<times> tsys) option" where
  "nxsem_tickwait c s delay y = do {
     (ret, e1) \<leftarrow> nxsem_trywait c s (tsem y);
     let y1 = set_sem e1 y;
     if ret = OK then Some (WReturned OK, y1)
     else if delay = 0 then Some (WReturned (- ETIMEDOUT), y1)
     else do {
       let rtcb = this_task c (sk e1);
       let y2 = snd (wd_start (Some rtcb) (unsigned delay) (Some Nxsem_timeout) rtcb y1);
       (r, e2) \<leftarrow> nxsem_wait c s (tsem y2);
       let y3 = set_sem e2 y2;
       Some (r, case r of WBlocked \<Rightarrow> y3 | WReturned _ \<Rightarrow> snd (wd_cancel (Some rtcb) y3))
     }
   }"

definition nxsem_tickwait_resume :: "nat \<Rightarrow> oid \<Rightarrow> u8 \<Rightarrow> tid \<Rightarrow> tsys \<Rightarrow> int \<times> tsys" where
  "nxsem_tickwait_resume c s prioinherit rtcb y =
     (let (ret, e) = nxsem_wait_resume c s prioinherit (tsem y)
      in (ret, snd (wd_cancel (Some rtcb) (set_sem e y))))"

text \<open>
  The body of the loop of \<open>nxsem_tickwait_uninterruptible\<close> after a wait has returned \<open>ret\<close>: the result, or the delay of the
  next wait. The delay is a 32-bit number, the tick \<open>end\<close> a 64-bit one.
\<close>

definition tickwait_again :: "clock \<Rightarrow> int \<Rightarrow> clock \<Rightarrow> int + u32" where
  "tickwait_again last_tick ret now =
     (if ret \<noteq> - EINTR then Inl ret
      else let delay = (unsigned (last_tick - now) :: u32) in Inr (if sint delay < 0 then 0 else delay))"

section \<open>The scheduler's part of the tick\<close>

lemma calm_refl: "sched_wf k \<Longrightarrow> calm k k" by (simp add: calm_def)

lemma calm_slice: "sched_wf k \<Longrightarrow> calm k (upd_tcb t (\<lambda>x. x\<lparr>timeslice := n\<rparr>) k)"
  using slice_wf [of k t n] by (auto simp: calm_def is_idle_task_def runnable_def)

lemma calm_switch:
  assumes "sched_wf k" "c < ncpus k"
  shows "calm k (snd (nxsched_switch_running c e k))"
proof -
  have "reprio c k (snd (nxsched_switch_running c e k))"
    using assms by (intro reprio_sched_eq nxsched_switch_running_eq quiet_switch nxsched_switch_running_wf runnable_switch)
  then show ?thesis by (rule calm_reprio)
qed

lemma calm_cpu_scheduler:
  assumes w: "sched_wf k" "c < ncpus k"
  shows "calm k (snd (snd (nxsched_cpu_scheduler c i d k)))"
proof -
  let ?t = "current_task k i"
  define k1 where "k1 = upd_tcb ?t (\<lambda>x. x\<lparr>timeslice := rr_interval k\<rparr>) k"
  have 1: "calm k k1" unfolding k1_def by (rule calm_slice [OF w(1)])
  then have "calm k (snd (nxsched_switch_running c True k1))"
    using w calm_trans [OF 1 calm_switch] calmD(1,2) [OF 1] by simp
  then have "calm k (snd (snd (snd (nxsched_process_roundrobin c ?t 1 False d k))))"
    using calm_slice [OF w(1)] by (rule_tac roundrobin_kernel [of c ?t 1 False d k]) (simp_all add: k1_def)
  then show ?thesis using calm_refl [OF w(1)] by (simp add: nxsched_cpu_scheduler_def)
qed

lemma calm_process_cpus:
  assumes "sched_wf k" "c < ncpus k"
  shows "calm k (snd (snd (process_cpus c is d k)))"
  using assms
proof (induction "is" arbitrary: d k)
  case (Cons i "is")
  obtain sw d1 k1 where 1: "nxsched_cpu_scheduler c i d k = (sw, d1, k1)" by (cases "nxsched_cpu_scheduler c i d k")
  have c1: "calm k k1" using calm_cpu_scheduler [OF Cons.prems, of i d] 1 by simp
  then have "calm k1 (snd (snd (process_cpus c is d1 k1)))" using Cons calmD(1,2) [OF c1] by simp
  with c1 show ?case using 1 by (auto intro: calm_trans split: prod.split)
qed (simp add: calm_refl)

lemma nxsched_process_scheduler_calm:
  "sched_wf k \<Longrightarrow> c < ncpus k \<Longrightarrow> calm k (snd (snd (nxsched_process_scheduler c d k)))"
  unfolding nxsched_process_scheduler_def by (rule calm_process_cpus)

section \<open>The end of a timed wait\<close>

text \<open>The tick at which the watchdog of a waiting task, the only one that is due, expires.\<close>

lemma process_timer_timeout:
  assumes w: "wd_wf y" and i: "sem_inv n (tsem y)" and c: "c < ncpus (sk (tsem y))"
    and l: "g_wdactivelist y = t # ws" "wdogs y t = \<lparr>warg = t, wfunc = Some Nxsem_timeout, wexpired = g_system_ticks y + 1\<rparr>"
      "\<forall>v \<in> set ws. wexpired (wdogs y v) \<noteq> g_system_ticks y + 1"
    and t: "t \<in> set (SEM_WAITLIST s (tsem y))" and m: "\<not> NXSEM_IS_MUTEX (sems (tsem y) s)"
  shows "\<exists>y'. nxsched_process_timer c y = Some y' \<and> wd_wf y' \<and> g_wdactivelist y' = ws \<and> sem_inv n (tsem y') \<and>
    semcount (sems (tsem y') s) = semcount (sems (tsem y) s) + 1 \<and>
    mset (SEM_WAITLIST s (tsem y')) = mset (SEM_WAITLIST s (tsem y)) - {#t#} \<and>
    runnable (sk (tsem y')) t \<and> errcode (tcbs (sk (tsem y')) t) = ETIMEDOUT"
proof -
  let ?now = "g_system_ticks y"
  have "wexpired (wdogs y t) = ?now + 1" by (simp add: l)
  note due = wd_only_due [OF w l(1) this l(3)]
  define y1 where "y1 = clock_increase_sched_ticks 1 y"
  note w1 = wd_increase_wf(1) [OF due(1) y1_def]
  obtain sw d' k where k: "nxsched_process_scheduler c (snd (wenv y)) (sk (tsem y)) = (sw, d', k)"
    by (cases "nxsched_process_scheduler c (snd (wenv y)) (sk (tsem y))")
  have ca: "calm (sk (tsem y)) k"
    using nxsched_process_scheduler_calm [of "sk (tsem y)" c "snd (wenv y)"] k i c by (simp add: sem_inv_def)
  define e where "e = (tsem y)\<lparr>sk := k\<rparr>"
  define y2 where "y2 = y1\<lparr>wenv := (e, d')\<rparr>"
  have sel: "g_wdactivelist y2 = t # ws" "wdogs y2 = wdogs y" "g_system_ticks y2 = ?now + 1" "wenv y2 = (e, d')"
    by (simp_all add: y2_def y1_def clock_increase_sched_ticks_def l)
  have w2: "wd_wf y2" using w1 by (simp add: wd_wf_def y2_def)
  have i2: "sem_inv n e" unfolding e_def by (rule sem_inv_calm [OF i ca])
  have ms: "mset (SEM_WAITLIST s e) = mset (SEM_WAITLIST s (tsem y))" using calmD(3) [OF ca] by (simp add: e_def)
  then have t2: "t \<in> set (SEM_WAITLIST s e)" using t by (metis set_mset_mset)
  have c2: "c < ncpus (sk e)" and m2: "\<not> NXSEM_IS_MUTEX (sems e s)" using m c calmD(2) [OF ca] by (simp_all add: e_def)
  obtain sw' e' where e': "nxsem_wait_irq c t ETIMEDOUT e = Some (sw', e')" "sem_inv n e'"
      "semcount (sems e' s) = semcount (sems e s) + 1" "mset (SEM_WAITLIST s e') = mset (SEM_WAITLIST s e) - {#t#}"
      "runnable (sk e') t" "errcode (tcbs (sk e') t) = ETIMEDOUT"
    using nxsem_wait_irq_count [where e = ETIMEDOUT, OF i2 c2 t2 m2] by blast
  have st: "tstate_of (sk e) t = TSTATE_WAIT_SEM" using sem_waiting [of "sk e" t s] t2 i2 by (simp add: sem_inv_def)
  have f: "wd_func c Nxsem_timeout t (e, d') = Some (e', d')" using st e'(1) by (simp add: wd_func_def nxsem_timeout_def)
  have "[t] = filter (\<lambda>w. clock_compare (wexpired (wdogs y2 w)) (g_system_ticks y2)) (g_wdactivelist y2)"
      "ws = filter (\<lambda>w. \<not> clock_compare (wexpired (wdogs y2 w)) (g_system_ticks y2)) (g_wdactivelist y2)"
    using due(2,3) by (simp_all add: sel filter_id_conv)
  note o = wd_timer_ok [OF w2 this]
  define y' where "y' = y2\<lparr>g_wdactivelist := ws, wdogs := wd_off [t] (wdogs y2), wenv := (e', d')\<rparr>"
  have "nxsched_process_timer c y = wd_timer (wd_call (wd_func c)) (g_system_ticks y2) y2"
    using k by (simp add: nxsched_process_timer_def Let_def y2_def y1_def e_def clock_increase_sched_ticks_def)
  also have "\<dots> = Some y'" unfolding o(1) by (simp add: sel l f y'_def)
  finally have "nxsched_process_timer c y = Some y'" .
  moreover have "wd_wf y'" unfolding y'_def by (rule o(2))
  ultimately show ?thesis using e' ms by (simp add: y'_def e_def)
qed

section \<open>The start of a timed wait\<close>

lemma nxsem_trywait_fails:
  "\<not> NXSEM_IS_MUTEX (sems y s) \<Longrightarrow> semcount (sems y s) \<le> 0 \<Longrightarrow> nxsem_trywait c s y = Some (- EAGAIN, y)"
  by (simp add: nxsem_trywait_def nxsem_trywait_slow_def Let_def)

lemma nxsem_wait_unavailable:
  "\<not> NXSEM_IS_MUTEX (sems y s) \<Longrightarrow> semcount (sems y s) \<le> 0 \<Longrightarrow> nxsem_wait c s y = nxsem_wait_slow c s y"
  by (simp add: nxsem_wait_def Let_def)

lemma set_sem_same: "set_sem (tsem y) y = y" by (simp add: set_sem_def)

lemma delay_small: "(unsigned (delay :: u32) :: clock) \<le> WDOG_MAX_DELAY" "uint (unsigned delay :: clock) = uint delay"
proof -
  have m: "uint WDOG_MAX_DELAY = 2 ^ 62 - 1" by (simp add: WDOG_MAX_DELAY_def CLOCK_MAX_def mask_eq_exp_minus_1)
  show u: "uint (unsigned delay :: clock) = uint delay" using uint_lt2p [of delay] by (simp add: unsigned_ucast_eq take_bit_int_eq_self)
  then show "(unsigned delay :: clock) \<le> WDOG_MAX_DELAY" using uint_lt2p [of delay] by (simp add: word_le_def m)
qed

lemma nxsem_tickwait_blocks:
  assumes w: "wd_wf y" and i: "sem_inv n (tsem y)" and c: "c < ncpus (sk (tsem y))"
    and f: "sem_proto (sems (tsem y) s) = SEM_PRIO_INHERIT \<Longrightarrow> g_freeholders (tsem y) \<noteq> []"
    and t: "t = this_task c (sk (tsem y))" "\<not> is_idle_task (sk (tsem y)) t"
    and lc: "0 \<le> sint (lockcount (tcbs (sk (tsem y)) t))" "sint (lockcount (tcbs (sk (tsem y)) t)) < 2 ^ 15 - 1"
    and m: "\<not> NXSEM_IS_MUTEX (sems (tsem y) s)" and v: "semcount (sems (tsem y) s) \<le> 0" "- (2 ^ 31) < semcount (sems (tsem y) s)"
    and d: "delay \<noteq> 0"
  shows "\<exists>y'. nxsem_tickwait c s delay y = Some (WBlocked, y') \<and> wd_wf y' \<and> sem_inv n (tsem y') \<and>
    set (g_wdactivelist y') = insert t (set (g_wdactivelist y)) \<and> g_system_ticks y' = g_system_ticks y \<and>
    wdogs y' = (wdogs y)(t := \<lparr>warg = t, wfunc = Some Nxsem_timeout, wexpired = g_system_ticks y + unsigned delay + 1\<rparr>) \<and>
    semcount (sems (tsem y') s) = semcount (sems (tsem y) s) - 1 \<and>
    mset (SEM_WAITLIST s (tsem y')) = add_mset t (mset (SEM_WAITLIST s (tsem y)))"
proof -
  define y2 where "y2 = snd (wd_start (Some t) (unsigned delay) (Some Nxsem_timeout) t y)"
  have n: "near (g_system_ticks y) (g_system_ticks y + unsigned delay + 1)" by (rule delay_near(2) [OF delay_small(1)])
  note s = wd_start_abstick_ok [OF w n, where f = Nxsem_timeout, OF y2_def [unfolded wd_start_eq [OF delay_small(1)]]]
  obtain e where e: "nxsem_wait_slow c s (tsem y) = Some (WBlocked, e)" "sem_inv n e"
      "semcount (sems e s) = semcount (sems (tsem y) s) - 1" "mset (SEM_WAITLIST s e) = add_mset t (mset (SEM_WAITLIST s (tsem y)))"
    using nxsem_wait_slow_blocks [OF i c f t lc m v] by blast
  have "nxsem_tickwait c s delay y = Some (WBlocked, set_sem e y2)"
    using d s(6) e(1) unfolding nxsem_tickwait_def
    by (simp add: nxsem_trywait_fails [OF m v(1)] nxsem_wait_unavailable [OF m v(1)] set_sem_same t(1) [symmetric] y2_def [symmetric])
  moreover have "wd_wf (set_sem e y2)" using s(2) by (simp add: wd_wf_def set_sem_def)
  ultimately show ?thesis using s e by (simp add: set_sem_def)
qed

lemma nxsem_tickwait_zero:
  "\<not> NXSEM_IS_MUTEX (sems (tsem y) s) \<Longrightarrow> semcount (sems (tsem y) s) \<le> 0 \<Longrightarrow>
   nxsem_tickwait c s 0 y = Some (WReturned (- ETIMEDOUT), y)"
  by (simp add: nxsem_tickwait_def nxsem_trywait_fails set_sem_same)

lemma nxsem_tickwait_resume_timeout:
  assumes "wd_wf y" and "this_task c (sk (tsem y)) = t" and "errcode (tcbs (sk (tsem y)) t) = ETIMEDOUT"
    and y': "nxsem_tickwait_resume c s prioinherit t y = (ret, y')"
  shows "ret = - ETIMEDOUT" "wd_wf y'" "\<not> WDOG_ISACTIVE (wdogs y' t)" "sems (tsem y') = sems (tsem y)"
proof -
  define e where "e = snd (nxsem_wait_resume c s prioinherit (tsem y))"
  have e: "nxsem_wait_resume c s prioinherit (tsem y) = (- ETIMEDOUT, e)" "sems e = sems (tsem y)"
    unfolding e_def nxsem_wait_resume_def Let_def assms(2,3) by (simp_all add: upd_sk_def)
  have w: "wd_wf (set_sem e y)" using assms(1) by (simp add: wd_wf_def set_sem_def)
  have r: "ret = - ETIMEDOUT" "y' = snd (wd_cancel (Some t) (set_sem e y))"
    using y' e(1) by (simp_all add: nxsem_tickwait_resume_def)
  show "ret = - ETIMEDOUT" "wd_wf y'" "\<not> WDOG_ISACTIVE (wdogs y' t)" "sems (tsem y') = sems (tsem y)"
    using wd_cancel_ok(1,2,6) [OF w r(2)] r(1) e(2) by (simp_all add: set_sem_def)
qed

section \<open>Repeating an interrupted timed wait\<close>

text \<open>The new delay after \<open>n\<close> ticks of a wait that was to last \<open>delay\<close> ticks, as long as the rest fits 31 bits.\<close>

lemma tickwait_delay:
  fixes start :: clock
  assumes "0 \<le> n" "n \<le> uint (delay :: u32) + 1"
  defines "d \<equiv> unsigned (start + unsigned delay + 1 - (start + word_of_int n)) :: u32"
  shows "uint d = (uint delay + 1 - n) mod 2 ^ 32"
proof -
  have "(unsigned delay :: clock) = word_of_int (uint delay)" by (metis delay_small(2) word_of_int_uint)
  then have eq: "start + unsigned delay + 1 - (start + word_of_int n) = word_of_int (uint delay + 1 - n)" by simp
  have "uint (start + unsigned delay + 1 - (start + word_of_int n)) = uint delay + 1 - n"
    using assms(1,2) uint_lt2p [of delay] unfolding eq uint_word_of_int by simp
  then show ?thesis by (simp add: d_def unsigned_ucast_eq take_bit_eq_mod)
qed

lemma tickwait_again_delay:
  assumes "0 \<le> n" "n \<le> uint (delay :: u32) + 1" "uint delay + 1 - n < 2 ^ 31"
  shows "tickwait_again (start + unsigned delay + 1) (- EINTR) (start + word_of_int n) = Inr (word_of_int (uint delay + 1 - n))"
proof -
  define d :: u32 where "d = unsigned (start + unsigned delay + 1 - (start + word_of_int n))"
  have u: "uint d = uint delay + 1 - n" using tickwait_delay [OF assms(1,2), of start] assms by (simp add: d_def)
  then have "\<not> sint d < 0" using assms(2,3) by (simp add: sint_uint signed_take_bit_int_eq_self)
  moreover have "d = word_of_int (uint delay + 1 - n)" by (metis u word_of_int_uint)
  ultimately show ?thesis unfolding tickwait_again_def Let_def d_def [symmetric] by simp
qed

text \<open>A longer rest counts as negative: the wait is repeated with no delay at all, and times out at once.\<close>

lemma tickwait_again_long:
  assumes "0 \<le> n" "2 ^ 31 \<le> uint (delay :: u32) + 1 - n" "uint delay + 1 - n < 2 ^ 32"
  shows "tickwait_again (start + unsigned delay + 1) (- EINTR) (start + word_of_int n) = Inr 0"
proof -
  define d :: u32 where "d = unsigned (start + unsigned delay + 1 - (start + word_of_int n))"
  have u: "uint d = uint delay + 1 - n" using tickwait_delay [OF assms(1), of delay start] assms by (simp add: d_def)
  have "(uint d + 2 ^ 31) mod 2 ^ 32 = (uint d - 2 ^ 31 + 2 ^ 32) mod 2 ^ 32" by (simp add: add.commute)
  also have "\<dots> = uint d - 2 ^ 31" unfolding mod_add_self2 using assms(2,3) u by (intro mod_pos_pos_trivial) simp_all
  finally have "sint d = uint d - 2 ^ 32" by (simp add: sint_uint signed_take_bit_eq_take_bit_shift take_bit_eq_mod)
  then have "sint d < 0" using assms(3) u by simp
  then show ?thesis unfolding tickwait_again_def Let_def d_def [symmetric] by simp
qed

end
