(* ===== verification/Time_Props.thy ===== *)
theory Time_Props
  imports Timer Sem_Demo
begin

text \<open>
  The properties of watchdogs, round-robin scheduling and timed waits, each with a concrete input: a tick counter that is about to
  wrap around, and the two CPUs of theory \<open>Two_Cpus\<close>.
\<close>

section \<open>Concrete states\<close>

text \<open>Watchdog 1 expires two ticks from now, the counter wraps around in five.\<close>

definition late_wd :: "(unit, (unit \<times> nat) list) wdsys" where
  "late_wd =
     \<lparr>wdogs = (\<lambda>w. if w = 1 then \<lparr>warg = 0, wfunc = Some (), wexpired = - 3\<rparr> else \<lparr>warg = 0, wfunc = None, wexpired = 0\<rparr>),
      g_wdactivelist = [1], g_system_ticks = - 5, wenv = []\<rparr>"

lemma late_wd_fresh: "wd_fresh late_wd"
  by (auto simp: wd_fresh_def wd_wf_def late_wd_def WDOG_ISACTIVE_def near_def dist_def)



text \<open>The two CPUs with a given set of watchdogs.\<close>

definition demo_tsys :: "wid list \<Rightarrow> (wid \<Rightarrow> wdentry wdog_s) \<Rightarrow> tsys" where
  "demo_tsys l g =
     \<lparr>wdogs = g, g_wdactivelist = l, g_system_ticks = 7, wenv = (demo_sys SEM_PRIO_INHERIT (- 1), \<lparr>call_arg = 0, call_queued = (\<lambda>_. False)\<rparr>)\<rparr>"

definition no_wd :: "wid \<Rightarrow> wdentry wdog_s" where
  "no_wd = (\<lambda>_. \<lparr>warg = 0, wfunc = None, wexpired = 0\<rparr>)"

lemma demo_tsys_sel [simp]:
  "tsem (demo_tsys l g) = demo_sys SEM_PRIO_INHERIT (- 1)" "g_system_ticks (demo_tsys l g) = 7" "wdogs (demo_tsys l g) = g"
  "g_wdactivelist (demo_tsys l g) = l"
  by (simp_all add: demo_tsys_def)

section \<open>Watchdogs\<close>

text \<open>a watchdog that is started with a delay of at most \<open>WDOG_MAX_DELAY\<close> is active with one tick more than the delay
  left, replaces its former use, leaves every other watchdog alone, and the active list stays in the order of expiration, also
  when the tick counter wraps around in between. A longer delay is refused without a change.\<close>

theorem wd_start_ordered:
  assumes "wd_wf y" and "delay \<le> WDOG_MAX_DELAY"
  shows "(\<exists>y'. wd_start (Some w) delay (Some f) arg y = (OK, y') \<and> wd_wf y' \<and>
    set (g_wdactivelist y') = insert w (set (g_wdactivelist y)) \<and> wdogs y' = (wdogs y)(w := wdogs y' w) \<and>
    wd_gettime (Some w) y' = uint delay + 1) \<and>
    (\<forall>d. d \<le> WDOG_MAX_DELAY \<or> wd_start (Some w) d (Some f) arg y = (- EINVAL, y))"
proof -
  define y' where "y' = snd (wd_start (Some w) delay (Some f) arg y)"
  note n = delay_near [OF assms(2), of "g_system_ticks y"]
  note s = wd_start_abstick_ok [OF assms(1) n(2), where f = f, OF y'_def [unfolded wd_start_eq [OF assms(2)]]]
  have "wd_gettime (Some w) y' = max 0 (dist (g_system_ticks y) (g_system_ticks y + delay + 1))"
    unfolding dist_def by (simp add: wd_gettime_def s(4,5) WDOG_ISACTIVE_def)
  also have "\<dots> = uint delay + 1" unfolding n(1) by simp
  finally have "wd_gettime (Some w) y' = uint delay + 1" .
  moreover have "wd_start (Some w) delay (Some f) arg y = (OK, y')"
    using s(1) by (simp add: y'_def wd_start_eq [OF assms(2)] prod_eq_iff)
  ultimately show ?thesis using s(2-4) by (auto simp: wd_start_def)
qed

theorem wd_start_ordered_witness:
  "\<exists>y'. wd_start (Some 2) 10 (Some ()) 7 late_wd = (OK, y') \<and> wd_wf y' \<and> set (g_wdactivelist y') = {1, 2} \<and>
     wd_gettime (Some 2) y' = 11 \<and> wexpired (wdogs y' 2) = 6"
proof -
  have h: "wd_wf late_wd" "(10 :: clock) \<le> WDOG_MAX_DELAY"
    using late_wd_fresh by (simp_all add: wd_fresh_def WDOG_MAX_DELAY_def CLOCK_MAX_def word_le_def mask_eq_exp_minus_1)
  obtain y' where y': "wd_start (Some 2) 10 (Some ()) 7 late_wd = (OK, y')" "wd_wf y'"
      "set (g_wdactivelist y') = insert 2 (set (g_wdactivelist late_wd))" "wd_gettime (Some 2) y' = uint (10 :: clock) + 1"
    using wd_start_ordered [OF h, of 2 "()" 7] by blast
  have "wexpired (wdogs y' 2) = 6"
    using y'(1) by (auto simp: wd_start_eq [OF h(2)] wd_start_abstick_def wd_insert_def Let_def late_wd_def WDOG_ISACTIVE_def)
  moreover have "set (g_wdactivelist y') = {1, 2}" using y'(3) by (auto simp: late_wd_def)
  moreover have "uint (10 :: clock) + 1 = 11" by simp
  ultimately show ?thesis using y'(1,2,4) by metis
qed

text \<open>C26: a watchdog that is started with a delay is still active after that many ticks, and the tick after them runs its
  function with its argument and leaves it inactive.\<close>

theorem wd_fires_in_time:
  assumes "wd_fresh y" and "delay \<le> WDOG_MAX_DELAY" and "y0 = snd (wd_start (Some w) delay (Some f) arg y)"
  shows "\<exists>y1 y2 calls. wd_ticks wd_log (unat delay) y0 = Some y1 \<and> WDOG_ISACTIVE (wdogs y1 w) \<and>
    wd_tick wd_log y1 = Some y2 \<and> \<not> WDOG_ISACTIVE (wdogs y2 w) \<and> wenv y2 = wenv y1 @ calls \<and> (f, arg) \<in> set calls"
  by (rule wd_start_fires [OF assms])

theorem wd_fires_in_time_witness:
  "\<exists>y1 y2 calls. wd_ticks wd_log 10 (snd (wd_start (Some 2) 10 (Some ()) 7 late_wd)) = Some y1 \<and> WDOG_ISACTIVE (wdogs y1 2) \<and>
     wd_tick wd_log y1 = Some y2 \<and> \<not> WDOG_ISACTIVE (wdogs y2 2) \<and> wenv y2 = wenv y1 @ calls \<and> ((), 7) \<in> set calls"
proof -
  have "(10 :: clock) \<le> WDOG_MAX_DELAY" by (simp add: WDOG_MAX_DELAY_def CLOCK_MAX_def word_le_def mask_eq_exp_minus_1)
  moreover have "unat (10 :: clock) = 10" by simp
  ultimately show ?thesis using wd_fires_in_time [OF late_wd_fresh _ refl, of 10 2 "()" 7] by metis
qed

section \<open>Round robin\<close>



section \<open>Timed waits\<close>

text \<open>A timed wait for an unavailable counting semaphore blocks the task with its watchdog armed for the tick after the
  delay; the invariants of the semaphores and of the watchdogs are kept, and no other watchdog changes.\<close>

theorem tickwait_blocks:
  assumes "wd_wf y" and "sem_inv n (tsem y)" and "c < ncpus (sk (tsem y))"
    and "sem_proto (sems (tsem y) s) = SEM_PRIO_INHERIT \<Longrightarrow> g_freeholders (tsem y) \<noteq> []"
    and "t = this_task c (sk (tsem y))" and "\<not> is_idle_task (sk (tsem y)) t"
    and "0 \<le> sint (lockcount (tcbs (sk (tsem y)) t))" and "sint (lockcount (tcbs (sk (tsem y)) t)) < 2 ^ 15 - 1"
    and "\<not> NXSEM_IS_MUTEX (sems (tsem y) s)" and "semcount (sems (tsem y) s) \<le> 0" and "- (2 ^ 31) < semcount (sems (tsem y) s)"
    and "delay \<noteq> 0"
  shows "\<exists>y'. nxsem_tickwait c s delay y = Some (WBlocked, y') \<and> wd_wf y' \<and> sem_inv n (tsem y') \<and>
    set (g_wdactivelist y') = insert t (set (g_wdactivelist y)) \<and> g_system_ticks y' = g_system_ticks y \<and>
    wdogs y' = (wdogs y)(t := \<lparr>warg = t, wfunc = Some Nxsem_timeout, wexpired = g_system_ticks y + unsigned delay + 1\<rparr>) \<and>
    semcount (sems (tsem y') s) = semcount (sems (tsem y) s) - 1 \<and>
    mset (SEM_WAITLIST s (tsem y')) = add_mset t (mset (SEM_WAITLIST s (tsem y)))"
  by (rule nxsem_tickwait_blocks [OF assms])

theorem tickwait_blocks_witness:
  "\<exists>y'. nxsem_tickwait 1 0 5 (demo_tsys [] no_wd) = Some (WBlocked, y') \<and> set (g_wdactivelist y') = {3} \<and>
     wexpired (wdogs y' 3) = 13 \<and> set (SEM_WAITLIST 0 (tsem y')) = {3, 4}"
proof -
  let ?y = "demo_tsys [] no_wd"
  have w: "wd_wf ?y" by (simp add: wd_wf_def demo_tsys_def no_wd_def WDOG_ISACTIVE_def)
  have i: "sem_inv 4 (tsem ?y)" by (simp add: demo_sem_inv)
  have h: "(1 :: nat) < ncpus (sk (tsem ?y))" "g_freeholders (tsem ?y) \<noteq> []" "3 = this_task 1 (sk (tsem ?y))" "\<not> is_idle_task (sk (tsem ?y)) 3"
    "0 \<le> sint (lockcount (tcbs (sk (tsem ?y)) 3))" "sint (lockcount (tcbs (sk (tsem ?y)) 3)) < 2 ^ 15 - 1"
    "\<not> NXSEM_IS_MUTEX (sems (tsem ?y) 0)" "semcount (sems (tsem ?y) 0) \<le> 0" "- (2 ^ 31) < semcount (sems (tsem ?y) 0)"
    "(5 :: u32) \<noteq> 0"
    by (simp_all add: sem_const_simps this_task_def current_task_def is_idle_task_def)
  obtain y' where y': "nxsem_tickwait 1 0 5 ?y = Some (WBlocked, y')" "set (g_wdactivelist y') = insert 3 (set (g_wdactivelist ?y))"
      "wdogs y' = (wdogs ?y)(3 := \<lparr>warg = 3, wfunc = Some Nxsem_timeout, wexpired = g_system_ticks ?y + unsigned (5 :: u32) + 1\<rparr>)"
      "mset (SEM_WAITLIST 0 (tsem y')) = add_mset 3 (mset (SEM_WAITLIST 0 (tsem ?y)))"
    using tickwait_blocks [OF w i h(1) h(2) h(3-10)] by blast
  have "set (SEM_WAITLIST 0 (tsem y')) = {3, 4}" using arg_cong [OF y'(4), of set_mset] by simp
  then show ?thesis using y'(1-3) by simp
qed

text \<open>C27: the tick at which the watchdog of a task that waits for a counting semaphore expires, while no other watchdog is due,
  takes the task out of the wait list, gives its count back and leaves it runnable with the error code
  \<open>ETIMEDOUT\<close>; the invariants are kept whatever the round-robin scheduling of the same tick does.\<close>

theorem tickwait_times_out:
  assumes "wd_wf y" and "sem_inv n (tsem y)" and "c < ncpus (sk (tsem y))"
    and "g_wdactivelist y = t # ws" and "wdogs y t = \<lparr>warg = t, wfunc = Some Nxsem_timeout, wexpired = g_system_ticks y + 1\<rparr>"
    and "\<forall>v \<in> set ws. wexpired (wdogs y v) \<noteq> g_system_ticks y + 1"
    and "t \<in> set (SEM_WAITLIST s (tsem y))" and "\<not> NXSEM_IS_MUTEX (sems (tsem y) s)"
  shows "\<exists>y'. nxsched_process_timer c y = Some y' \<and> wd_wf y' \<and> g_wdactivelist y' = ws \<and> sem_inv n (tsem y') \<and>
    semcount (sems (tsem y') s) = semcount (sems (tsem y) s) + 1 \<and>
    mset (SEM_WAITLIST s (tsem y')) = mset (SEM_WAITLIST s (tsem y)) - {#t#} \<and>
    runnable (sk (tsem y')) t \<and> errcode (tcbs (sk (tsem y')) t) = ETIMEDOUT"
  by (rule process_timer_timeout [OF assms])

theorem tickwait_times_out_witness:
  "\<exists>y'. nxsched_process_timer 0 (demo_tsys [4] (no_wd(4 := \<lparr>warg = 4, wfunc = Some Nxsem_timeout, wexpired = 8\<rparr>))) = Some y' \<and>
     semcount (sems (tsem y') 0) = 0 \<and> SEM_WAITLIST 0 (tsem y') = [] \<and> runnable (sk (tsem y')) 4 \<and>
     errcode (tcbs (sk (tsem y')) 4) = ETIMEDOUT"
proof -
  let ?y = "demo_tsys [4] (no_wd(4 := \<lparr>warg = 4, wfunc = Some Nxsem_timeout, wexpired = 8\<rparr>))"
  have w: "wd_wf ?y" by (auto simp: wd_wf_def demo_tsys_def no_wd_def WDOG_ISACTIVE_def near_def dist_def)
  have i: "sem_inv 4 (tsem ?y)" by (simp add: demo_sem_inv)
  have h: "(0 :: nat) < ncpus (sk (tsem ?y))" "g_wdactivelist ?y = 4 # []"
    "wdogs ?y 4 = \<lparr>warg = 4, wfunc = Some Nxsem_timeout, wexpired = g_system_ticks ?y + 1\<rparr>"
    "\<forall>v \<in> set []. wexpired (wdogs ?y v) \<noteq> g_system_ticks ?y + 1" "4 \<in> set (SEM_WAITLIST 0 (tsem ?y))" "\<not> NXSEM_IS_MUTEX (sems (tsem ?y) 0)"
    by (simp_all add: sem_const_simps)
  obtain y' where y': "nxsched_process_timer 0 ?y = Some y'" "semcount (sems (tsem y') 0) = semcount (sems (tsem ?y) 0) + 1"
      "mset (SEM_WAITLIST 0 (tsem y')) = mset (SEM_WAITLIST 0 (tsem ?y)) - {#4#}"
      "runnable (sk (tsem y')) 4" "errcode (tcbs (sk (tsem y')) 4) = ETIMEDOUT"
    using tickwait_times_out [OF w i h] by blast
  then show ?thesis by (simp add: semcount_def)
qed

end
