(* ===== verification/Rwsem.thy ===== *)
theory Rwsem
  imports Prelude
begin

text \<open>
  Reader-writer locks, \<open>sched/semaphore/sem_rw.c\<close>. The mutex \<open>protected\<close> makes each piece of the functions
  atomic; the semaphore \<open>waiting\<close> is the number of its posts that no wait has taken. A function that waits is
  cut where it releases the mutex: the task has counted itself as a waiter, takes a post (or is interrupted, as the
  result of \<open>nxsem_wait\<close> is ignored), and tests its condition again.

  The state machine runs the pieces of any number of tasks in any order. What a task holds is recorded beside the
  lock: the read locks as a multiset of tasks, the write locks, with the read locks that were converted to write locks, as a
  number per task. The counters are unbounded numbers.
\<close>

section \<open>The lock\<close>

definition RWSEM_NO_HOLDER :: int where "RWSEM_NO_HOLDER = - 1"

record rw_semaphore =
  posts :: nat
  holder :: int
  waiter :: int
  writer :: int
  reader :: int

definition up_wait :: "rw_semaphore \<Rightarrow> rw_semaphore" where
  "up_wait r = r\<lparr>posts := posts r + nat (waiter r)\<rparr>"

definition down_read_trylock :: "int \<Rightarrow> rw_semaphore \<Rightarrow> int \<times> rw_semaphore" where
  "down_read_trylock tid r =
     (if holder r = tid then (1, r\<lparr>writer := writer r + 1\<rparr>)
      else if writer r > 0 then (0, r)
      else (1, r\<lparr>reader := reader r + 1\<rparr>))"

text \<open>The loop of \<open>down_read\<close>: whether the lock is taken, or else the task has to wait.\<close>

definition down_read_check :: "rw_semaphore \<Rightarrow> bool \<times> rw_semaphore" where
  "down_read_check r =
     (if writer r > 0 then (False, r\<lparr>waiter := waiter r + 1\<rparr>) else (True, r\<lparr>reader := reader r + 1\<rparr>))"

definition down_read :: "int \<Rightarrow> rw_semaphore \<Rightarrow> bool \<times> rw_semaphore" where
  "down_read tid r = (if holder r = tid then (True, r\<lparr>writer := writer r + 1\<rparr>) else down_read_check r)"

definition down_read_again :: "rw_semaphore \<Rightarrow> bool \<times> rw_semaphore" where
  "down_read_again r = down_read_check (r\<lparr>waiter := waiter r - 1\<rparr>)"

definition up_read :: "int \<Rightarrow> rw_semaphore \<Rightarrow> rw_semaphore option" where
  "up_read tid r =
     (if holder r = tid then
        let r1 = r\<lparr>writer := writer r - 1\<rparr>
        in Some (if writer r1 \<le> 0 then up_wait (r1\<lparr>holder := RWSEM_NO_HOLDER\<rparr>) else r1)
      else if reader r > 0 then
        let r1 = r\<lparr>reader := reader r - 1\<rparr> in Some (if reader r1 \<le> 0 then up_wait r1 else r1)
      else None)"

definition down_write_trylock :: "int \<Rightarrow> rw_semaphore \<Rightarrow> int \<times> rw_semaphore" where
  "down_write_trylock tid r =
     (if reader r > 0 \<or> (writer r > 0 \<and> tid \<noteq> holder r) then (0, r)
      else (1, r\<lparr>writer := writer r + 1, holder := tid\<rparr>))"

definition down_write :: "int \<Rightarrow> rw_semaphore \<Rightarrow> bool \<times> rw_semaphore" where
  "down_write tid r =
     (if reader r > 0 \<or> (writer r > 0 \<and> holder r \<noteq> tid) then (False, r\<lparr>waiter := waiter r + 1\<rparr>)
      else (True, r\<lparr>writer := writer r + 1, holder := tid\<rparr>))"

definition down_write_again :: "int \<Rightarrow> rw_semaphore \<Rightarrow> bool \<times> rw_semaphore" where
  "down_write_again tid r = down_write tid (r\<lparr>waiter := waiter r - 1\<rparr>)"

definition up_write :: "int \<Rightarrow> rw_semaphore \<Rightarrow> rw_semaphore option" where
  "up_write tid r =
     (if writer r > 0 \<and> holder r = tid then
        let r1 = r\<lparr>writer := writer r - 1\<rparr>
        in Some (if writer r1 \<le> 0 then up_wait (r1\<lparr>holder := RWSEM_NO_HOLDER\<rparr>) else r1)
      else None)"

definition downgrade_write :: "int \<Rightarrow> rw_semaphore \<Rightarrow> rw_semaphore option" where
  "downgrade_write tid r =
     (if writer r = 1 \<and> reader r = 0 \<and> holder r = tid
      then Some (up_wait (r\<lparr>writer := 0, reader := reader r + 1, holder := RWSEM_NO_HOLDER\<rparr>))
      else None)"


definition destroy_rwsem :: "rw_semaphore \<Rightarrow> unit option" where
  "destroy_rwsem r =
     (if waiter r = 0 \<and> reader r = 0 \<and> writer r = 0 \<and> holder r = RWSEM_NO_HOLDER then Some () else None)"

section \<open>The tasks\<close>

datatype rwpc = RwIdle | ReadSleep | ReadWoken | WriteSleep | WriteWoken

record rwsys =
  rw :: rw_semaphore
  rpc :: "int \<Rightarrow> rwpc"
  rds :: "int multiset"
  wrs :: "int \<Rightarrow> nat"

definition set_rw :: "int \<Rightarrow> rwpc \<Rightarrow> rw_semaphore \<Rightarrow> rwsys \<Rightarrow> rwsys" where
  "set_rw t p r s = s\<lparr>rw := r, rpc := (rpc s)(t := p)\<rparr>"

definition add_rd :: "int \<Rightarrow> rwsys \<Rightarrow> rwsys" where "add_rd t s = s\<lparr>rds := add_mset t (rds s)\<rparr>"

definition add_wr :: "int \<Rightarrow> rwsys \<Rightarrow> rwsys" where "add_wr t s = s\<lparr>wrs := (wrs s)(t := wrs s t + 1)\<rparr>"

definition sub_rd :: "int \<Rightarrow> rwsys \<Rightarrow> rwsys" where "sub_rd t s = s\<lparr>rds := rds s - {#t#}\<rparr>"

definition sub_wr :: "int \<Rightarrow> rwsys \<Rightarrow> rwsys" where "sub_wr t s = s\<lparr>wrs := (wrs s)(t := wrs s t - 1)\<rparr>"




section \<open>The invariant\<close>

definition pending :: "rwsys \<Rightarrow> int set" where "pending s = {t. rpc s t \<noteq> RwIdle}"

definition asleep :: "rwsys \<Rightarrow> int set" where "asleep s = {t. rpc s t \<in> {ReadSleep, WriteSleep}}"


definition rw_waits :: "rwsys \<Rightarrow> bool" where
  "rw_waits s \<longleftrightarrow>
     finite (pending s) \<and> waiter (rw s) = int (card (pending s)) \<and>
     (writer (rw s) = 0 \<and> reader (rw s) = 0 \<longrightarrow> card (asleep s) \<le> posts (rw s))"

lemmas rw_upd_defs = set_rw_def add_rd_def add_wr_def sub_rd_def sub_wr_def

lemmas rw_op_defs =
  up_wait_def down_read_trylock_def down_read_check_def down_read_def down_read_again_def up_read_def
  down_write_trylock_def down_write_def down_write_again_def up_write_def downgrade_write_def Let_def









section \<open>Waiting\<close>

lemma rw_waits_held [simp]:
  "rw_waits (add_rd t s) = rw_waits s" "rw_waits (add_wr t s) = rw_waits s" "rw_waits (sub_rd t s) = rw_waits s"
  "rw_waits (sub_wr t s) = rw_waits s"
  by (simp_all add: rw_waits_def pending_def asleep_def rw_upd_defs)









section \<open>What the tasks observe\<close>



section \<open>A missed wakeup\<close>






section \<open>Properties\<close>





end
