(* ===== verification/Frap_Order.thy ===== *)
theory Frap_Order
  imports Frap_Inv
begin

text \<open>
  The order in which a FRAP resource is granted. \<open>waiters s r xs\<close> reads the FIFO of \<open>r\<close> off the
  list nodes. Each action leaves it alone, appends a task, or takes a task out; a task enters its
  critical section only from the front. So a task that stays queued is passed by at most as many
  tasks as were in front of it.
\<close>

section \<open>The waiting tasks of a resource\<close>

definition waiters :: "fstate \<Rightarrow> rid \<Rightarrow> tid list \<Rightarrow> bool" where
  "waiters s r xs \<longleftrightarrow> dll (nodes (kern s)) (Fifo r) (map Waiter xs)"

lemma waiters_fun: "waiters s r xs \<Longrightarrow> waiters s r ys \<Longrightarrow> xs = ys"
  using dll_unique [of "nodes (kern s)" "Fifo r" "map Waiter xs" "map Waiter ys"]
  by (simp add: waiters_def inj_map_eq_map inj_def)

lemma fifo_rep_dll:
  assumes "fifo_rep k Q" "Q r = Some xs"
  shows "dll (nodes k) (Fifo r) (map Waiter xs)"
  using wl_repD [OF fifo_repD(1) [OF assms(1)] assms(2)] .

lemma fifo_ok_waiters:
  assumes "fifo_ok (kern s) R Q" "Q r = Some xs"
  shows "waiters s r xs"
  using fifo_rep_dll [of "kern s" Q r xs] assms by (simp add: waiters_def fifo_ok_def)

lemma fifo_ok_dom: "fifo_ok k R Q \<Longrightarrow> r \<in> set R \<Longrightarrow> \<exists>xs. Q r = Some xs"
  unfolding fifo_ok_def by blast

lemma finv_waiters:
  assumes "finv s" "r \<in> set (res s)"
  obtains Q xs where "fifo_ok (kern s) (res s) Q" "Q r = Some xs" "waiters s r xs"
    "\<And>ys. waiters s r ys \<Longrightarrow> ys = xs"
proof -
  obtain Q where q: "fifo_ok (kern s) (res s) Q" using assms by (auto simp: finv_def)
  then have "r \<in> dom Q" using assms by (simp add: fifo_ok_def)
  then obtain xs where "Q r = Some xs" by blast
  with q show thesis using fifo_ok_waiters waiters_fun by (intro that [of Q xs]) blast+
qed

lemma waiters_nodes: "nodes (kern s') = nodes (kern s) \<Longrightarrow> waiters s' r xs = waiters s r xs"
  by (simp add: waiters_def)

section \<open>One action\<close>

text \<open>What an action may do to a FIFO.\<close>

inductive queue_change :: "tid list \<Rightarrow> tid list \<Rightarrow> bool" where
  same: "queue_change xs xs"
| append: "t \<notin> set xs \<Longrightarrow> queue_change xs (xs @ [t])"
| remove: "t \<in> set xs \<Longrightarrow> queue_change xs (remove1 t xs)"

inductive_cases queue_changeE: "queue_change xs ys"

definition entering :: "rid \<Rightarrow> action \<Rightarrow> fstate \<Rightarrow> fstate \<Rightarrow> bool" where
  "entering r a s s' \<longleftrightarrow>
     (case a of
        Task c \<Rightarrow> pcs s (this_task c (kern s)) \<noteq> CS r \<and> pcs s' (this_task c (kern s)) = CS r
      | _ \<Rightarrow> False)"

lemma quiet_nodes: "quiet c S k k' \<Longrightarrow> nodes k' = nodes k"
  by (simp add: quiet_def)

lemma sched_unlock_nodes: "nodes (snd (sched_unlock c k)) = nodes k"
  using quiet_nodes [OF quiet_deliver_task [where S = "{}"]]
  by (auto simp: sched_unlock_def Let_def split: option.split)

lemma sleep_nodes: "nodes (sleep c st wo k) = nodes k"
  using quiet_nodes [OF quiet_blocked(2) [where c = c and S = "{}"]] sched_eq_globals(6) [OF nxsched_remove_running_eq]
  by (simp add: sleep_def Let_def nxsched_remove_self_def)

lemmas step_nodes =
  quiet_nodes [OF frap_set_prio_quiet [where S = "{}"]] quiet_nodes [OF quiet_set_priority [where S = "{}"]]
  quiet_nodes [OF quiet_process_delivered [where S = "{}"]] quiet_nodes [OF quiet_add_readytorun [where S = "{}"]]
  quiet_nodes [OF quiet_blocked(1) [where c = 0 and S = "{}"]] sched_unlock_nodes sleep_nodes

text \<open>A piece of \<open>frap_lock\<close>/\<open>frap_unlock\<close> other than the section under the spinlock.\<close>

lemma task_step_nodes:
  assumes "task_step c s = Some s'" "\<forall>r spin. pcs s (this_task c (kern s)) \<noteq> LTry r spin"
  shows "nodes (kern s') = nodes (kern s)" "pcs s' (this_task c (kern s)) \<noteq> CS r"
  using assms
  by (auto simp: task_step_def Let_def goto_def step_nodes frap_lock_check_def frap_lock_clear_def frap_unlock_leave_def
      frap_unlock_restore_def frap_unlock_done_def sched_unlock_rr_def split: frap_pc.splits if_splits prod.splits)

lemma queue_change_refl: "waiters s r xs \<Longrightarrow> nodes (kern s') = nodes (kern s) \<Longrightarrow>
    \<exists>ys. waiters s' r ys \<and> queue_change xs ys"
  using waiters_nodes queue_change.same by blast

text \<open>The section under the spinlock, in the resource's own FIFO and in every other.\<close>

lemma try_order:
  assumes f: "finv s" and p: "pcs s t = LTry r spin" and t: "t = this_task c (kern s)"
    and e: "frap_lock_try c r t (kern s) = Some (b, k')" and w: "waiters s q xs" and q: "q \<in> set (res s)"
  obtains ys where "waiters (goto t p' k' s) q ys" "queue_change xs ys"
    "b \<Longrightarrow> q = r \<Longrightarrow> (xs = [] \<or> hd xs = t) \<and> ys = remove1 t xs"
proof -
  obtain Q zs where Q: "fifo_ok (kern s) (res s) Q" "Q r = Some zs" "frap_waiting_res (tcbs (kern s) t) = Some r"
    by (rule finv_queue [OF f, of t r]) (simp add: p)
  obtain us where us: "Q q = Some us" using fifo_ok_dom [OF Q(1) q] by blast
  then have xs: "xs = us" using fifo_ok_waiters [OF Q(1)] w waiters_fun by blast
  note mem = fifo_ok_member [OF Q(1,2,3)]
  have rep: "fifo_rep (kern s) Q" using Q by (simp add: fifo_ok_def)
  have W: "waiters (goto t p' k' s) q ys" if "fifo_rep k' Q'" "Q' q = Some ys" for Q' ys
    using fifo_rep_dll [OF that] by (simp add: waiters_def goto_def)
  show thesis
  proof (rule frap_lock_try_spec [OF rep Q(2) mem(1) t])
    fix k1 assume m: "may_enter r t zs (kern s)" "frap_lock_try c r t (kern s) = Some (True, k1)"
      and k1: "fifo_rep k1 (Q(r \<mapsto> remove1 t zs))"
    then have k': "k' = k1" "b" using e by simp_all
    show thesis
    proof (cases "q = r")
      case True
      then have "zs = xs" using us xs Q(2) by simp
      moreover have "queue_change xs (remove1 t xs)"
        by (cases "t \<in> set xs") (auto simp: remove1_idem intro: queue_change.intros)
      ultimately show thesis using True W [of "Q(r \<mapsto> remove1 t zs)" "remove1 t xs"] k1 k' m(1)
        by (intro that [of "remove1 t xs"]) (simp_all add: may_enter_def)
    next
      case False
      then show thesis using W [of "Q(r \<mapsto> remove1 t zs)" us] k1 k' us xs by (intro that [of us]) (simp_all add: queue_change.same)
    qed
  next
    fix k1 assume m: "frap_lock_try c r t (kern s) = Some (False, k1)"
      and k1: "fifo_rep k1 (if t \<in> members Q then Q else Q(r \<mapsto> zs @ [t]))"
    then have k': "k' = k1" "\<not> b" using e by simp_all
    show thesis
    proof (cases "q = r \<and> t \<notin> members Q")
      case True
      then have "zs = xs" "t \<notin> set xs" using us xs Q(2) membersI [of Q r zs t] by auto
      then show thesis using True W [of "Q(r \<mapsto> zs @ [t])" "xs @ [t]"] k1 k'
        by (intro that [of "xs @ [t]"]) (simp_all add: queue_change.append)
    next
      case False
      then have "(if t \<in> members Q then Q else Q(r \<mapsto> zs @ [t])) q = Some us" using us by auto
      then show thesis using W k1 k' xs by (intro that [of us]) (auto simp: queue_change.same)
    qed
  qed
qed

text \<open>The hook takes the preempted task out of its FIFO.\<close>

lemma cut_order:
  assumes f: "finv s" and e: "frap_on_preempt_cut dbg r t (kern s) = Some k'"
    and w: "waiters s q xs" and q: "q \<in> set (res s)" and k: "kern s' = k'"
  shows "\<exists>ys. waiters s' q ys \<and> queue_change xs ys"
proof -
  obtain Q where Q: "fifo_ok (kern s) (res s) Q" using f by (auto simp: finv_def)
  obtain us where us: "Q q = Some us" using fifo_ok_dom [OF Q q] by blast
  then have xs: "xs = us" using fifo_ok_waiters [OF Q] w waiters_fun by blast
  have rep: "fifo_rep (kern s) Q" using Q by (simp add: fifo_ok_def)
  obtain k1 where k1: "frap_queue_remove r t (kern s) = Some k1" "nodes k' = nodes k1"
    using e by (auto simp: frap_on_preempt_cut_def split: Option.bind_splits)
  show ?thesis
  proof (cases "frap_enqueued (tcbs (kern s) t)")
    case False
    then have "k1 = kern s" using k1 by (simp add: frap_queue_remove_absent)
    then show ?thesis using w k k1 by (intro queue_change_refl) simp_all
  next
    case True
    then obtain p zs where p: "Q p = Some zs" "t \<in> set zs" using rep by (auto simp: fifo_rep_def members_def)
    have rep1: "fifo_rep k1 (Q(p \<mapsto> remove1 t zs))"
      by (rule frap_queue_remove_rep [OF rep p, where s = r]) (use k1 in simp)
    have W: "waiters s' q ys" if "(Q(p \<mapsto> remove1 t zs)) q = Some ys" for ys
      using fifo_rep_dll [OF rep1 that] k k1(2) by (simp add: waiters_def)
    show ?thesis
    proof (cases "q = p")
      case True
      then have "waiters s' q (remove1 t xs)" "t \<in> set xs" using W us xs p by auto
      then show ?thesis using queue_change.remove by blast
    next
      case False
      then have "waiters s' q xs" using W us xs by simp
      then show ?thesis using queue_change.same by blast
    qed
  qed
qed

lemma init_order:
  assumes "finv s" "waiters s q xs" "q \<noteq> r"
  shows "waiters (s\<lparr>kern := snd (frap_res_init (Some r) ident g (kern s)), res := r # res s\<rparr>) q xs"
  using assms unfolding waiters_def
  by (subst dll_frame [where h = "nodes (kern s)"])
    (auto simp: frap_res_init_def Let_def list_initialize_def set_nxt_def set_prv_def)

theorem frap_step_order:
  assumes f: "finv s" and e: "frap_step dbg a s = Some s'" and w: "waiters s r xs" and r: "r \<in> set (res s)"
  obtains ys where "waiters s' r ys" "queue_change xs ys"
    "entering r a s s' \<longrightarrow> (\<exists>t. (xs = [] \<or> hd xs = t) \<and> ys = remove1 t xs)"
proof (cases a)
  case (Init q ident g)
  then have "q \<noteq> r" "s' = s\<lparr>kern := snd (frap_res_init (Some q) ident g (kern s)), res := q # res s\<rparr>"
    using e r by (auto simp: frap_step_def guarded_def Let_def split: if_splits)
  then show thesis using init_order [OF f w] Init by (intro that [of xs]) (auto simp: entering_def queue_change.same)
next
  case (Task c)
  define t where "t = this_task c (kern s)"
  have st: "task_step c s = Some s'" using e Task by (auto simp: frap_step_def guarded_def Let_def split: if_splits)
  show thesis
  proof (cases "\<exists>q spin. pcs s t = LTry q spin")
    case True
    then obtain q spin where p: "pcs s t = LTry q spin" by blast
    obtain b k' where b: "frap_lock_try c q t (kern s) = Some (b, k')"
      and s': "s' = goto t (if b then CS q else LCheck q spin) k' s"
      using st p by (auto simp: task_step_def Let_def t_def split: Option.bind_splits)
    obtain ys where "waiters s' r ys" "queue_change xs ys" "b \<Longrightarrow> r = q \<Longrightarrow> (xs = [] \<or> hd xs = t) \<and> ys = remove1 t xs"
      using try_order [OF f p t_def b w r] unfolding s' by metis
    then show thesis using Task s' by (intro that [of ys]) (auto simp: entering_def goto_def t_def split: if_splits)
  next
    case False
    then have n: "nodes (kern s') = nodes (kern s)" "pcs s' t \<noteq> CS r" using task_step_nodes [OF st] by (simp_all add: t_def)
    then show thesis using w Task waiters_nodes [OF n(1)]
      by (intro that [of xs]) (auto simp: entering_def t_def queue_change.same)
  qed
next
  case (Hook c)
  have st: "hook_step dbg c s = Some s'" using e Hook by (auto simp: frap_step_def guarded_def Let_def split: if_splits)
  have "\<exists>ys. waiters s' r ys \<and> queue_change xs ys"
  proof (cases "hk s c")
    case HIdle
    then have "nodes (kern s') = nodes (kern s)"
      using st by (auto simp: hook_step_def Let_def set_running_def split: if_splits Option.bind_splits option.splits)
    then show ?thesis by (rule queue_change_refl [OF w])
  next
    case (HCut old new q)
    then obtain k' where "frap_on_preempt_cut dbg q old (kern s) = Some k'" "kern s' = k'"
      using st by (auto simp: hook_step_def split: Option.bind_splits)
    then show ?thesis by (rule cut_order [OF f _ w r])
  next
    case (HPrio old new)
    then have "nodes (kern s') = nodes (kern s)"
      using st by (auto simp: hook_step_def Let_def set_running_def frap_on_preempt_prio_def step_nodes)
    then show ?thesis by (rule queue_change_refl [OF w])
  qed
  then show thesis using Hook that by (auto simp: entering_def)
next
  case (Lock c ro)
  then have "nodes (kern s') = nodes (kern s)"
    using e by (auto simp: frap_step_def guarded_def Let_def frap_lock_enter_def goto_def
        split: if_splits Option.bind_splits option.splits sum.splits)
  then have "waiters s' r xs" using w unfolding waiters_def by simp
  then show thesis using Lock by (intro that [of xs]) (simp_all add: entering_def queue_change.same)
next
  case (Unlock c)
  then have "nodes (kern s') = nodes (kern s)"
    using e by (auto simp: frap_step_def guarded_def Let_def frap_unlock_release_def goto_def
        split: if_splits frap_pc.splits Option.bind_splits)
  then have "waiters s' r xs" using w unfolding waiters_def by simp
  then show thesis using Unlock by (intro that [of xs]) (simp_all add: entering_def queue_change.same)
qed (use e w in \<open>auto intro!: that [of xs] simp: entering_def queue_change.same waiters_def frap_step_def guarded_def
      Let_def step_nodes wake_def frap_set_spin_prio_def sched_lock_def split: if_splits\<close>)

section \<open>Bounded bypass\<close>

text \<open>How often \<open>r\<close> is taken in a run, and that \<open>u\<close> is queued in every state of it.\<close>

primrec grants :: "bool \<Rightarrow> rid \<Rightarrow> action list \<Rightarrow> fstate \<Rightarrow> nat" where
  "grants dbg r [] s = 0"
| "grants dbg r (a # as) s =
     (case frap_step dbg a s of
        None \<Rightarrow> 0
      | Some s' \<Rightarrow> (if entering r a s s' then 1 else 0) + grants dbg r as s')"

primrec stays_queued :: "bool \<Rightarrow> tid \<Rightarrow> action list \<Rightarrow> fstate \<Rightarrow> bool" where
  "stays_queued dbg u [] s \<longleftrightarrow> frap_enqueued (tcbs (kern s) u)"
| "stays_queued dbg u (a # as) s \<longleftrightarrow>
     frap_enqueued (tcbs (kern s) u) \<and>
     (case frap_step dbg a s of None \<Rightarrow> True | Some s' \<Rightarrow> stays_queued dbg u as s')"

definition ahead :: "tid \<Rightarrow> tid list \<Rightarrow> nat" where
  "ahead u xs = length (takeWhile (\<lambda>x. x \<noteq> u) xs)"

lemma ahead_append: "u \<in> set xs \<Longrightarrow> ahead u (xs @ ys) = ahead u xs"
  by (simp add: ahead_def)

lemma ahead_remove1: "t \<noteq> u \<Longrightarrow> ahead u (remove1 t xs) \<le> ahead u xs"
  by (induction xs) (auto simp: ahead_def)

lemma ahead_remove_head: "t \<noteq> u \<Longrightarrow> xs \<noteq> [] \<Longrightarrow> hd xs = t \<Longrightarrow> Suc (ahead u (remove1 t xs)) = ahead u xs"
  by (cases xs) (auto simp: ahead_def)

lemma queue_change_ahead:
  assumes "queue_change xs ys" "u \<in> set xs" "u \<in> set ys" "distinct xs"
  shows "ahead u ys \<le> ahead u xs"
  using assms
proof (cases rule: queue_change.cases)
  case (remove t)
  then have "t \<noteq> u" using assms by auto
  then show ?thesis using remove ahead_remove1 by simp
qed (auto simp: ahead_append)

lemma waiters_distinct: "waiters s r xs \<Longrightarrow> distinct xs"
  by (simp add: waiters_def dll_def distinct_map)

text \<open>A queued task that is still queued after an action is in the same FIFO.\<close>

lemma finv_enqueued:
  assumes f: "finv s" and w: "waiters s r xs" and r: "r \<in> set (res s)"
  shows "u \<in> set xs \<longleftrightarrow> frap_enqueued (tcbs (kern s) u) \<and> frap_waiting_res (tcbs (kern s) u) = Some r"
proof -
  obtain Q zs where Q: "fifo_ok (kern s) (res s) Q" "Q r = Some zs" and "zs = xs"
    using finv_waiters [OF f r] w by metis
  then have q: "Q r = Some xs" by simp
  have "u \<in> set xs \<Longrightarrow> frap_waiting_res (tcbs (kern s) u) = Some r"
    using Q(1) q by (simp add: fifo_ok_def)
  then show ?thesis using fifo_ok_member(2) [OF Q(1) q, of u] by blast
qed

text \<open>A task that is queued before and after an action waits for the same resource.\<close>

lemma pc_res_spins: "spins p \<Longrightarrow> \<exists>r. pc_res p = Some r"
  by (cases p) auto

lemma spins_res:
  assumes "finv s" "frap_enqueued (tcbs (kern s) u)"
  shows "spins (pcs s u)" "pc_res (pcs s u) = frap_waiting_res (tcbs (kern s) u)"
proof -
  show sp: "spins (pcs s u)" using finvD(2) [OF assms(1), of u] assms(2) by (simp add: task_ok_def)
  then obtain r where "pc_res (pcs s u) = Some r" using pc_res_spins by blast
  then show "pc_res (pcs s u) = frap_waiting_res (tcbs (kern s) u)"
    using finvD(2) [OF assms(1), of u] by (simp add: task_ok_def)
qed

lemma frap_step_pc_res:
  assumes e: "frap_step dbg a s = Some s'" and sp: "spins (pcs s u)" and sp': "spins (pcs s' u)"
  shows "pc_res (pcs s' u) = pc_res (pcs s u)"
proof (cases a)
  case (Task c)
  then have st: "task_step c s = Some s'" using e by (auto simp: frap_step_def guarded_def Let_def split: if_splits)
  show ?thesis
  proof (cases "u = this_task c (kern s)")
    case True
    then show ?thesis using st sp sp'
      by (auto simp: task_step_def Let_def goto_def split: frap_pc.splits Option.bind_splits if_splits prod.splits)
  next
    case False
    then show ?thesis using st
      by (auto simp: task_step_def Let_def goto_def split: frap_pc.splits Option.bind_splits prod.splits)
  qed
next
  case (Lock c ro)
  then show ?thesis using e sp by (auto simp: frap_step_def guarded_def Let_def frap_lock_enter_def goto_def
      split: if_splits Option.bind_splits option.splits sum.splits)
next
  case (Unlock c)
  then show ?thesis using e sp sp' by (auto simp: frap_step_def guarded_def Let_def frap_unlock_release_def goto_def
      split: if_splits frap_pc.splits Option.bind_splits)
next
  case (Hook c)
  then show ?thesis using e by (auto simp: frap_step_def guarded_def Let_def hook_step_def
      split: if_splits hook_pc.splits Option.bind_splits option.splits)
qed (use e in \<open>auto simp: frap_step_def guarded_def Let_def split: if_splits\<close>)

lemma frap_step_res: "frap_step dbg a s = Some s' \<Longrightarrow> r \<in> set (res s) \<Longrightarrow> r \<in> set (res s')"
  by (cases a) (auto simp: frap_step_def guarded_def Let_def task_step_def hook_step_def goto_def
      split: if_splits Option.bind_splits option.splits sum.splits frap_pc.splits hook_pc.splits prod.splits)

theorem bounded_bypass:
  assumes "finv s" "waiters s r xs" "r \<in> set (res s)" "u \<in> set xs"
    "stays_queued dbg u as s"
  shows "grants dbg r as s \<le> ahead u xs"
  using assms
proof (induction as arbitrary: s xs)
  case (Cons a as)
  show ?case
  proof (cases "frap_step dbg a s")
    case (Some s')
    have f': "finv s'" by (rule frap_step_finv [OF Cons.prems(1) Some])
    have q: "frap_enqueued (tcbs (kern s) u)" "stays_queued dbg u as s'" using Cons.prems(5) Some by simp_all
    then have q': "frap_enqueued (tcbs (kern s') u)" by (cases as) simp_all
    have r': "r \<in> set (res s')" by (rule frap_step_res [OF Some Cons.prems(3)])
    obtain ys where ys: "waiters s' r ys" "queue_change xs ys"
      and en: "entering r a s s' \<longrightarrow> (\<exists>t. (xs = [] \<or> hd xs = t) \<and> ys = remove1 t xs)"
      by (rule frap_step_order [OF Cons.prems(1) Some Cons.prems(2,3)])
    have "frap_waiting_res (tcbs (kern s') u) = Some r"
      using spins_res [OF Cons.prems(1) q(1)] spins_res [OF f' q'] frap_step_pc_res [OF Some, of u]
        finv_enqueued [OF Cons.prems(1-3)] Cons.prems(4) by simp
    then have u: "u \<in> set ys" using finv_enqueued [OF f' ys(1) r'] q' by simp
    have IH: "grants dbg r as s' \<le> ahead u ys" by (rule Cons.IH [OF f' ys(1) r' u q(2)])
    have d: "distinct xs" by (rule waiters_distinct [OF Cons.prems(2)])
    show ?thesis
    proof (cases "entering r a s s'")
      case True
      then obtain t where t: "hd xs = t" "ys = remove1 t xs" using en Cons.prems(4) by auto
      then have "t \<noteq> u" using u d by auto
      moreover have "xs \<noteq> []" using Cons.prems(4) by auto
      ultimately have "Suc (ahead u ys) = ahead u xs" using t ahead_remove_head [of t u xs] by simp
      then show ?thesis using IH True Some by simp
    next
      case False
      then show ?thesis using IH Some queue_change_ahead [OF ys(2) Cons.prems(4) u d] by simp
    qed
  qed simp
qed simp

end
