(* ===== verification/Frap_Calls.thy ===== *)
theory Frap_Calls
  imports Frap_Inv
begin

text \<open>
  Whole calls of the FRAP operations on one CPU, without interference: what \<open>frap_lock\<close>,
  \<open>frap_unlock\<close>, their local variants and the hook do on every branch.
\<close>

section \<open>Priority changes that do not switch\<close>

text \<open>No ready task has a priority of \<open>p\<close> or more, and the task may stay on its CPU.\<close>

definition undisturbed :: "kernel \<Rightarrow> tid \<Rightarrow> u8 \<Rightarrow> bool" where
  "undisturbed k t p \<longleftrightarrow> (\<forall>u \<in> set (readytorun k). prio k u < p) \<and> CPU_ISSET (cpu (tcbs k t)) (affinity (tcbs k t))"

definition with_prio :: "tid \<Rightarrow> u8 \<Rightarrow> kernel \<Rightarrow> kernel" where
  "with_prio t p k = upd_tcb t (\<lambda>x. x\<lparr>sched_priority := p\<rparr>) k"

lemma with_prio_sel [simp]:
  "tcbs (with_prio t p k) = (tcbs k)(t := (tcbs k t)\<lparr>sched_priority := p\<rparr>)"
  "tlists (with_prio t p k) = tlists k" "nodes (with_prio t p k) = nodes k" "frap_ress (with_prio t p k) = frap_ress k"
  "ncpus (with_prio t p k) = ncpus k" "g_assignedtasks (with_prio t p k) = g_assignedtasks k"
  by (simp_all add: with_prio_def)

lemma frap_set_prio_running:
  assumes "tstate_of k t = TSTATE_TASK_RUNNING" "p \<noteq> 0" "undisturbed k t p"
  shows "frap_set_prio c t p k = (OK, False, with_prio t p k)"
proof -
  have p: "1 \<le> uint p" "uint p \<le> 255"
    using assms(2) uint_lt2p [of p] by (simp_all add: word_neq_0_conv word_less_def)
  have "nxsched_running_setpriority c t (uint p) k = (False, with_prio t p k)"
  proof (cases "readytorun k")
    case Nil
    then show ?thesis by (simp add: nxsched_running_setpriority_def tl_peek_def with_prio_def)
  next
    case (Cons u us)
    then have "\<not> uint p \<le> uint (prio k u)" using assms(3) by (simp add: undisturbed_def word_less_def)
    then show ?thesis using Cons assms(3)
      by (simp add: nxsched_running_setpriority_def tl_peek_def with_prio_def undisturbed_def)
  qed
  then show ?thesis using p assms(1)
    by (simp add: frap_set_prio_def frap_set_prio_weak_def nxsched_set_priority_def)
qed

lemma this_task_with_prio [simp]: "this_task c (with_prio t p k) = this_task c k"
  by (simp add: with_prio_def)

section \<open>frap_lock\<close>

text \<open>The state of the task after the prologue of \<open>frap_lock\<close>.\<close>

definition requested :: "rid \<Rightarrow> tid \<Rightarrow> kernel \<Rightarrow> kernel" where
  "requested r t k = upd_tcb t (\<lambda>x. x\<lparr>frap_waiting_res := Some r, frap_base_prio := sched_priority x,
     frap_cancelled := False, frap_in_cs := False\<rparr>) k"

lemma frap_lock_enter_ok:
  assumes "is_global (frap_ress k r)" "this_task c k = t" "prio k t \<le> frap_spin_prio (tcbs k t)"
    "\<not> frap_enqueued (tcbs k t)"
  shows "frap_lock_enter dbg c (Some r) k = Some (Inr (r, t, uint (frap_spin_prio (tcbs k t))), requested r t k)"
proof -
  have "(tcbs k t)\<lparr>frap_waiting_res := Some r, frap_base_prio := prio k t, frap_spin_prio := frap_spin_prio (tcbs k t),
      frap_cancelled := False, frap_in_cs := False\<rparr> =
      (tcbs k t)\<lparr>frap_waiting_res := Some r, frap_base_prio := prio k t, frap_cancelled := False, frap_in_cs := False\<rparr>"
    by (cases "tcbs k t") simp
  then show ?thesis using assms
    by (simp add: frap_lock_enter_def Let_def frap_get_spin_prio_def word_le_def DEBUGASSERT_def requested_def upd_tcb_def)
qed

text \<open>What a call has in hand when it reaches the loop, on a free resource and on a held one.\<close>

definition lock_call :: "nat \<Rightarrow> rid \<Rightarrow> tid \<Rightarrow> kernel \<Rightarrow> (rid \<rightharpoonup> tid list) \<Rightarrow> tid list \<Rightarrow> bool" where
  "lock_call c r t k Q xs \<longleftrightarrow>
     this_task c k = t \<and> tstate_of k t = TSTATE_TASK_RUNNING \<and> is_global (frap_ress k r) \<and>
     prio k t \<le> frap_spin_prio (tcbs k t) \<and> frap_spin_prio (tcbs k t) \<noteq> 0 \<and>
     undisturbed k t (frap_spin_prio (tcbs k t)) \<and> \<not> frap_enqueued (tcbs k t) \<and> fifo_rep k Q \<and> Q r = Some xs"

lemma undisturbed_cong:
  "tlists k' = tlists k \<Longrightarrow> (\<And>u. prio k' u = prio k u) \<Longrightarrow> cpu (tcbs k' t) = cpu (tcbs k t) \<Longrightarrow>
     affinity (tcbs k' t) = affinity (tcbs k t) \<Longrightarrow> undisturbed k' t p = undisturbed k t p"
  by (simp add: undisturbed_def)

lemma frap_lock_to_loop:
  assumes a: "lock_call c r t k Q xs"
  defines "k1 \<equiv> with_prio t (frap_spin_prio (tcbs k t)) (requested r t k)"
  shows "frap_lock n dbg c (Some r) k = frap_lock_loop n c r t (uint (frap_spin_prio (tcbs k t))) k1"
    "fifo_rep k1 Q" "frap_cancelled (tcbs k1 t) = False" "this_task c k1 = t" "frap_ress k1 = frap_ress k"
proof -
  have u: "undisturbed (requested r t k) t (frap_spin_prio (tcbs k t))"
    using a by (subst undisturbed_cong [where k = k]) (simp_all add: lock_call_def requested_def)
  have s: "frap_set_prio c t (frap_spin_prio (tcbs k t)) (requested r t k) = (OK, False, k1)"
    unfolding k1_def using a u by (intro frap_set_prio_running) (simp_all add: lock_call_def requested_def)
  show "frap_lock n dbg c (Some r) k = frap_lock_loop n c r t (uint (frap_spin_prio (tcbs k t))) k1"
    using a s frap_lock_enter_ok [of k r c t dbg] by (simp add: frap_lock_def lock_call_def)
  have "fifo_rep k1 Q = fifo_rep k Q" by (rule fifo_rep_cong) (simp_all add: k1_def requested_def)
  then show "fifo_rep k1 Q" using a by (simp add: lock_call_def)
  show "frap_cancelled (tcbs k1 t) = False" "this_task c k1 = t" "frap_ress k1 = frap_ress k"
    using a by (simp_all add: k1_def requested_def lock_call_def)
qed

text \<open>A free resource is taken in the first turn of the loop.\<close>

lemma frap_lock_free:
  assumes a: "lock_call c r t k Q []" and o: "owner (frap_ress k r) = None"
  obtains k' where "frap_lock (Suc n) dbg c (Some r) k = Some (Returned OK, k')"
    "taken r t (with_prio t (frap_spin_prio (tcbs k t)) (requested r t k)) k'" "fifo_rep k' Q"
proof -
  define k1 where "k1 = with_prio t (frap_spin_prio (tcbs k t)) (requested r t k)"
  note l = frap_lock_to_loop [OF a, folded k1_def]
  have q: "Q r = Some []" "\<not> frap_enqueued (tcbs k t)" using a by (simp_all add: lock_call_def)
  have m: "t \<notin> members Q" using a fifo_repD(2) [of k Q t] by (simp add: lock_call_def)
  have Q: "Q(r \<mapsto> remove1 t []) = Q" using q by auto
  show thesis
  proof (rule frap_lock_try_spec [OF l(2) q(1)])
    show "t \<in> members Q \<Longrightarrow> t \<in> set []" using m by simp
    show "t = this_task c k1" using l(4) by simp
    fix k' assume "frap_lock_try c r t k1 = Some (True, k')" "taken r t k1 k'" "fifo_rep k' (Q(r \<mapsto> remove1 t []))"
    then show thesis using that [of k'] l(1,3) unfolding Q by (simp add: frap_lock_check_def k1_def)
  next
    assume "\<not> may_enter r t [] k1"
    then show thesis using l(5) o by (simp add: may_enter_def)
  qed
qed

text \<open>A held resource is waited for at the end of its FIFO, for as long as it is held.\<close>

lemma frap_lock_loop_held:
  assumes "fifo_rep k Q" "Q r = Some xs" "t \<in> set xs" "\<not> frap_cancelled (tcbs k t)" "owner (frap_ress k r) \<noteq> None"
  shows "frap_lock_loop n c r t spin k = Some (Spinning, k)"
proof (induction n)
  case (Suc n)
  have "t \<in> members Q" using assms(2,3) by (rule membersI)
  then have "frap_enqueued (tcbs k t)" using assms(1) by (simp add: fifo_rep_def)
  then have "frap_lock_try c r t k = Some (False, k)"
    using assms(5) by (auto simp: frap_lock_try_def frap_can_enter_def frap_queue_enqueue_tail_def)
  then show ?case using Suc assms(4) by (simp add: frap_lock_check_def)
qed simp

lemma frap_lock_held:
  assumes a: "lock_call c r t k Q xs" and o: "owner (frap_ress k r) \<noteq> None"
  obtains k' where "\<And>n. frap_lock (Suc n) dbg c (Some r) k = Some (Spinning, k')" "fifo_rep k' (Q(r \<mapsto> xs @ [t]))"
    "prio k' t = frap_spin_prio (tcbs k t)" "owner (frap_ress k' r) = owner (frap_ress k r)"
proof -
  define k1 where "k1 = with_prio t (frap_spin_prio (tcbs k t)) (requested r t k)"
  note l = frap_lock_to_loop [OF a, folded k1_def]
  have q: "Q r = Some xs" using a by (simp add: lock_call_def)
  have m: "t \<notin> members Q" using a fifo_repD(2) [of k Q t] by (simp add: lock_call_def)
  obtain k' where k': "frap_lock_try c r t k1 = Some (False, k')" "fifo_eq t k1 k'" "fifo_rep k' (Q(r \<mapsto> xs @ [t]))"
  proof (rule frap_lock_try_spec [OF l(2) q])
    show "t \<in> members Q \<Longrightarrow> t \<in> set xs" using m by simp
    show "t = this_task c k1" using l(4) by simp
    assume "may_enter r t xs k1"
    then show thesis using l(5) o by (simp add: may_enter_def)
  qed (use m that in simp)
  obtain b h where e: "k' = set_enqueued t b (set_nodes h k1)" using k'(2) by (auto simp: fifo_eq_def)
  have "frap_lock_loop n c r t spin k' = Some (Spinning, k')" for n spin
    using l o by (intro frap_lock_loop_held [OF k'(3), where xs = "xs @ [t]"]) (simp_all add: e)
  then show thesis using that [of k'] k' l by (simp add: frap_lock_check_def e k1_def)
qed

section \<open>frap_unlock\<close>

text \<open>The task's part of the kernel after it released the resource it took.\<close>

lemma sched_unlock_last:
  assumes "this_task c k = t" "lockcount (tcbs k t) = 1" "\<forall>u \<in> set (readytorun k). prio k u \<le> prio k t"
  shows "sched_unlock c k = (False, upd_tcb t (\<lambda>x. x\<lparr>lockcount := 0\<rparr>) k)"
proof (cases "readytorun k")
  case Nil
  then show ?thesis using assms by (simp add: sched_unlock_def Let_def tl_peek_def)
next
  case (Cons u us)
  then show ?thesis using assms by (auto simp: sched_unlock_def Let_def tl_peek_def not_less)
qed

lemma sched_unlock_rr_self: "this_task c k = t \<Longrightarrow> sched_unlock_rr c t k = k"
  by (simp add: sched_unlock_rr_def)

definition released :: "rid \<Rightarrow> tid \<Rightarrow> kernel \<Rightarrow> kernel" where
  "released r t k =
     upd_tcb t (\<lambda>x. x\<lparr>sched_priority := frap_base_prio x, lockcount := 0, frap_in_cs := False, frap_waiting_res := None\<rparr>)
       (upd_res r (\<lambda>x. x\<lparr>owner := None\<rparr>) k)"

lemma frap_unlock_quiet:
  assumes t: "this_task c k = t" "tstate_of k t = TSTATE_TASK_RUNNING" "lockcount (tcbs k t) = 1"
    and r: "is_global (frap_ress k r)" "owner (frap_ress k r) = Some t" "frap_in_cs (tcbs k t)"
    and p: "frap_base_prio (tcbs k t) \<noteq> 0" "frap_base_prio (tcbs k t) \<le> prio k t"
      "undisturbed k t (frap_base_prio (tcbs k t))"
  shows "frap_unlock dbg c (Some r) k = Some (True, released r t k)"
proof -
  define k1 where "k1 = frap_unlock_leave t (upd_res r (\<lambda>x. x\<lparr>owner := None\<rparr>) k)"
  define k2 where "k2 = upd_tcb t (\<lambda>x. x\<lparr>lockcount := 0\<rparr>) k1"
  have u1: "sched_unlock c k1 = (False, k2)" unfolding k2_def
  proof (rule sched_unlock_last)
    show "this_task c k1 = t" "lockcount (tcbs k1 t) = 1"
      using t by (simp_all add: k1_def frap_unlock_leave_def this_task_def current_task_def)
    have "prio k u \<le> prio k t" if "u \<in> set (readytorun k)" for u
      using that p by (auto simp: undisturbed_def intro: order.trans [OF less_imp_le])
    then show "\<forall>u \<in> set (readytorun k1). prio k1 u \<le> prio k1 t" by (simp add: k1_def frap_unlock_leave_def)
  qed
  have "undisturbed k2 t (frap_base_prio (tcbs k t))"
    using p(3) by (subst undisturbed_cong [where k = k]) (simp_all add: k2_def k1_def frap_unlock_leave_def)
  then have "frap_set_prio c t (frap_base_prio (tcbs k2 t)) k2 = (OK, False, with_prio t (frap_base_prio (tcbs k t)) k2)"
    using frap_set_prio_running [of k2 t "frap_base_prio (tcbs k t)" c] t p
    by (simp add: k2_def k1_def frap_unlock_leave_def)
  moreover have "sched_unlock_rr c t k2 = k2"
    using t by (intro sched_unlock_rr_self) (simp add: k2_def k1_def frap_unlock_leave_def this_task_def current_task_def)
  moreover have "frap_unlock_done t (with_prio t (frap_base_prio (tcbs k t)) k2) = released r t k"
    by (simp add: released_def frap_unlock_done_def with_prio_def k2_def k1_def frap_unlock_leave_def upd_tcb_def upd_res_def)
      (cases "tcbs k t", simp)
  ultimately show ?thesis
    using u1 t r unfolding frap_unlock_def frap_unlock_release_def
    by (simp add: DEBUGASSERT_def frap_unlock_restore_def k1_def Let_def)
qed

section \<open>Lock and unlock\<close>

lemma frap_round_trip:
  assumes a: "lock_call c r t k Q []" and o: "owner (frap_ress k r) = None" and l: "lockcount (tcbs k t) = 0"
    and p: "prio k t \<noteq> 0" "undisturbed k t (prio k t)"
  obtains k1 k2 where "frap_lock (Suc n) dbg c (Some r) k = Some (Returned OK, k1)"
    "owner (frap_ress k1 r) = Some t" "prio k1 t = frap_spin_prio (tcbs k t)" "nxsched_islocked_tcb (tcbs k1 t)"
    "frap_unlock dbg c (Some r) k1 = Some (True, k2)" "frap_ress k2 = frap_ress k" "fifo_rep k2 Q"
    "tlists k2 = tlists k" "g_assignedtasks k2 = g_assignedtasks k"
    "tcbs k2 = (tcbs k)(t := (tcbs k t)\<lparr>frap_waiting_res := None, frap_base_prio := prio k t,
       frap_cancelled := False, frap_in_cs := False\<rparr>)"
proof -
  define k0 where "k0 = with_prio t (frap_spin_prio (tcbs k t)) (requested r t k)"
  obtain k1 where k1: "frap_lock (Suc n) dbg c (Some r) k = Some (Returned OK, k1)" "taken r t k0 k1" "fifo_rep k1 Q"
    using frap_lock_free [OF a o] unfolding k0_def by blast
  note tk = k1(2) [unfolded taken_def]
  have ne: "\<not> frap_enqueued (tcbs k t)" using a by (simp add: lock_call_def)
  have tcb: "tcbs k1 t = (tcbs k t)\<lparr>sched_priority := frap_spin_prio (tcbs k t), lockcount := 1, frap_waiting_res := Some r,
      frap_base_prio := prio k t, frap_in_cs := True, frap_enqueued := False, frap_cancelled := False\<rparr>"
    using tk l by (simp add: k0_def requested_def)
  have pr: "prio k1 u = prio k u" if "u \<noteq> t" for u using that tk by (simp add: k0_def requested_def)
  have un: "t \<notin> set (readytorun k)" using p(2) by (auto simp: undisturbed_def)
  have u: "frap_unlock dbg c (Some r) k1 = Some (True, released r t k1)"
  proof (rule frap_unlock_quiet)
    show "this_task c k1 = t" using tk a by (simp add: k0_def requested_def lock_call_def this_task_def current_task_def)
    have "undisturbed k1 t (prio k t)"
      using p(2) un pr tk tcb by (auto simp: undisturbed_def k0_def requested_def)
    then show "undisturbed k1 t (frap_base_prio (tcbs k1 t))" by (simp add: tcb)
  qed (use a p tk tcb in \<open>simp_all add: lock_call_def k0_def requested_def\<close>)
  define k2 where "k2 = released r t k1"
  show thesis
  proof (rule that [OF k1(1)])
    show "frap_unlock dbg c (Some r) k1 = Some (True, k2)" using u by (simp add: k2_def)
    show "owner (frap_ress k1 r) = Some t" using tk by (simp add: k0_def)
    show "prio k1 t = frap_spin_prio (tcbs k t)" by (simp add: tcb)
    show "nxsched_islocked_tcb (tcbs k1 t)" by (simp add: tcb nxsched_islocked_tcb_def)
    have "(frap_ress k r)\<lparr>owner := None\<rparr> = frap_ress k r" using o by (cases "frap_ress k r") simp
    then show "frap_ress k2 = frap_ress k" using tk by (simp add: k2_def released_def k0_def requested_def fun_upd_idem)
    have "fifo_rep k2 Q = fifo_rep k1 Q" by (rule fifo_rep_cong) (simp_all add: k2_def released_def)
    then show "fifo_rep k2 Q" using k1(3) by simp
    show "tlists k2 = tlists k" "g_assignedtasks k2 = g_assignedtasks k"
      using tk by (simp_all add: k2_def released_def k0_def requested_def)
    have "tcbs k2 t = (tcbs k t)\<lparr>frap_waiting_res := None, frap_base_prio := prio k t, frap_cancelled := False, frap_in_cs := False\<rparr>"
      using l ne by (simp add: k2_def released_def tcb)
    moreover have "tcbs k2 u = tcbs k u" if "u \<noteq> t" for u
      using that tk by (simp add: k2_def released_def k0_def requested_def)
    ultimately show "tcbs k2 = (tcbs k)(t := (tcbs k t)\<lparr>frap_waiting_res := None, frap_base_prio := prio k t,
       frap_cancelled := False, frap_in_cs := False\<rparr>)" by auto
  qed
qed

lemma undisturbed_mono: "undisturbed k t p \<Longrightarrow> p \<le> q \<Longrightarrow> undisturbed k t q"
  unfolding undisturbed_def by (auto intro: less_le_trans)

section \<open>Local resources\<close>

definition max_prio :: "u8 \<Rightarrow> u8 \<Rightarrow> u8" where
  "max_prio p q = (if p > q then p else q)"

lemma frap_local_lock_ok:
  assumes t: "this_task c k = t" "tstate_of k t = TSTATE_TASK_RUNNING" and r: "\<not> is_global (frap_ress k r)"
    and p: "max_prio (prio k t) ceil \<noteq> 0" "undisturbed k t (max_prio (prio k t) ceil)"
  shows "frap_local_lock c (Some r) ceil k =
    (Returned OK, upd_res r (\<lambda>x. x\<lparr>ceiling := ceil, owner := Some t\<rparr>)
       (upd_tcb t (\<lambda>x. x\<lparr>frap_saved_prio := sched_priority x, sched_priority := max_prio (sched_priority x) ceil,
          lockcount := lockcount x + 1, frap_in_cs := True\<rparr>) k))"
proof -
  define k1 where "k1 = upd_tcb t (\<lambda>x. x\<lparr>frap_saved_prio := prio k t\<rparr>) (upd_res r (\<lambda>x. x\<lparr>ceiling := ceil\<rparr>) k)"
  have "undisturbed k1 t (max_prio (prio k t) ceil)"
    using p(2) by (subst undisturbed_cong [where k = k]) (simp_all add: k1_def)
  then have s: "frap_set_prio c t (max_prio (prio k t) ceil) k1 = (OK, False, with_prio t (max_prio (prio k t) ceil) k1)"
    using p t by (intro frap_set_prio_running) (simp_all add: k1_def)
  have e: "frap_local_enter c (Some r) ceil k = (Inr (r, t, max_prio (prio k t) ceil), k1)"
    using r t by (simp add: frap_local_enter_def Let_def k1_def max_prio_def)
  have "this_task c (with_prio t (max_prio (prio k t) ceil) k1) = t"
    using t(1) by (simp add: k1_def this_task_def current_task_def)
  then have "frap_local_own c r t (with_prio t (max_prio (prio k t) ceil) k1) =
    upd_res r (\<lambda>x. x\<lparr>ceiling := ceil, owner := Some t\<rparr>)
       (upd_tcb t (\<lambda>x. x\<lparr>frap_saved_prio := sched_priority x, sched_priority := max_prio (sched_priority x) ceil,
          lockcount := lockcount x + 1, frap_in_cs := True\<rparr>) k)"
    by (intro kernel.equality)
      (simp_all add: frap_local_own_def Let_def sched_lock_def upd_res_def upd_tcb_def with_prio_def k1_def
        this_task_def current_task_def)
  then show ?thesis by (simp add: frap_local_lock_def e s)
qed

lemma frap_local_unlock_ok:
  assumes t: "this_task c k = t" "tstate_of k t = TSTATE_TASK_RUNNING" "lockcount (tcbs k t) = 1"
    and r: "\<not> is_global (frap_ress k r)" "owner (frap_ress k r) = Some t" "frap_in_cs (tcbs k t)"
    and p: "frap_saved_prio (tcbs k t) \<noteq> 0" "frap_saved_prio (tcbs k t) \<le> prio k t"
      "undisturbed k t (frap_saved_prio (tcbs k t))"
  shows "frap_local_unlock dbg c (Some r) k =
    Some (True, upd_res r (\<lambda>x. x\<lparr>owner := None\<rparr>)
      (upd_tcb t (\<lambda>x. x\<lparr>sched_priority := frap_saved_prio x, lockcount := 0, frap_in_cs := False, frap_saved_prio := 0\<rparr>) k))"
proof -
  define k1 where "k1 = upd_tcb t (\<lambda>x. x\<lparr>frap_in_cs := False\<rparr>) k"
  define k2 where "k2 = upd_tcb t (\<lambda>x. x\<lparr>lockcount := 0\<rparr>) k1"
  define k3 where "k3 = upd_res r (\<lambda>x. x\<lparr>owner := None\<rparr>) k2"
  have u1: "sched_unlock c k1 = (False, k2)" unfolding k2_def
  proof (rule sched_unlock_last)
    show "this_task c k1 = t" "lockcount (tcbs k1 t) = 1" using t by (simp_all add: k1_def)
    have "prio k u \<le> prio k t" if "u \<in> set (readytorun k)" for u
      using that p by (auto simp: undisturbed_def intro: order.trans [OF less_imp_le])
    then show "\<forall>u \<in> set (readytorun k1). prio k1 u \<le> prio k1 t" by (simp add: k1_def)
  qed
  have "undisturbed k3 t (frap_saved_prio (tcbs k t))"
    using p(3) by (subst undisturbed_cong [where k = k]) (simp_all add: k3_def k2_def k1_def)
  then have "frap_set_prio c t (frap_saved_prio (tcbs k t)) k3 = (OK, False, with_prio t (frap_saved_prio (tcbs k t)) k3)"
    using t p by (intro frap_set_prio_running) (simp_all add: k3_def k2_def k1_def)
  then have "frap_local_restore c r t k2 = (OK, False, with_prio t (frap_saved_prio (tcbs k t)) k3)"
    using p by (simp add: frap_local_restore_def Let_def k3_def k2_def k1_def)
  moreover have "sched_unlock_rr c t k2 = k2" using t by (intro sched_unlock_rr_self) (simp add: k2_def k1_def)
  moreover have "upd_tcb t (\<lambda>x. x\<lparr>frap_saved_prio := 0\<rparr>) (with_prio t (frap_saved_prio (tcbs k t)) k3) =
      upd_res r (\<lambda>x. x\<lparr>owner := None\<rparr>)
      (upd_tcb t (\<lambda>x. x\<lparr>sched_priority := frap_saved_prio x, lockcount := 0, frap_in_cs := False, frap_saved_prio := 0\<rparr>) k)"
    by (simp add: k3_def k2_def k1_def with_prio_def upd_tcb_def upd_res_def) (cases "tcbs k t", simp)
  ultimately show ?thesis
    using u1 t r unfolding frap_local_unlock_def by (simp add: DEBUGASSERT_def k1_def Let_def)
qed

section \<open>The hook\<close>

lemma frap_on_preempt_skip:
  "prio k new \<le> prio k old \<or> \<not> frap_enqueued (tcbs k old) \<Longrightarrow> frap_on_preempt dbg c old new k = Some k"
  by (simp add: frap_on_preempt_def frap_on_preempt_check_def)

text \<open>Run as a whole, the hook removes a preempted waiter from its FIFO and never faults.\<close>

lemma frap_on_preempt_cancel:
  assumes f: "fifo_rep k Q" and q: "Q r = Some xs" and o: "old \<in> set xs"
    and w: "frap_waiting_res (tcbs k old) = Some r" "\<not> frap_in_cs (tcbs k old)" and p: "prio k old < prio k new"
  obtains k1 where "fifo_eq old k k1" "fifo_rep k1 (Q(r \<mapsto> remove1 old xs))" "\<not> frap_enqueued (tcbs k1 old)"
    "frap_on_preempt dbg c old new k = Some (frap_on_preempt_prio c old
       (upd_tcb old (\<lambda>x. x\<lparr>frap_cancelled := True, frap_queue_preempt_cnt := frap_queue_preempt_cnt x + 1\<rparr>) k1))"
proof -
  have e: "frap_enqueued (tcbs k old)" using f membersI [of Q r xs old] q o by (simp add: fifo_rep_def)
  obtain k1 where k1: "frap_queue_remove r old k = Some k1" "fifo_eq old k k1" "fifo_rep k1 (Q(r \<mapsto> remove1 old xs))"
    "\<not> frap_enqueued (tcbs k1 old)"
    by (rule frap_queue_remove_rep [OF f q o])
  have "frap_on_preempt_check dbg old new k = Some (Some r)"
    using e w p by (simp add: frap_on_preempt_check_def DEBUGASSERT_def)
  moreover have "frap_on_preempt_cut dbg r old k =
      Some (upd_tcb old (\<lambda>x. x\<lparr>frap_cancelled := True, frap_queue_preempt_cnt := frap_queue_preempt_cnt x + 1\<rparr>) k1)"
    using e k1(1) by (simp add: frap_on_preempt_cut_def DEBUGASSERT_def)
  ultimately show thesis using k1 by (intro that [of k1]) (simp_all add: frap_on_preempt_def)
qed

lemma frap_on_preempt_waiter:
  assumes "fifo_rep k Q" and "Q r = Some xs" and "old \<in> set xs" and "frap_waiting_res (tcbs k old) = Some r"
    and "\<not> frap_in_cs (tcbs k old)" and "prio k old < prio k new" and "frap_base_prio (tcbs k old) \<noteq> 0"
  obtains k' where "frap_on_preempt dbg c old new k = Some k'" "fifo_rep k' (Q(r \<mapsto> remove1 old xs))"
    "\<not> frap_enqueued (tcbs k' old)" "frap_cancelled (tcbs k' old)"
    "frap_queue_preempt_cnt (tcbs k' old) = frap_queue_preempt_cnt (tcbs k old) + 1"
    "prio k' old = frap_base_prio (tcbs k old)" "\<forall>u. u \<noteq> old \<longrightarrow> prio k' u = prio k u" "frap_ress k' = frap_ress k"
proof -
  let ?f = "\<lambda>x. x\<lparr>frap_cancelled := True, frap_queue_preempt_cnt := frap_queue_preempt_cnt x + 1\<rparr>"
  obtain k1 where k1: "fifo_eq old k k1" "fifo_rep k1 (Q(r \<mapsto> remove1 old xs))" "\<not> frap_enqueued (tcbs k1 old)"
    "frap_on_preempt dbg c old new k = Some (frap_on_preempt_prio c old (upd_tcb old ?f k1))"
    by (rule frap_on_preempt_cancel [OF assms(1-6)])
  obtain b where b: "tcbs k1 = (tcbs k)(old := (tcbs k old)\<lparr>frap_enqueued := b\<rparr>)" using fifo_eq_sel(8) [OF k1(1)] by blast
  have nb: "\<not> b" using k1(3) b by simp
  define k2 where "k2 = upd_tcb old ?f k1"
  define k' where "k' = frap_on_preempt_prio c old k2"
  have q: "quiet c {} k2 k'" unfolding k'_def frap_on_preempt_prio_def by (rule frap_set_prio_quiet)
  have p: "prio k' u = (if u = old then frap_base_prio (tcbs k old) else prio k u)" for u
    using assms(7) b by (simp add: k'_def frap_on_preempt_prio_def k2_def frap_set_prio_prio)
  have f: "fifo_rep k' (Q(r \<mapsto> remove1 old xs)) = fifo_rep k1 (Q(r \<mapsto> remove1 old xs))"
    by (rule fifo_rep_cong) (simp_all add: quietD [OF q] k2_def)
  show thesis
    by (rule that [of k']) (simp_all add: k1 f p quietD [OF q] k2_def [symmetric] k'_def [symmetric], simp_all add: k2_def b nb k1 fifo_eq_sel(1) [OF k1(1)])
qed

end
