(* ===== verification/Frap_Progress.thy ===== *)
theory Frap_Progress
  imports Frap_Inv
begin

text \<open>
  No action of the machine takes the CPU from a task in its critical section, and no piece of
  \<open>frap_lock\<close> or \<open>frap_unlock\<close> faults in a state that satisfies the invariant.
\<close>

section \<open>Who an action concerns\<close>

lemma try_others:
  assumes f: "finv s" and p: "pcs s t = LTry r spin" and t: "t = this_task c (kern s)"
  obtains b k' where "frap_lock_try c r t (kern s) = Some (b, k')" "others t (kern s) k'"
proof -
  obtain Q zs where Q: "fifo_ok (kern s) (res s) Q" "Q r = Some zs" "frap_waiting_res (tcbs (kern s) t) = Some r"
    by (rule finv_queue [OF f, of t r]) (simp add: p)
  have rep: "fifo_rep (kern s) Q" using Q by (simp add: fifo_ok_def)
  show thesis
    by (rule frap_lock_try_spec [OF rep Q(2) fifo_ok_member(1) [OF Q] t])
      (blast intro: that taken_others others_fifo)+
qed

lemma task_step_others:
  assumes f: "finv s" and c: "cpu_free c s" and e: "task_step c s = Some s'"
  shows "others (this_task c (kern s)) (kern s) (kern s')"
proof -
  define t where "t = this_task c (kern s)"
  have c': "c < ncpus (kern s)" using c by (simp add: cpu_free_def)
  note e' = e [unfolded task_step_def Let_def, folded t_def]
  have q: "others t (kern s) (snd (snd (frap_set_prio c t p (kern s))))" for p
    by (rule others_quiet [OF frap_set_prio_quiet [where S = "{}"]]) simp
  have "others t (kern s) (kern s')"
  proof (cases "pcs s t")
    case (LTry r spin)
    obtain b k' where "frap_lock_try c r t (kern s) = Some (b, k')" "others t (kern s) k'"
      by (rule try_others [OF f LTry t_def])
    then show ?thesis using e' LTry by (auto simp: goto_def)
  next
    case (UUnlock r)
    then show ?thesis using e' sched_unlock_tcb(1) [OF finvD(1) [OF f] c'] by (auto simp: goto_def t_def)
  qed (use e' q in \<open>auto simp: goto_def frap_lock_check_def frap_lock_clear_def frap_unlock_leave_def frap_unlock_restore_def
        frap_unlock_done_def sched_unlock_rr_def others_refl intro!: others_tcb split: if_splits\<close>)
  then show ?thesis by (simp add: t_def)
qed

lemma others_keep:
  "others t k k' \<Longrightarrow> u \<noteq> t \<Longrightarrow> d < ncpus k \<Longrightarrow> g_assignedtasks k d = u \<Longrightarrow> nxsched_islocked_tcb (tcbs k u) \<Longrightarrow>
     g_assignedtasks k' d = u"
  by (simp add: others_def)

lemma hook_step_assigned:
  assumes e: "hook_step dbg c s = Some s'" and l: "nxsched_islocked_tcb (tcbs (kern s) (g_assignedtasks (kern s) d))"
  shows "g_assignedtasks (kern s') d = g_assignedtasks (kern s) d"
proof (cases "hk s c")
  case HIdle
  then show ?thesis using e by (auto simp: hook_step_def Let_def set_running_def split: if_splits Option.bind_splits option.splits)
next
  case (HCut old new r)
  obtain k1 where k1: "frap_on_preempt_cut dbg r old (kern s) = Some k1" "kern s' = k1"
    using e HCut by (auto simp: hook_step_def split: Option.bind_splits)
  have "g_assignedtasks k1 d = g_assignedtasks (kern s) d"
    using k1(1) by (auto simp: frap_on_preempt_cut_def frap_queue_remove_def split: if_splits Option.bind_splits)
  then show ?thesis by (simp add: k1)
next
  case (HPrio old new)
  have "quiet c {} (kern s) (frap_on_preempt_prio c old (kern s))"
    unfolding frap_on_preempt_prio_def by (rule frap_set_prio_quiet)
  from quietD(17) [OF this l] show ?thesis using e HPrio by (auto simp: hook_step_def Let_def set_running_def)
qed

theorem section_keeps_cpu:
  assumes f: "finv s" and e: "frap_step dbg a s = Some s'" and p: "pcs s t = CS r" "pcs s' t = CS r"
    and d: "d < ncpus (kern s)" "g_assignedtasks (kern s) d = t"
  shows "g_assignedtasks (kern s') d = t"
proof -
  have l: "nxsched_islocked_tcb (tcbs (kern s) t)"
    using task_ok_holding [OF finvD(2) [OF f, of t]] p(1) by (simp add: islocked_one)
  have keep: "g_assignedtasks k' d = t" if "quiet c S (kern s) k'" "t \<notin> S" for c S k'
    using quietD(17) [OF that(1), of d] l d that(2) by simp
  show ?thesis
  proof (cases a)
    case (Task c)
    then have st: "cpu_free c s" "task_step c s = Some s'" using e by (auto simp: frap_step_def guarded_def Let_def split: if_splits)
    have "this_task c (kern s) \<noteq> t" using st p by (auto simp: task_step_def Let_def)
    then show ?thesis using others_keep [OF task_step_others [OF f st] _ d l] by simp
  next
    case (Hook c)
    then have "hook_step dbg c s = Some s'" using e by (auto simp: frap_step_def guarded_def Let_def split: if_splits)
    then show ?thesis using hook_step_assigned l d by blast
  next
    case (SUnlock c)
    then have c: "c < ncpus (kern s)" "pcs s (this_task c (kern s)) = Out" "kern s' = snd (sched_unlock c (kern s))"
      using e by (auto simp: frap_step_def guarded_def cpu_free_def Let_def split: if_splits)
    then have "this_task c (kern s) \<noteq> t" using p by auto
    then show ?thesis using others_keep [OF sched_unlock_tcb(1) [OF finvD(1) [OF f] c(1)] _ d l] c by simp
  next
    case (Sleep c st wo)
    then obtain l where l: "c < ncpus (kern s)" "pcs s (this_task c (kern s)) = Out" "\<not> is_idle_task (kern s) (this_task c (kern s))"
      "tlist_blocked ((tcbs (kern s) (this_task c (kern s)))\<lparr>waitobj := wo, task_state := st\<rparr>) = Some l"
      "kern s' = sleep c st wo (kern s)"
      using e by (auto simp: frap_step_def guarded_def cpu_free_def Let_def split: if_splits option.splits)
    have "t \<noteq> this_task c (kern s)" using p l by auto
    then show ?thesis using keep [OF sleep_wf(2) [OF finvD(1) [OF f] l(1,3,4)]] l(5) by simp
  next
    case (Delivered c)
    then show ?thesis using e keep [OF quiet_process_delivered [where S = "{}"]]
      by (auto simp: frap_step_def guarded_def Let_def split: if_splits)
  next
    case (SetPrio c u q)
    then show ?thesis using e keep [OF quiet_set_priority [where S = "{}"]]
      by (auto simp: frap_step_def guarded_def Let_def split: if_splits)
  next
    case (Wake c u)
    have "quiet c {} (kern s) (wake c u (kern s))"
      unfolding wake_def by (rule quiet_trans [OF quiet_blocked(1) quiet_add_readytorun])
    then show ?thesis using e Wake keep by (auto simp: frap_step_def guarded_def Let_def split: if_splits)
  next
    case (Lock c ro)
    then show ?thesis using e d by (auto simp: frap_step_def guarded_def Let_def frap_lock_enter_def goto_def
        split: if_splits Option.bind_splits option.splits sum.splits)
  next
    case (Unlock c)
    then show ?thesis using e d by (auto simp: frap_step_def guarded_def Let_def frap_unlock_release_def goto_def
        split: if_splits frap_pc.splits Option.bind_splits)
  qed (use e d in \<open>auto simp: frap_step_def guarded_def Let_def frap_res_init_def frap_set_spin_prio_def sched_lock_def
        split: if_splits\<close>)
qed

section \<open>No piece faults\<close>

theorem task_progress:
  assumes f: "finv s" and c: "cpu_free c s" and p: "pcs s (this_task c (kern s)) \<noteq> Out" "\<forall>r. pcs s (this_task c (kern s)) \<noteq> CS r"
  obtains s' where "frap_step dbg (Task c) s = Some s'"
proof -
  define t where "t = this_task c (kern s)"
  have "\<exists>s'. task_step c s = Some s'"
  proof (cases "pcs s t")
    case (LTry r spin)
    obtain b k' where "frap_lock_try c r t (kern s) = Some (b, k')" "others t (kern s) k'"
      by (rule try_others [OF f LTry t_def])
    then show ?thesis using LTry by (simp add: task_step_def Let_def t_def)
  qed (use p in \<open>auto simp: task_step_def Let_def t_def split: prod.split\<close>)
  then show thesis using c that by (auto simp: frap_step_def guarded_def)
qed

theorem unlock_progress:
  assumes f: "finv s" and c: "cpu_free c s" and p: "pcs s (this_task c (kern s)) = CS r"
  obtains s' where "frap_step dbg (Unlock c) s = Some s'"
proof -
  have "task_ok (kern s) (res s) (this_task c (kern s)) (CS r)" using finvD(2) [OF f, of "this_task c (kern s)"] p by simp
  moreover from this have "owner (frap_ress (kern s) r) = Some (this_task c (kern s))"
    using finvD(3) [OF f] p by (simp add: owner_ok_def task_ok_def)
  ultimately have "\<exists>k'. frap_unlock_release dbg c (Some r) (kern s) = Some (r, this_task c (kern s), k')"
    by (simp add: frap_unlock_release_def Let_def DEBUGASSERT_def task_ok_def)
  then show thesis using c p that by (auto simp: frap_step_def guarded_def Let_def)
qed

text \<open>The hook, run without interruption from the other CPUs.\<close>

theorem hook_no_fault:
  assumes f: "finv s"
  obtains k' where "frap_on_preempt dbg c old new (kern s) = Some k'"
proof (cases "prio (kern s) new \<le> prio (kern s) old \<or> \<not> frap_enqueued (tcbs (kern s) old)")
  case True
  then show thesis by (intro that [of "kern s"]) (simp add: frap_on_preempt_def frap_on_preempt_check_def)
next
  case False
  obtain Q where Q: "fifo_ok (kern s) (res s) Q" using f by (auto simp: finv_def)
  then obtain r xs where r: "Q r = Some xs" "old \<in> set xs"
    using False by (auto simp: fifo_ok_def fifo_rep_def members_def)
  then have w: "frap_waiting_res (tcbs (kern s) old) = Some r" using Q by (simp add: fifo_ok_def)
  have "spins (pcs s old)" using finvD(2) [OF f, of old] False by (simp add: task_ok_def)
  then have "\<not> in_section (pcs s old)" by (cases "pcs s old") simp_all
  then have i: "\<not> frap_in_cs (tcbs (kern s) old)" using finvD(2) [OF f, of old] by (simp add: task_ok_def)
  have rep: "fifo_rep (kern s) Q" using Q by (simp add: fifo_ok_def)
  obtain k1 where "frap_queue_remove r old (kern s) = Some k1" by (rule frap_queue_remove_rep [OF rep r])
  then show thesis using False w i
    by (intro that) (simp add: frap_on_preempt_def frap_on_preempt_check_def frap_on_preempt_cut_def DEBUGASSERT_def)
qed

end
