(* ===== verification/Circbuf.thy ===== *)
theory Circbuf
  imports Prelude
begin

text \<open>
  The circular byte buffer of \<open>libs/libc/misc/lib_circbuf.c\<close>. The positions \<open>head\<close> and \<open>tail\<close> are 64-bit
  counters (\<open>size_t\<close>) that run freely and are reduced modulo the size on each access. The memory at \<open>base\<close> is the list of its
  bytes, NULL the empty list; a copy out of bounds is the value \<open>None\<close>. Whether \<open>lib_malloc\<close> succeeds is an argument; the contents
  of new memory is an argument too.

  \<open>contents\<close> reads the bytes of the buffer in their order; each operation is refined to an operation on that list. The counters may wrap
  around if the size divides \<open>2 ^ 64\<close>.
\<close>

section \<open>Operations\<close>

type_synonym byte = "8 word"

record circbuf_s =
  base :: "byte list"
  csize :: u64
  chead :: u64
  ctail :: u64
  external :: bool

text \<open>Copying \<open>n\<close> bytes from and to an offset of the memory.\<close>

definition mem_get :: "byte list \<Rightarrow> u64 \<Rightarrow> u64 \<Rightarrow> byte list option" where
  "mem_get m off n =
     (if unat off + unat n \<le> length m then Some (take (unat n) (drop (unat off) m)) else None)"

definition mem_put :: "byte list \<Rightarrow> u64 \<Rightarrow> byte list \<Rightarrow> byte list option" where
  "mem_put m off xs =
     (if unat off + length xs \<le> length m then Some (take (unat off) m @ xs @ drop (unat off + length xs) m) else None)"

definition circbuf_init :: "byte list option \<Rightarrow> u64 \<Rightarrow> byte list option \<Rightarrow> circbuf_s \<Rightarrow> int \<times> circbuf_s" where
  "circbuf_init mem bytes fresh circ =
     (let c1 = circ\<lparr>external := mem \<noteq> None\<rparr>;
          set = (\<lambda>b. (0, c1\<lparr>base := b, csize := bytes, chead := 0, ctail := 0\<rparr>))
      in case mem of
           Some b \<Rightarrow> set b
         | None \<Rightarrow>
             if bytes \<noteq> 0 then (case fresh of None \<Rightarrow> (- ENOMEM, c1) | Some b \<Rightarrow> set b)
             else set [])"

definition circbuf_size :: "circbuf_s \<Rightarrow> u64" where "circbuf_size circ = csize circ"

definition circbuf_used :: "circbuf_s \<Rightarrow> u64" where "circbuf_used circ = chead circ - ctail circ"

definition circbuf_space :: "circbuf_s \<Rightarrow> u64" where "circbuf_space circ = circbuf_size circ - circbuf_used circ"

definition circbuf_reset :: "circbuf_s \<Rightarrow> circbuf_s" where "circbuf_reset circ = circ\<lparr>chead := 0, ctail := 0\<rparr>"

definition circbuf_uninit :: "circbuf_s \<Rightarrow> circbuf_s" where
  "circbuf_uninit circ = \<lparr>base = [], csize = 0, chead = 0, ctail = 0, external = False\<rparr>"

definition circbuf_is_init :: "circbuf_s \<Rightarrow> bool" where "circbuf_is_init circ \<longleftrightarrow> base circ \<noteq> []"

definition circbuf_is_empty :: "circbuf_s \<Rightarrow> bool" where "circbuf_is_empty circ \<longleftrightarrow> circbuf_used circ = 0"

definition circbuf_is_full :: "circbuf_s \<Rightarrow> bool" where "circbuf_is_full circ \<longleftrightarrow> circbuf_space circ = 0"

text \<open>The bytes that are copied to \<open>dst\<close>; the result of the function is their number.\<close>

definition circbuf_peekat :: "circbuf_s \<Rightarrow> u64 \<Rightarrow> u64 \<Rightarrow> byte list option" where
  "circbuf_peekat circ pos bytes =
     (if csize circ = 0 then Some []
      else do {
        let pos = (if chead circ - pos > chead circ - ctail circ then ctail circ else pos);
        let len = chead circ - pos;
        let off = pos mod csize circ;
        let bytes = (if bytes > len then len else bytes);
        let len = (if bytes < csize circ - off then bytes else csize circ - off);
        xs \<leftarrow> mem_get (base circ) off len;
        ys \<leftarrow> mem_get (base circ) 0 (bytes - len);
        Some (xs @ ys)
      })"

definition circbuf_peek :: "circbuf_s \<Rightarrow> u64 \<Rightarrow> byte list option" where
  "circbuf_peek circ bytes = circbuf_peekat circ (ctail circ) bytes"

definition circbuf_read :: "circbuf_s \<Rightarrow> u64 \<Rightarrow> (byte list \<times> circbuf_s) option" where
  "circbuf_read circ bytes = do {
     xs \<leftarrow> circbuf_peek circ bytes;
     Some (xs, circ\<lparr>ctail := ctail circ + of_nat (length xs)\<rparr>)
   }"

definition circbuf_skip :: "circbuf_s \<Rightarrow> u64 \<Rightarrow> u64 \<times> circbuf_s" where
  "circbuf_skip circ bytes =
     (let bytes = (if bytes > circbuf_used circ then circbuf_used circ else bytes)
      in (bytes, circ\<lparr>ctail := ctail circ + bytes\<rparr>))"

text \<open>Both writing functions copy \<open>bytes\<close> bytes of \<open>src\<close> to the position \<open>head\<close> in at most two pieces.\<close>

definition circbuf_copy :: "circbuf_s \<Rightarrow> byte list \<Rightarrow> u64 \<Rightarrow> circbuf_s option" where
  "circbuf_copy circ src bytes = do {
     let off = chead circ mod csize circ;
     let space = (if bytes < csize circ - off then bytes else csize circ - off);
     xs \<leftarrow> mem_get src 0 space;
     m1 \<leftarrow> mem_put (base circ) off xs;
     ys \<leftarrow> mem_get src space (bytes - space);
     m2 \<leftarrow> mem_put m1 0 ys;
     Some (circ\<lparr>base := m2, chead := chead circ + bytes\<rparr>)
   }"

definition circbuf_write :: "circbuf_s \<Rightarrow> byte list \<Rightarrow> u64 \<Rightarrow> (u64 \<times> circbuf_s) option" where
  "circbuf_write circ src bytes =
     (if csize circ = 0 then Some (0, circ)
      else do {
        let bytes = (if bytes > circbuf_space circ then circbuf_space circ else bytes);
        c \<leftarrow> circbuf_copy circ src bytes;
        Some (bytes, c)
      })"

definition circbuf_overwrite :: "circbuf_s \<Rightarrow> byte list \<Rightarrow> u64 \<Rightarrow> (u64 \<times> circbuf_s) option" where
  "circbuf_overwrite circ src bytes =
     (if csize circ = 0 then Some (0, circ)
      else do {
        let skip = (if bytes > csize circ then bytes - csize circ else 0);
        let src = drop (unat skip) src;
        let bytes = (if bytes > csize circ then csize circ else bytes);
        let overwrite = (if bytes > circbuf_space circ then bytes - circbuf_space circ + skip else 0);
        c \<leftarrow> circbuf_copy (circ\<lparr>chead := chead circ + skip\<rparr>) src bytes;
        Some (overwrite, c\<lparr>ctail := ctail c + overwrite\<rparr>)
      })"

definition circbuf_resize :: "u64 \<Rightarrow> byte list option \<Rightarrow> circbuf_s \<Rightarrow> (int \<times> circbuf_s) option" where
  "circbuf_resize bytes fresh circ =
     (if bytes = csize circ then Some (0, circ)
      else if bytes \<noteq> 0 then
        (case fresh of
           None \<Rightarrow> Some (- ENOMEM, circ)
         | Some tmp \<Rightarrow> do {
             let used = circbuf_used circ;
             let (len, c1) = (if bytes < used then (bytes, snd (circbuf_skip circ (used - bytes))) else (used, circ));
             (xs, c2) \<leftarrow> circbuf_read c1 len;
             m \<leftarrow> mem_put tmp 0 xs;
             Some (0, c2\<lparr>base := m, csize := bytes, chead := len, ctail := 0\<rparr>)
           })
      else Some (0, circ\<lparr>base := [], csize := 0, chead := 0, ctail := 0\<rparr>))"

text \<open>
  Direct access: the offset of the next byte and the number of bytes there without a wrap. Neither function tests for a size of zero
  before it divides.
\<close>

definition circbuf_get_writeptr :: "circbuf_s \<Rightarrow> (u64 \<times> u64) option" where
  "circbuf_get_writeptr circ =
     (if csize circ = 0 then None
      else let size = circbuf_space circ; off = chead circ mod csize circ
           in Some (off, if off + size > csize circ then csize circ - off else size))"

definition circbuf_get_readptr :: "circbuf_s \<Rightarrow> (u64 \<times> u64) option" where
  "circbuf_get_readptr circ =
     (if csize circ = 0 then None
      else let size = circbuf_used circ; off = ctail circ mod csize circ
           in Some (off, if off + size > csize circ then csize circ - off else size))"

definition circbuf_writecommit :: "u64 \<Rightarrow> circbuf_s \<Rightarrow> circbuf_s" where
  "circbuf_writecommit n circ = circ\<lparr>chead := chead circ + n\<rparr>"

definition circbuf_readcommit :: "u64 \<Rightarrow> circbuf_s \<Rightarrow> circbuf_s" where
  "circbuf_readcommit n circ = circ\<lparr>ctail := ctail circ + n\<rparr>"


section \<open>Bytes on a ring\<close>

definition ring :: "byte list \<Rightarrow> nat \<Rightarrow> nat \<Rightarrow> nat \<Rightarrow> byte list" where
  "ring m s p n = map (\<lambda>i. m ! ((p + i) mod s)) [0..<n]"

lemma length_ring [simp]: "length (ring m s p n) = n"
  by (simp add: ring_def)

lemma nth_ring [simp]: "i < n \<Longrightarrow> ring m s p n ! i = m ! ((p + i) mod s)"
  by (simp add: ring_def)

lemma ring_0 [simp]: "ring m s p 0 = []"
  by (simp add: ring_def)

lemma ring_mod [simp]: "ring m s (p mod s) n = ring m s p n"
  by (simp add: ring_def mod_add_left_eq)


lemma take_ring: "take k (ring m s p n) = ring m s p (min k n)"
  by (rule nth_equalityI) auto

lemma drop_ring: "drop k (ring m s p n) = ring m s (p + k) (n - k)"
  by (rule nth_equalityI) (auto simp: add.assoc)


lemma mod_once: "(p::nat) < s \<Longrightarrow> i \<le> s \<Longrightarrow> (p + i) mod s = (if p + i < s then p + i else p + i - s)"
  by (auto simp: le_mod_geq)

text \<open>The two pieces of a copy out of the ring and of a copy into it.\<close>

lemma ring_pieces:
  assumes "p < s" "n \<le> s" "s \<le> length m"
  shows "take (min n (s - p)) (drop p m) @ take (n - min n (s - p)) m = ring m s p n"
proof (rule nth_equalityI)
  show l: "length (take (min n (s - p)) (drop p m) @ take (n - min n (s - p)) m) = length (ring m s p n)"
    using assms by auto
  fix i assume "i < length (take (min n (s - p)) (drop p m) @ take (n - min n (s - p)) m)"
  then have "i < n" using l by simp
  have len: "length (take (min n (s - p)) (drop p m)) = min n (s - p)" using assms by auto
  show "(take (min n (s - p)) (drop p m) @ take (n - min n (s - p)) m) ! i = ring m s p n ! i"
  proof (cases "p + i < s")
    case True
    then have "i < s - p" by simp
    then show ?thesis using assms \<open>i < n\<close> by (simp add: nth_append len mod_once)
  next
    case False
    then have "min n (s - p) = s - p" "i - (s - p) = p + i - s" "\<not> i < s - p" using assms \<open>i < n\<close> by auto
    then show ?thesis using assms False \<open>i < n\<close> by (simp add: nth_append len mod_once)
  qed
qed









section \<open>Invariant and contents\<close>

text \<open>The counters stay below \<open>2 ^ 64\<close> up to \<open>n\<close> bytes beyond a position, or the size divides \<open>2 ^ 64\<close>.\<close>

definition fits :: "nat \<Rightarrow> u64 \<Rightarrow> nat \<Rightarrow> bool" where
  "fits s p n \<longleftrightarrow> s dvd 2 ^ 64 \<or> unat p + n < 2 ^ 64"

definition cb_room :: "circbuf_s \<Rightarrow> nat \<Rightarrow> bool" where
  "cb_room c n \<longleftrightarrow> fits (unat (csize c)) (ctail c) (unat (circbuf_used c) + n)"

definition cb_wf :: "circbuf_s \<Rightarrow> bool" where
  "cb_wf c \<longleftrightarrow> unat (csize c) \<le> length (base c) \<and> circbuf_used c \<le> csize c \<and> cb_room c 0"

definition contents :: "circbuf_s \<Rightarrow> byte list" where
  "contents c = ring (base c) (unat (csize c)) (unat (ctail c)) (unat (circbuf_used c))"

lemma unat_below: "unat (w::u64) < 2 ^ 64"
proof -
  have "int (unat w) < int (2 ^ 64)" using uint_lt2p [of w] by simp
  then show ?thesis by (simp only: of_nat_less_iff)
qed

lemma fits_add:
  assumes "fits s a (unat b)"
  shows "unat (a + b) mod s = (unat a + unat b) mod s"
proof -
  have "unat (a + b) = (unat a + unat b) mod 2 ^ 64" by (simp add: unat_word_ariths)
  then show ?thesis using assms by (auto simp: fits_def mod_mod_cancel)
qed

lemma fits_mono: "fits s a n \<Longrightarrow> m \<le> n \<Longrightarrow> fits s a m"
  by (auto simp: fits_def)

text \<open>Moving the start of the window keeps it in range.\<close>

lemma fits_shift:
  assumes "fits s a n" "unat b \<le> n"
  shows "fits s (a + b) (n - unat b)"
proof (cases "s dvd 2 ^ 64")
  case False
  then have *: "unat a + n < 2 ^ 64" using assms(1) by (simp add: fits_def)
  then have "unat (a + b) = unat a + unat b" using assms(2) by (simp add: unat_word_ariths)
  then show ?thesis using * assms(2) by (simp add: fits_def)
qed (simp add: fits_def)

lemma length_contents [simp]: "length (contents c) = unat (circbuf_used c)"
  by (simp add: contents_def)

lemma cb_wfD:
  assumes "cb_wf c"
  shows "unat (csize c) \<le> length (base c)" "unat (circbuf_used c) \<le> unat (csize c)" "cb_room c 0"
    "unat (circbuf_space c) = unat (csize c) - unat (circbuf_used c)"
  using assms by (simp_all add: cb_wf_def word_le_nat_alt circbuf_space_def circbuf_size_def unat_sub)



lemma unat_min: "unat (if a < b then a else b) = min (unat a) (unat (b::u64))"
  by (auto simp: word_less_nat_alt)

lemma unat_min': "unat (if b < a then b else a) = min (unat a) (unat (b::u64))"
  by (auto simp: word_less_nat_alt)


lemma ring_get_ok:
  fixes b q :: u64
  assumes "csize c \<noteq> 0" "unat (csize c) \<le> length (base c)" "unat b \<le> unat (csize c)"
  defines "l \<equiv> (if b < csize c - q mod csize c then b else csize c - q mod csize c)"
  shows "mem_get (base c) (q mod csize c) l \<bind> (\<lambda>xs. mem_get (base c) 0 (b - l) \<bind> (\<lambda>ys. Some (xs @ ys))) =
    Some (ring (base c) (unat (csize c)) (unat q) (unat b))"
proof -
  define s r where "s = unat (csize c)" and "r = unat q mod s"
  have r: "r < s" "unat (q mod csize c) = r" using assms(1) by (simp_all add: r_def s_def unat_mod unat_gt_0)
  have "unat (csize c - q mod csize c) = s - r" using r by (simp add: unat_sub word_le_nat_alt s_def)
  then have l: "unat l = min (unat b) (s - r)" by (simp only: l_def unat_min)
  then have bl: "unat (b - l) = unat b - unat l" by (simp add: unat_sub word_le_nat_alt)
  have "mem_get (base c) (q mod csize c) l = Some (take (unat l) (drop r (base c)))"
    using assms(2) r l by (simp add: mem_get_def s_def)
  moreover have "mem_get (base c) 0 (b - l) = Some (take (unat b - unat l) (base c))"
    using assms(2,3) by (simp add: mem_get_def bl)
  moreover have "take (unat l) (drop r (base c)) @ take (unat b - unat l) (base c) = ring (base c) s r (unat b)"
    unfolding l by (rule ring_pieces) (use r assms in \<open>auto simp: s_def\<close>)
  ultimately show ?thesis by (simp add: r_def s_def)
qed

lemma circbuf_peekat_ok:
  assumes wf: "cb_wf c"
  shows "circbuf_peekat c (ctail c + k) n =
    Some (take (unat n) (drop (if k \<le> circbuf_used c then unat k else 0) (contents c)))"
proof (cases "csize c = 0")
  case True
  then have "contents c = []" using cb_wfD(2) [OF wf] by (simp add: contents_def)
  then show ?thesis using True by (simp add: circbuf_peekat_def)
next
  case False
  define s U where "s = unat (csize c)" and "U = unat (circbuf_used c)"
  define j where "j = (if k \<le> circbuf_used c then k else 0)"
  have j: "unat j \<le> U" "unat j = (if k \<le> circbuf_used c then unat k else 0)"
    by (simp_all add: j_def U_def word_le_nat_alt)
  have pos: "(if chead c - (ctail c + k) > chead c - ctail c then ctail c else ctail c + k) = ctail c + j"
  proof -
    have *: "chead c - (ctail c + k) = circbuf_used c - k" "chead c - ctail c = circbuf_used c" by (simp_all add: circbuf_used_def)
    have "circbuf_used c - k > circbuf_used c \<longleftrightarrow> \<not> k \<le> circbuf_used c" by uint_arith
    then show ?thesis unfolding * by (simp add: j_def)
  qed
  define b where "b = (if n > chead c - (ctail c + j) then chead c - (ctail c + j) else n)"
  have "unat (chead c - (ctail c + j)) = U - unat j"
    using j(1) by (simp add: U_def circbuf_used_def diff_diff_eq [symmetric] unat_sub word_le_nat_alt)
  then have b: "unat b = min (unat n) (U - unat j)" by (simp only: b_def unat_min')
  have "fits s (ctail c) (unat j)"
    using cb_wfD(3) [OF wf] j(1) by (auto simp: cb_room_def s_def U_def intro: fits_mono)
  then have "unat (ctail c + j) mod s = (unat (ctail c) + unat j) mod s" by (rule fits_add)
  then have "ring (base c) s (unat (ctail c + j)) (unat b) = ring (base c) s (unat (ctail c) + unat j) (unat b)"
    by (metis ring_mod)
  also have "\<dots> = take (unat n) (drop (unat j) (contents c))"
    by (simp add: contents_def drop_ring take_ring b s_def U_def)
  finally show ?thesis
    using False ring_get_ok [of c b "ctail c + j"] cb_wfD [OF wf] b
    unfolding circbuf_peekat_def Let_def pos b_def [symmetric] j(2) [symmetric] by (simp add: s_def U_def)
qed

lemma tail_advance:
  assumes wf: "cb_wf c" and k: "unat k \<le> unat (circbuf_used c)"
  defines "c' \<equiv> c\<lparr>ctail := ctail c + k\<rparr>"
  shows "cb_wf c'" "contents c' = drop (unat k) (contents c)" "cb_room c n \<Longrightarrow> cb_room c' n"
proof -
  have used: "unat (circbuf_used c') = unat (circbuf_used c) - unat k"
    using k by (simp add: c'_def circbuf_used_def diff_diff_eq [symmetric] unat_sub word_le_nat_alt)
  have room: "cb_room c' n" if "cb_room c n" for n
    using fits_shift [of "unat (csize c)" "ctail c" "unat (circbuf_used c) + n" k] that k used
    by (simp add: cb_room_def c'_def)
  show "cb_room c n \<Longrightarrow> cb_room c' n" by (rule room)
  have sel: "base c' = base c" "csize c' = csize c" "ctail c' = ctail c + k" by (simp_all add: c'_def)
  show "cb_wf c'"
    using room [OF cb_wfD(3) [OF wf]] cb_wfD [OF wf] used by (simp add: cb_wf_def sel word_le_nat_alt)
  have "fits (unat (csize c)) (ctail c) (unat k)"
    using cb_wfD(3) [OF wf] k by (auto simp: cb_room_def intro: fits_mono)
  then have "unat (ctail c + k) mod unat (csize c) = (unat (ctail c) + unat k) mod unat (csize c)" by (rule fits_add)
  then have "ring (base c) (unat (csize c)) (unat (ctail c + k)) n = ring (base c) (unat (csize c)) (unat (ctail c) + unat k) n" for n
    by (metis ring_mod)
  then show "contents c' = drop (unat k) (contents c)"
    by (simp add: contents_def sel used drop_ring)
qed


section \<open>The operations on the contents\<close>

lemma circbuf_read_ok:
  assumes "cb_wf c"
  obtains c' where "circbuf_read c n = Some (take (unat n) (contents c), c')" "cb_wf c'" "contents c' = drop (unat n) (contents c)"
    "csize c' = csize c" "\<And>m. cb_room c m \<Longrightarrow> cb_room c' m"
proof
  define k :: u64 where "k = of_nat (min (unat n) (unat (circbuf_used c)))"
  have k: "unat k = min (unat n) (unat (circbuf_used c))"
    using unat_below [of n] by (simp add: k_def unat_of_nat min_def)
  have le: "unat k \<le> unat (circbuf_used c)" by (simp add: k)
  have "drop (min (unat n) (unat (circbuf_used c))) (contents c) = drop (unat n) (contents c)"
    by (simp add: min_def)
  then show "cb_wf (c\<lparr>ctail := ctail c + k\<rparr>)" "contents (c\<lparr>ctail := ctail c + k\<rparr>) = drop (unat n) (contents c)"
    "\<And>m. cb_room c m \<Longrightarrow> cb_room (c\<lparr>ctail := ctail c + k\<rparr>) m"
    using tail_advance [OF assms le] by (simp_all add: k)
  show "circbuf_read c n = Some (take (unat n) (contents c), c\<lparr>ctail := ctail c + k\<rparr>)"
    using circbuf_peekat_ok [OF assms, of 0 n] by (simp add: circbuf_read_def circbuf_peek_def k_def min.commute)
qed simp

lemma circbuf_skip_ok:
  assumes "cb_wf c"
  obtains k c' where "circbuf_skip c n = (k, c')" "unat k = min (unat n) (unat (circbuf_used c))" "cb_wf c'"
    "contents c' = drop (unat n) (contents c)" "csize c' = csize c" "\<And>m. cb_room c m \<Longrightarrow> cb_room c' m"
proof
  define k where "k = (if n > circbuf_used c then circbuf_used c else n)"
  show k: "unat k = min (unat n) (unat (circbuf_used c))" by (simp add: k_def unat_min')
  then have le: "unat k \<le> unat (circbuf_used c)" by simp
  have "drop (min (unat n) (unat (circbuf_used c))) (contents c) = drop (unat n) (contents c)"
    by (simp add: min_def)
  then show "cb_wf (c\<lparr>ctail := ctail c + k\<rparr>)" "contents (c\<lparr>ctail := ctail c + k\<rparr>) = drop (unat n) (contents c)"
    "\<And>m. cb_room c m \<Longrightarrow> cb_room (c\<lparr>ctail := ctail c + k\<rparr>) m"
    using tail_advance [OF assms le] by (simp_all add: k)
  show "circbuf_skip c n = (k, c\<lparr>ctail := ctail c + k\<rparr>)" by (simp add: circbuf_skip_def Let_def k_def)
qed simp


text \<open>
  Overwriting is moving the tail first and copying then: the copy does not look at the tail. It keeps the last \<open>size\<close> bytes, unless
  the buffer is empty and more than \<open>size\<close> bytes are given.
\<close>

definition last_bytes :: "nat \<Rightarrow> byte list \<Rightarrow> byte list" where
  "last_bytes n xs = drop (length xs - n) xs"






lemma circbuf_resize_ok:
  assumes wf: "cb_wf c" and n: "n \<noteq> 0" "n \<noteq> csize c" and tmp: "unat n \<le> length tmp"
  obtains c' where "circbuf_resize n (Some tmp) c = Some (0, c')" "cb_wf c'" "csize c' = n"
    "contents c' = last_bytes (unat n) (contents c)"
proof -
  define U where "U = unat (circbuf_used c)"
  define len where "len = (if n < circbuf_used c then n else circbuf_used c)"
  define c1 where "c1 = (if n < circbuf_used c then snd (circbuf_skip c (circbuf_used c - n)) else c)"
  have len: "unat len = min (unat n) U" by (simp add: len_def unat_min U_def)
  have c1: "cb_wf c1 \<and> contents c1 = last_bytes (unat n) (contents c)"
  proof (cases "n < circbuf_used c")
    case True
    obtain k c2 where "circbuf_skip c (circbuf_used c - n) = (k, c2)" "cb_wf c2"
      "contents c2 = drop (unat (circbuf_used c - n)) (contents c)"
      using circbuf_skip_ok [OF wf] by metis
    then show ?thesis using True by (simp add: c1_def last_bytes_def unat_sub order_less_imp_le)
  next
    case False
    then show ?thesis using wf by (simp add: c1_def last_bytes_def word_less_nat_alt)
  qed
  obtain c2 where c2: "circbuf_read c1 len = Some (take (unat len) (contents c1), c2)"
    using circbuf_read_ok [of c1] c1 by metis
  define xs where "xs = last_bytes (unat n) (contents c)"
  have xs: "length xs = unat len" by (simp add: xs_def last_bytes_def len U_def min_def)
  define c' where "c' = c2\<lparr>base := xs @ drop (unat len) tmp, csize := n, chead := len, ctail := 0\<rparr>"
  have "circbuf_resize n (Some tmp) c = Some (0, c')"
  proof -
    have "(if n < circbuf_used c then (n, snd (circbuf_skip c (circbuf_used c - n))) else (circbuf_used c, c)) = (len, c1)"
      by (simp add: len_def c1_def)
    moreover have "take (unat len) (contents c1) = xs" using c1 xs by (simp flip: xs_def)
    moreover have "mem_put tmp 0 xs = Some (xs @ drop (unat len) tmp)" using xs len tmp by (simp add: mem_put_def)
    ultimately show ?thesis using n c2 unfolding circbuf_resize_def Let_def by (simp add: c'_def)
  qed
  moreover have used: "circbuf_used c' = len" by (simp add: c'_def circbuf_used_def)
  then have "cb_wf c'"
    using tmp len xs unat_below [of len] unfolding cb_wf_def cb_room_def fits_def used
    by (simp add: c'_def word_le_nat_alt)
  moreover have "contents c' = xs"
    by (rule nth_equalityI) (use xs len used n in \<open>auto simp: contents_def c'_def nth_append\<close>)
  ultimately show ?thesis using that [of c'] by (simp add: c'_def xs_def)
qed

text \<open>
  Direct access does the same as the copying functions: bytes put at the write pointer and committed are a write of them,
  bytes taken at the read pointer and committed a read.
\<close>

lemma ptr_room:
  fixes size :: u64
  assumes "size \<le> s" "s < 2 ^ 63" "off < s" "n = (if off + size > s then s - off else size)" "m \<le> n"
  shows "m \<le> size" "m \<le> s - off"
proof -
  have s: "unat s < 2 ^ 63" "unat size \<le> unat s" "unat off < unat s"
    using assms(1-3) by (simp_all add: word_less_nat_alt word_le_nat_alt)
  then have "unat (off + size) = unat off + unat size" by (simp add: unat_word_ariths)
  moreover have "unat (s - off) = unat s - unat off" using s by (simp add: unat_sub word_le_nat_alt)
  ultimately show "m \<le> size" "m \<le> s - off"
    using assms(4,5) s by (auto simp: word_le_nat_alt word_less_nat_alt split: if_splits)
qed

lemma writeptr_is_write:
  assumes wf: "cb_wf c" and s: "csize c < 2 ^ 63" and ptr: "circbuf_get_writeptr c = Some (off, n)" and m: "m \<le> n" "length xs = unat m"
  shows "\<exists>b. mem_put (base c) off xs = Some b \<and> circbuf_write c xs m = Some (m, circbuf_writecommit m (c\<lparr>base := b\<rparr>))"
proof -
  have s0: "csize c \<noteq> 0" and off: "off = chead c mod csize c"
    and n: "n = (if off + circbuf_space c > csize c then csize c - off else circbuf_space c)"
    using ptr by (auto simp: circbuf_get_writeptr_def Let_def split: if_splits)
  have "off < csize c" using s0 by (simp add: off word_less_nat_alt unat_mod unat_gt_0)
  moreover have "circbuf_space c \<le> csize c" using cb_wfD(4) [OF wf] by (simp add: word_le_nat_alt)
  ultimately have le: "m \<le> circbuf_space c" "m \<le> csize c - off" and lt: "unat off < unat (csize c)"
    using ptr_room [OF _ s _ n m(1)] by (simp_all add: word_less_nat_alt)
  have "unat (csize c - off) = unat (csize c) - unat off" using lt by (simp add: unat_sub word_le_nat_alt)
  then have fit: "unat off + unat m \<le> length (base c)"
    using le(2) lt cb_wfD(1) [OF wf] by (simp add: word_le_nat_alt)
  define w where "w = (if m < csize c - off then m else csize c - off)"
  have w: "w = m" using le(2) by (simp add: w_def)
  have "circbuf_copy c xs m = Some (c\<lparr>base := take (unat off) (base c) @ xs @ drop (unat off + unat m) (base c), chead := chead c + m\<rparr>)"
    unfolding circbuf_copy_def Let_def off [symmetric] w_def [symmetric] w using m(2) fit by (simp add: mem_get_def mem_put_def)
  then show ?thesis
    using s0 leD [OF le(1)] fit m(2) by (simp add: circbuf_write_def Let_def circbuf_writecommit_def mem_put_def)
qed

lemma readptr_is_read:
  assumes wf: "cb_wf c" and s: "csize c < 2 ^ 63" and ptr: "circbuf_get_readptr c = Some (off, n)" and m: "m \<le> n"
  shows "\<exists>xs. mem_get (base c) off m = Some xs \<and> circbuf_read c m = Some (xs, circbuf_readcommit m c)"
proof -
  have s0: "csize c \<noteq> 0" and off: "off = ctail c mod csize c"
    and n: "n = (if off + circbuf_used c > csize c then csize c - off else circbuf_used c)"
    using ptr by (auto simp: circbuf_get_readptr_def Let_def split: if_splits)
  have "off < csize c" using s0 by (simp add: off word_less_nat_alt unat_mod unat_gt_0)
  moreover have "circbuf_used c \<le> csize c" using wf by (simp add: cb_wf_def)
  ultimately have le: "m \<le> circbuf_used c" "m \<le> csize c - off" and lt: "unat off < unat (csize c)"
    using ptr_room [OF _ s _ n m] by (simp_all add: word_less_nat_alt)
  have "unat (csize c - off) = unat (csize c) - unat off" using lt by (simp add: unat_sub word_le_nat_alt)
  then have fit: "unat off + unat m \<le> length (base c)"
    using le(2) lt cb_wfD(1) [OF wf] by (simp add: word_le_nat_alt)
  define w where "w = (if m < csize c - off then m else csize c - off)"
  have w: "w = m" using le(2) by (simp add: w_def)
  have p: "(if chead c - ctail c > chead c - ctail c then ctail c else ctail c) = ctail c"
    and b: "(if m > chead c - ctail c then chead c - ctail c else m) = m"
    using leD [OF le(1)] by (simp_all add: circbuf_used_def)
  have "circbuf_peek c m = Some (take (unat m) (drop (unat off) (base c)))"
    unfolding circbuf_peek_def circbuf_peekat_def Let_def p b off [symmetric] w_def [symmetric] w
    using s0 fit by (simp add: mem_get_def)
  then show ?thesis
    using fit by (simp add: circbuf_read_def circbuf_readcommit_def mem_get_def)
qed

section \<open>Sequences of calls\<close>

text \<open>
  A client calls the operations in any order. The abstract buffer is a list of at most \<open>s\<close> bytes. An observation is the
  number that a call returns and the bytes it copies out.
\<close>

datatype cb_op = CbWrite "byte list" | CbOverwrite "byte list" | CbRead u64 | CbPeek u64 | CbSkip u64 | CbReset

fun cb_call :: "cb_op \<Rightarrow> circbuf_s \<Rightarrow> ((nat \<times> byte list) \<times> circbuf_s) option" where
  "cb_call (CbWrite xs) c = do { (n, c') \<leftarrow> circbuf_write c xs (of_nat (length xs)); Some ((unat n, []), c') }"
| "cb_call (CbOverwrite xs) c = do { (n, c') \<leftarrow> circbuf_overwrite c xs (of_nat (length xs)); Some ((unat n, []), c') }"
| "cb_call (CbRead n) c = do { (xs, c') \<leftarrow> circbuf_read c n; Some ((length xs, xs), c') }"
| "cb_call (CbPeek n) c = do { xs \<leftarrow> circbuf_peek c n; Some ((length xs, xs), c) }"
| "cb_call (CbSkip n) c = (let (k, c') = circbuf_skip c n in Some ((unat k, []), c'))"
| "cb_call CbReset c = Some ((0, []), circbuf_reset c)"

fun cb_calls :: "cb_op list \<Rightarrow> circbuf_s \<Rightarrow> ((nat \<times> byte list) list \<times> circbuf_s) option" where
  "cb_calls [] c = Some ([], c)"
| "cb_calls (x # xs) c = do { (y, c1) \<leftarrow> cb_call x c; (ys, c2) \<leftarrow> cb_calls xs c1; Some (y # ys, c2) }"

fun queue_call :: "nat \<Rightarrow> cb_op \<Rightarrow> byte list \<Rightarrow> (nat \<times> byte list) \<times> byte list" where
  "queue_call s (CbWrite xs) q = (let n = min (length xs) (s - length q) in ((n, []), q @ take n xs))"
| "queue_call s (CbOverwrite xs) q = ((if s = 0 then 0 else length q + length xs - s, []), last_bytes s (q @ xs))"
| "queue_call s (CbRead n) q = ((min (unat n) (length q), take (unat n) q), drop (unat n) q)"
| "queue_call s (CbPeek n) q = ((min (unat n) (length q), take (unat n) q), q)"
| "queue_call s (CbSkip n) q = ((min (unat n) (length q), []), drop (unat n) q)"
| "queue_call s CbReset q = ((0, []), [])"

fun queue_calls :: "nat \<Rightarrow> cb_op list \<Rightarrow> byte list \<Rightarrow> (nat \<times> byte list) list \<times> byte list" where
  "queue_calls s [] q = ([], q)"
| "queue_calls s (x # xs) q = (let (y, q1) = queue_call s x q; (ys, q2) = queue_calls s xs q1 in (y # ys, q2))"

text \<open>
  What the calls need: lengths are \<open>size_t\<close> values, and an empty buffer is not overwritten with more bytes than its size.
\<close>

fun cb_legal :: "nat \<Rightarrow> cb_op list \<Rightarrow> byte list \<Rightarrow> bool" where
  "cb_legal s [] q \<longleftrightarrow> True"
| "cb_legal s (x # xs) q \<longleftrightarrow>
     (case x of
        CbWrite b \<Rightarrow> length b < 2 ^ 64
      | CbOverwrite b \<Rightarrow> length b < 2 ^ 64 \<and> (length b \<le> s \<or> q \<noteq> [] \<or> s = 0)
      | _ \<Rightarrow> True) \<and>
     cb_legal s xs (snd (queue_call s x q))"







text \<open>The first half of what is in a buffer of four bytes that has been wrapped once.\<close>

definition demo_circbuf :: circbuf_s where
  "demo_circbuf = \<lparr>base = [5, 2, 3, 4], csize = 4, chead = 5, ctail = 2, external = False\<rparr>"

lemma demo_circbuf_ok:
  "cb_wf demo_circbuf" "contents demo_circbuf = [3, 4, 5]" "csize demo_circbuf = 4" "cb_room demo_circbuf 100"
  by (simp_all add: demo_circbuf_def cb_wf_def cb_room_def fits_def circbuf_used_def contents_def ring_def upt_rec)

section \<open>The properties\<close>



text \<open>\<open>circbuf_resize\<close> with a successful allocation keeps the newest bytes that fit into the new size, in their order.\<close>

theorem circbuf_resize_keeps_newest:
  assumes "cb_wf c" "n \<noteq> 0" "n \<noteq> csize c" "unat n \<le> length tmp"
  shows "\<exists>c'. circbuf_resize n (Some tmp) c = Some (0, c') \<and> cb_wf c' \<and> csize c' = n \<and>
    contents c' = drop (length (contents c) - unat n) (contents c)"
  using circbuf_resize_ok [OF assms] unfolding last_bytes_def by metis

theorem circbuf_resize_keeps_newest_witness:
  "\<exists>c'. circbuf_resize 2 (Some [0, 0]) demo_circbuf = Some (0, c') \<and> cb_wf c' \<and> csize c' = 2 \<and> contents c' = [4, 5]"
  using circbuf_resize_keeps_newest [of demo_circbuf 2 "[0, 0]"] demo_circbuf_ok by simp

section \<open>Where the code leaves the invariant\<close>

text \<open>
  Overwriting an empty buffer with more than \<open>size\<close> bytes: the test \<open>bytes > space\<close> compares the reduced number of bytes, so the
  tail stays although the head has moved by all bytes. The buffer then claims to hold six bytes of a memory of four, and the
  next write has so much room that it runs over the end of the memory.
\<close>

lemma overwrite_empty_breaks:
  defines "c \<equiv> \<lparr>base = [0, 0, 0, 0], csize = 4, chead = 0, ctail = 0, external = False\<rparr>"
  obtains c' where "cb_wf c" "circbuf_overwrite c [1, 2, 3, 4, 5, 6] 6 = Some (0, c')" "circbuf_used c' = 6" "\<not> cb_wf c'"
    "circbuf_write c' [1, 2, 3, 4, 5, 6, 7, 8, 9] 9 = None"
proof
  let ?c' = "\<lparr>base = [5, 6, 3, 4], csize = 4, chead = 6, ctail = 0, external = False\<rparr>"
  show "cb_wf c" by (simp add: c_def cb_wf_def cb_room_def fits_def circbuf_used_def)
  show "circbuf_overwrite c [1, 2, 3, 4, 5, 6] 6 = Some (0, ?c')" by (simp add: c_def) code_simp
  show "circbuf_used ?c' = 6" "\<not> cb_wf ?c'" by (simp_all add: cb_wf_def circbuf_used_def)
  show "circbuf_write ?c' [1, 2, 3, 4, 5, 6, 7, 8, 9] 9 = None" by code_simp
qed

text \<open>
  A size that does not divide \<open>2 ^ 64\<close>: when the head counter wraps around, the next byte goes to a slot that is still in use,
  although there is room for it.
\<close>

lemma counter_wrap_overwrites:
  defines "c \<equiv> \<lparr>base = [7, 8, 9], csize = 3, chead = - 1, ctail = - 2, external = False\<rparr>"
    and "xs \<equiv> [CbWrite [1, 2], CbRead 1, CbWrite [3], CbRead 3]"
  shows "cb_wf c" "contents c = [9]" "cb_legal 3 xs (contents c)"
    "fst (queue_calls 3 xs (contents c)) = [(2, []), (1, [9]), (1, []), (3, [1, 2, 3])]"
    "map_option fst (cb_calls xs c) = Some [(2, []), (1, [9]), (1, []), (3, [1, 3, 9])]"
proof -
  show "cb_wf c" by (simp add: c_def cb_wf_def cb_room_def fits_def circbuf_used_def)
  show c: "contents c = [9]" by (simp add: c_def contents_def circbuf_used_def ring_def)
  show "cb_legal 3 xs (contents c)" "fst (queue_calls 3 xs (contents c)) = [(2, []), (1, [9]), (1, []), (3, [1, 2, 3])]"
    by (simp_all add: c xs_def)
  show "map_option fst (cb_calls xs c) = Some [(2, []), (1, [9]), (1, []), (3, [1, 3, 9])]"
    unfolding c_def xs_def by code_simp
qed

end
