(* ===== verification/Crc_Bits.thy ===== *)
theory Crc_Bits
  imports Prelude
begin

text \<open>
  Cyclic redundancy checks bit by bit, and what makes a lookup table for eight bits equivalent to them. \<open>lsb_step\<close> is the
  shift register that takes the least significant bit first, \<open>msb_step\<close> the one that takes the most significant bit first. The locale
  \<open>crc_bits\<close> states what both have in common, for any register width; \<open>crc_table\<close> adds the table, \<open>crc_burst\<close> what the detection of
  burst errors needs.
\<close>

section \<open>Shift registers\<close>

definition lsb_step :: "'a::len word \<Rightarrow> 'a word \<Rightarrow> 'a word" where
  "lsb_step poly c = (if c AND 1 \<noteq> 0 then drop_bit 1 c XOR poly else drop_bit 1 c)"

definition msb_step :: "'a::len word \<Rightarrow> 'a word \<Rightarrow> 'a word" where
  "msb_step poly c = (if c AND push_bit (LENGTH('a) - 1) 1 \<noteq> 0 then push_bit 1 c XOR poly else push_bit 1 c)"

definition lsb_in :: "u8 \<Rightarrow> 'a::len word" where
  "lsb_in b = ucast b"

definition msb_in :: "u8 \<Rightarrow> 'a::len word" where
  "msb_in b = push_bit (LENGTH('a) - 8) (ucast b)"

definition lsb_out :: "'a::len word \<Rightarrow> u8" where
  "lsb_out c = ucast c"

definition msb_out :: "'a::len word \<Rightarrow> u8" where
  "msb_out c = ucast (drop_bit (LENGTH('a) - 8) c)"

lemma xor_cancel [simp]: "a XOR c = b XOR c \<longleftrightarrow> a = b" "c XOR a = c XOR b \<longleftrightarrow> a = b"
  for a b c :: "'a::len word"
  by (metis xor.assoc xor.left_neutral xor.right_neutral xor_self_eq)+

section \<open>Bytes through a linear step\<close>

locale crc_bits =
  fixes step :: "'a::len word \<Rightarrow> 'a word" and inb :: "u8 \<Rightarrow> 'a word" and outb :: "'a word \<Rightarrow> u8" and shift :: "'a word \<Rightarrow> 'a word"
  assumes step_xor: "step (x XOR y) = step x XOR step y"
    and inb_xor: "inb (a XOR b) = inb a XOR inb b"
    and split: "(step ^^ 8) x = (step ^^ 8) (inb (outb x)) XOR shift x"
begin

lemma steps_xor: "(step ^^ n) (x XOR y) = (step ^^ n) x XOR (step ^^ n) y"
  by (induction n) (simp_all add: step_xor)

lemma steps_0: "(step ^^ n) 0 = 0"
  using steps_xor [of n 0 0] by simp

lemma byte_step: "(step ^^ 8) (x XOR inb b) = (step ^^ 8) (inb (outb x XOR b)) XOR shift x"
  using split [of x] by (simp add: steps_xor inb_xor xor.assoc xor.commute xor.left_commute)

end

text \<open>The table has the register after eight steps for every byte.\<close>

locale crc_table = crc_bits step inb outb shift
  for step :: "'a::len word \<Rightarrow> 'a word" and inb :: "u8 \<Rightarrow> 'a word" and outb :: "'a word \<Rightarrow> u8" and shift :: "'a word \<Rightarrow> 'a word" +
  fixes tab :: "'a word list"
  assumes tab: "tab ! unat b = (step ^^ 8) (inb b)"
begin

lemma table_step: "tab ! unat (outb x XOR b) XOR shift x = (step ^^ 8) (x XOR inb b)"
  by (simp add: byte_step tab)

lemma table_fold:
  "fold (\<lambda>b v. tab ! unat (outb v XOR b) XOR shift v) src v = fold (\<lambda>b v. (step ^^ 8) (v XOR inb b)) src v"
  by (simp add: table_step)

end

text \<open>
  The register has room for \<open>width\<close> bytes. \<open>pre\<close> undoes the eight steps on a register with at most \<open>n < width\<close> bytes.
\<close>

locale crc_burst = crc_bits step inb outb shift
  for step :: "'a::len word \<Rightarrow> 'a word" and inb :: "u8 \<Rightarrow> 'a word" and outb :: "'a word \<Rightarrow> u8" and shift :: "'a word \<Rightarrow> 'a word" +
  fixes pre :: "'a word \<Rightarrow> 'a word" and small :: "nat \<Rightarrow> 'a word \<Rightarrow> bool" and width :: nat
  assumes step_eq: "step x = step y \<longleftrightarrow> x = y"
    and small_0: "small 0 0"
    and small_Suc: "n < width \<Longrightarrow> small n x \<Longrightarrow> small (Suc n) (inb b XOR pre x)"
    and pre: "n < width \<Longrightarrow> small n x \<Longrightarrow> (step ^^ 8) (pre x) = x"
    and unique: "n < width \<Longrightarrow> small n x \<Longrightarrow> small n y \<Longrightarrow> inb a XOR pre x = inb b XOR pre y \<Longrightarrow> a = b \<and> x = y"
begin

primrec packed :: "u8 list \<Rightarrow> 'a word" where
  "packed [] = 0"
| "packed (b # bs) = inb b XOR pre (packed bs)"

lemma small_packed: "length bs \<le> width \<Longrightarrow> small (length bs) (packed bs)"
  by (induction bs) (simp_all add: small_0 small_Suc)

lemma packed_eq: "length as = length bs \<Longrightarrow> length bs \<le> width \<Longrightarrow> packed as = packed bs \<Longrightarrow> as = bs"
proof (induction as bs rule: list_induct2)
  case (Cons a as b bs)
  then have "length bs < width" "small (length bs) (packed as)" "small (length bs) (packed bs)"
    using small_packed [of as] small_packed [of bs] by simp_all
  then show ?case using unique Cons by simp
qed simp

lemma steps_eq: "(step ^^ n) x = (step ^^ n) y \<longleftrightarrow> x = y"
  by (induction n) (simp_all add: step_eq)

lemma fold_packed:
  "length bs \<le> width \<Longrightarrow> fold (\<lambda>b v. (step ^^ 8) (v XOR inb b)) bs v = (step ^^ (8 * length bs)) (v XOR packed bs)"
proof (induction bs arbitrary: v)
  case (Cons b bs)
  then have "(step ^^ 8) (pre (packed bs)) = packed bs" using pre [of "length bs"] small_packed [of bs] by simp
  then have "(step ^^ 8) (v XOR inb b) XOR packed bs = (step ^^ 8) (v XOR packed (b # bs))"
    by (simp add: steps_xor xor.assoc)
  moreover have "(step ^^ (8 * length bs)) ((step ^^ 8) x) = (step ^^ (8 * length (b # bs))) x" for x
    by (simp add: funpow_add [THEN fun_cong, of "8 * length bs" 8 step x, simplified o_apply, symmetric] add.commute)
  ultimately show ?case using Cons by simp
qed simp

lemma fold_reg_eq: "fold (\<lambda>b v. (step ^^ 8) (v XOR inb b)) bs v = fold (\<lambda>b v. (step ^^ 8) (v XOR inb b)) bs w \<longleftrightarrow> v = w"
proof (induction bs arbitrary: v w)
  case (Cons b bs)
  have "(step ^^ 8) (v XOR inb b) = (step ^^ 8) (w XOR inb b) \<longleftrightarrow> v XOR inb b = w XOR inb b" by (rule steps_eq)
  also have "\<dots> \<longleftrightarrow> v = w" by simp
  finally show ?case using Cons by simp
qed simp

text \<open>Two messages that differ in at most \<open>width\<close> consecutive bytes have different checksums.\<close>

lemma burst:
  assumes "length as = length bs" "length bs \<le> width" "as \<noteq> bs"
  shows "fold (\<lambda>b v. (step ^^ 8) (v XOR inb b)) (xs @ as @ ys) v \<noteq> fold (\<lambda>b v. (step ^^ 8) (v XOR inb b)) (xs @ bs @ ys) v"
proof
  define r where "r = fold (\<lambda>b v. (step ^^ 8) (v XOR inb b)) xs v"
  assume "fold (\<lambda>b v. (step ^^ 8) (v XOR inb b)) (xs @ as @ ys) v = fold (\<lambda>b v. (step ^^ 8) (v XOR inb b)) (xs @ bs @ ys) v"
  then have "fold (\<lambda>b v. (step ^^ 8) (v XOR inb b)) as r = fold (\<lambda>b v. (step ^^ 8) (v XOR inb b)) bs r"
    by (simp add: fold_reg_eq r_def)
  then have "packed as = packed bs" using assms by (simp add: fold_packed steps_eq)
  then show False using packed_eq assms by blast
qed

end

section \<open>Both shift registers are instances\<close>

lemma lsb_step_alt: "lsb_step p c = drop_bit 1 c XOR (if bit c 0 then p else 0)"
  by (auto simp: lsb_step_def bit_0 and_one_eq odd_iff_mod_2_eq_one)

lemma msb_step_alt:
  fixes c :: "'a::len word"
  shows "msb_step p c = push_bit 1 c XOR (if bit c (LENGTH('a) - 1) then p else 0)"
proof -
  have "c AND push_bit (LENGTH('a) - 1) 1 = (if bit c (LENGTH('a) - 1) then push_bit (LENGTH('a) - 1) 1 else 0)"
    by (rule bit_word_eqI) (auto simp: bit_simps)
  moreover have "push_bit (LENGTH('a) - 1) 1 \<noteq> (0 :: 'a word)" by simp
  ultimately show ?thesis by (simp add: msb_step_def)
qed

lemma lsb_steps_clean: "(\<And>i. i < n \<Longrightarrow> \<not> bit x i) \<Longrightarrow> (lsb_step p ^^ n) x = drop_bit n x"
proof (induction n)
  case (Suc n)
  then have "(lsb_step p ^^ n) x = drop_bit n x" "\<not> bit x n" by simp_all
  then show ?case by (simp add: lsb_step_alt [of p "drop_bit n x"] bit_drop_bit_eq drop_bit_drop_bit)
qed simp

lemma msb_steps_clean:
  fixes x :: "'a::len word"
  shows "(\<And>i. i < n \<Longrightarrow> \<not> bit x (LENGTH('a) - 1 - i)) \<Longrightarrow> n \<le> LENGTH('a) \<Longrightarrow> (msb_step p ^^ n) x = push_bit n x"
proof (induction n)
  case (Suc n)
  then have "(msb_step p ^^ n) x = push_bit n x" "\<not> bit x (LENGTH('a) - 1 - n)" "n < LENGTH('a)" by simp_all
  then show ?case by (simp add: msb_step_alt [of p "push_bit n x"] bit_push_bit_iff push_bit_push_bit)
qed simp

lemma crc_bits_lsb:
  assumes "8 \<le> LENGTH('a::len)"
  shows "crc_bits (lsb_step (p :: 'a word)) lsb_in lsb_out (drop_bit 8)"
proof
  show xor: "lsb_step p (x XOR y) = lsb_step p x XOR lsb_step p y" for x y
    by (auto simp: lsb_step_alt drop_bit_xor bit_xor_iff xor.assoc xor.left_commute)
  show "(lsb_in (a XOR b) :: 'a word) = lsb_in a XOR lsb_in b" for a b
    unfolding lsb_in_def by (rule bit_word_eqI) (auto simp: bit_simps)
  have xors: "(lsb_step p ^^ n) (x XOR y) = (lsb_step p ^^ n) x XOR (lsb_step p ^^ n) y" for n x y
    by (induction n) (simp_all add: xor)
  show "(lsb_step p ^^ 8) x = (lsb_step p ^^ 8) (lsb_in (lsb_out x)) XOR drop_bit 8 x" for x
  proof -
    have "x = lsb_in (lsb_out x) XOR push_bit 8 (drop_bit 8 x)"
      unfolding lsb_in_def lsb_out_def by (rule bit_word_eqI) (auto simp: bit_simps)
    moreover have "(lsb_step p ^^ 8) (push_bit 8 (drop_bit 8 x)) = drop_bit 8 (push_bit 8 (drop_bit 8 x))"
      by (rule lsb_steps_clean) (simp add: bit_simps)
    moreover have "drop_bit 8 (push_bit 8 (drop_bit 8 x)) = drop_bit 8 x"
      by (rule bit_word_eqI) (auto simp: bit_simps dest: bit_imp_le_length)
    ultimately show ?thesis using xors by metis
  qed
qed

lemma crc_bits_msb:
  assumes "8 \<le> LENGTH('a::len)"
  shows "crc_bits (msb_step (p :: 'a word)) msb_in msb_out (push_bit 8)"
proof
  show xor: "msb_step p (x XOR y) = msb_step p x XOR msb_step p y" for x y
    by (auto simp: msb_step_alt push_bit_xor bit_xor_iff xor.assoc xor.left_commute)
  show "(msb_in (a XOR b) :: 'a word) = msb_in a XOR msb_in b" for a b
    unfolding msb_in_def by (rule bit_word_eqI) (auto simp: bit_simps)
  have xors: "(msb_step p ^^ n) (x XOR y) = (msb_step p ^^ n) x XOR (msb_step p ^^ n) y" for n x y
    by (induction n) (simp_all add: xor)
  show "(msb_step p ^^ 8) x = (msb_step p ^^ 8) (msb_in (msb_out x)) XOR push_bit 8 x" for x
  proof -
    have "x = msb_in (msb_out x) XOR drop_bit 8 (push_bit 8 x)"
      unfolding msb_in_def msb_out_def by (rule bit_word_eqI) (use assms in \<open>auto simp: bit_simps\<close>)
    moreover have "(msb_step p ^^ 8) (drop_bit 8 (push_bit 8 x)) = push_bit 8 (drop_bit 8 (push_bit 8 x))"
      by (rule msb_steps_clean) (use assms in \<open>auto simp: bit_simps\<close>)
    moreover have "push_bit 8 (drop_bit 8 (push_bit 8 x)) = push_bit 8 x"
      by (rule bit_word_eqI) (auto simp: bit_simps)
    ultimately show ?thesis using xors by metis
  qed
qed

text \<open>A generator polynomial with constant term makes each step reversible.\<close>

lemma lsb_step_eq:
  fixes p :: "'a::len word"
  assumes "bit p (LENGTH('a) - 1)"
  shows "lsb_step p x = lsb_step p y \<longleftrightarrow> x = y"
proof
  assume eq: "lsb_step p x = lsb_step p y"
  have "bit (lsb_step p z) (LENGTH('a) - 1) \<longleftrightarrow> bit z 0" for z
    using assms by (auto simp: lsb_step_alt bit_simps dest: bit_imp_le_length)
  then have b0: "bit x 0 \<longleftrightarrow> bit y 0" by (metis eq)
  then have "drop_bit 1 x = drop_bit 1 y"
    using eq by (simp add: lsb_step_alt split: if_splits)
  then have "bit x (Suc n) \<longleftrightarrow> bit y (Suc n)" for n by (metis bit_drop_bit_eq comp_apply plus_1_eq_Suc)
  then show "x = y" using b0 by (intro bit_word_eqI) (metis not0_implies_Suc)
qed simp

lemma bit_push1:
  fixes z :: "'a::len word"
  shows "\<not> bit (push_bit 1 z) 0" "Suc n < LENGTH('a) \<Longrightarrow> bit (push_bit 1 z) (Suc n) \<longleftrightarrow> bit z n"
  unfolding bit_push_bit_iff by simp_all

lemma msb_step_eq:
  fixes p :: "'a::len word"
  assumes "bit p 0"
  shows "msb_step p x = msb_step p y \<longleftrightarrow> x = y"
proof
  assume eq: "msb_step p x = msb_step p y"
  have "bit (msb_step p z) 0 \<longleftrightarrow> bit z (LENGTH('a) - 1)" for z
    unfolding msb_step_alt bit_xor_iff using assms bit_push1(1) [of z] by simp
  then have top: "bit x (LENGTH('a) - 1) \<longleftrightarrow> bit y (LENGTH('a) - 1)" by (metis eq)
  then have "push_bit 1 x = push_bit 1 y"
    using eq by (simp add: msb_step_alt split: if_splits)
  then have low: "bit x n \<longleftrightarrow> bit y n" if "Suc n < LENGTH('a)" for n
    using that bit_push1(2) [of n x] bit_push1(2) [of n y] by simp
  show "x = y"
  proof (rule bit_word_eqI)
    fix n assume "n < LENGTH('a)"
    then consider "n = LENGTH('a) - 1" | "Suc n < LENGTH('a)" by linarith
    then show "bit x n \<longleftrightarrow> bit y n" using top low by cases simp_all
  qed
qed simp

definition lsb_small :: "nat \<Rightarrow> 'a::len word \<Rightarrow> bool" where
  "lsb_small n x \<longleftrightarrow> (\<forall>i. bit x i \<longrightarrow> i < 8 * n)"

definition msb_small :: "nat \<Rightarrow> 'a::len word \<Rightarrow> bool" where
  "msb_small n x \<longleftrightarrow> (\<forall>i. bit x i \<longrightarrow> LENGTH('a) \<le> i + 8 * n)"

lemma lsb_unique:
  assumes n: "8 * Suc n \<le> LENGTH('a::len)" and small: "lsb_small n x" "lsb_small n y"
    and eq: "lsb_in a XOR push_bit 8 x = lsb_in b XOR push_bit 8 (y :: 'a word)"
  shows "a = b \<and> x = y"
proof
  have bits: "bit (lsb_in c XOR push_bit 8 z :: 'a word) i \<longleftrightarrow> (if i < 8 then bit c i else i < LENGTH('a) \<and> bit z (i - 8))" for c z i
    using n by (auto simp: lsb_in_def bit_simps dest: bit_imp_le_length)
  show "a = b"
  proof (rule bit_word_eqI)
    fix i assume "i < LENGTH(8)"
    then show "bit a i \<longleftrightarrow> bit b i" using bits [of a x i] bits [of b y i] eq by simp
  qed
  show "x = y"
  proof (rule bit_eqI)
    fix i
    have "bit x i \<longleftrightarrow> bit y i" if "i < 8 * n"
      using bits [of a x "i + 8"] bits [of b y "i + 8"] eq n that by simp
    then show "bit x i \<longleftrightarrow> bit y i" using small unfolding lsb_small_def by blast
  qed
qed

lemma msb_unique:
  assumes n: "8 * Suc n \<le> LENGTH('a::len)" and small: "msb_small n x" "msb_small n y"
    and eq: "msb_in a XOR drop_bit 8 x = msb_in b XOR drop_bit 8 (y :: 'a word)"
  shows "a = b \<and> x = y"
proof
  have bits: "bit (msb_in c XOR drop_bit 8 z :: 'a word) i \<longleftrightarrow>
      (if LENGTH('a) \<le> i + 8 then i < LENGTH('a) \<and> bit c (i + 8 - LENGTH('a)) else bit z (i + 8))" for c z i
    using n by (auto simp: msb_in_def bit_simps add.commute dest: bit_imp_le_length)
  show "a = b"
  proof (rule bit_word_eqI)
    fix i assume "i < LENGTH(8)"
    then have "i < 8" "i + (LENGTH('a) - 8) < LENGTH('a)" using n by simp_all
    then show "bit a i \<longleftrightarrow> bit b i"
      using bits [of a x "i + (LENGTH('a) - 8)"] bits [of b y "i + (LENGTH('a) - 8)"] eq n by simp
  qed
  show "x = y"
  proof (rule bit_eqI)
    fix i
    have "bit x i \<longleftrightarrow> bit y i" if "LENGTH('a) \<le> i + 8 * n" "i < LENGTH('a)"
      using bits [of a x "i - 8"] bits [of b y "i - 8"] eq n that by simp
    then show "bit x i \<longleftrightarrow> bit y i" using small bit_imp_le_length unfolding msb_small_def by blast
  qed
qed

lemma crc_burst_lsb:
  fixes p :: "'a::len word"
  assumes len: "8 \<le> LENGTH('a)" and top: "bit p (LENGTH('a) - 1)"
  shows "crc_burst (lsb_step p) lsb_in lsb_out (drop_bit 8) (push_bit 8) lsb_small (LENGTH('a) div 8)"
proof (intro crc_burst.intro crc_burst_axioms.intro crc_bits_lsb [OF len])
  fix n a b and x y :: "'a word"
  show "lsb_step p x = lsb_step p y \<longleftrightarrow> x = y" by (rule lsb_step_eq [OF top])
  show "lsb_small 0 (0 :: 'a word)" by (simp add: lsb_small_def)
  assume "n < LENGTH('a) div 8" and x: "lsb_small n x"
  then have n: "8 * Suc n \<le> LENGTH('a)" using less_eq_div_iff_mult_less_eq [of 8 "Suc n" "LENGTH('a)"] by simp
  have small: "i < 8 * n" if "bit x i" for i using x that by (auto simp: lsb_small_def)
  show "lsb_small (Suc n) (lsb_in b XOR push_bit 8 x)"
    by (auto simp: lsb_small_def lsb_in_def bit_simps dest: bit_imp_le_length small)
  have "(lsb_step p ^^ 8) (push_bit 8 x) = drop_bit 8 (push_bit 8 x)"
    by (rule lsb_steps_clean) (simp add: bit_simps)
  also have "\<dots> = x" by (rule bit_word_eqI) (use n in \<open>auto simp: bit_simps dest: small\<close>)
  finally show "(lsb_step p ^^ 8) (push_bit 8 x) = x" .
  assume "lsb_small n y" "lsb_in a XOR push_bit 8 x = lsb_in b XOR push_bit 8 y"
  then show "a = b \<and> x = y" by (rule lsb_unique [OF n x])
qed

lemma crc_burst_msb:
  fixes p :: "'a::len word"
  assumes len: "8 \<le> LENGTH('a)" and low: "bit p 0"
  shows "crc_burst (msb_step p) msb_in msb_out (push_bit 8) (drop_bit 8) msb_small (LENGTH('a) div 8)"
proof (intro crc_burst.intro crc_burst_axioms.intro crc_bits_msb [OF len])
  fix n a b and x y :: "'a word"
  show "msb_step p x = msb_step p y \<longleftrightarrow> x = y" by (rule msb_step_eq [OF low])
  show "msb_small 0 (0 :: 'a word)" by (simp add: msb_small_def)
  assume "n < LENGTH('a) div 8" and x: "msb_small n x"
  then have n: "8 * Suc n \<le> LENGTH('a)" using less_eq_div_iff_mult_less_eq [of 8 "Suc n" "LENGTH('a)"] by simp
  have small: "LENGTH('a) \<le> i + 8 * n" if "bit x i" for i using x that by (auto simp: msb_small_def)
  show "msb_small (Suc n) (msb_in b XOR drop_bit 8 x)"
    using len by (auto simp: msb_small_def msb_in_def bit_simps dest: bit_imp_le_length small)
  have "(msb_step p ^^ 8) (drop_bit 8 x) = push_bit 8 (drop_bit 8 x)"
    by (rule msb_steps_clean) (use len in \<open>auto simp: bit_simps dest: bit_imp_le_length\<close>)
  also have "\<dots> = x"
  proof -
    have "8 \<le> i" if "bit x i" for i using small [OF that] n by simp
    then show ?thesis by (intro bit_word_eqI) (auto simp: bit_simps)
  qed
  finally show "(msb_step p ^^ 8) (drop_bit 8 x) = x" .
  assume "msb_small n y" "msb_in a XOR drop_bit 8 x = msb_in b XOR drop_bit 8 y"
  then show "a = b \<and> x = y" by (rule msb_unique [OF n x])
qed

section \<open>Tables\<close>

text \<open>A table of a linear function is determined by the eight entries at the powers of two.\<close>

fun span :: "'a::len word list \<Rightarrow> 'a word list" where
  "span [] = [0]"
| "span (b # bs) = (let xs = span bs in xs @ map (\<lambda>x. b XOR x) xs)"

lemma xor_disjoint:
  assumes "i < 2 ^ n"
  shows "2 ^ n + of_nat i = (2 ^ n XOR of_nat i :: 'a::len word)"
proof (rule disjunctive_add_eq_xor)
  have "\<not> bit i n" using assms by (simp add: bit_iff_odd)
  then show "2 ^ n AND of_nat i = (0 :: 'a word)"
    by (intro bit_word_eqI) (auto simp: bit_simps)
qed

lemma span_linear:
  fixes f :: "'b::len word \<Rightarrow> 'a::len word"
  assumes "\<And>x y. f (x XOR y) = f x XOR f y"
  shows "span (map (\<lambda>k. f (2 ^ k)) (rev [0..<n])) = map (\<lambda>i. f (of_nat i)) [0..<2 ^ n]"
proof (induction n)
  case 0
  show ?case using assms [of 0 0] by simp
next
  case (Suc n)
  have "map (\<lambda>i. f (of_nat i)) [2 ^ n..<2 ^ n + 2 ^ n] = map (\<lambda>i. f (2 ^ n) XOR f (of_nat i)) [0..<2 ^ n]"
    by (rule nth_equalityI) (auto simp: xor_disjoint assms)
  then show ?case
    using Suc by (simp add: Let_def mult_2 upt_add_eq_append [of 0 "2 ^ n" "2 ^ n"] comp_def)
qed

lemma funpow_8: "(f ^^ 8) x = f (f (f (f (f (f (f (f x)))))))"
  by (simp add: eval_nat_numeral)

definition byte_table :: "('a::len word \<Rightarrow> 'a word) \<Rightarrow> (u8 \<Rightarrow> 'a word) \<Rightarrow> 'a word list" where
  "byte_table step inb = span (map (\<lambda>b. (step ^^ 8) (inb b)) [128, 64, 32, 16, 8, 4, 2, 1])"

context crc_bits
begin

lemma byte_table_entries: "byte_table step inb = map (\<lambda>i. (step ^^ 8) (inb (of_nat i))) [0..<256]"
proof -
  have "[128, 64, 32, 16, 8, 4, 2, 1] = map (\<lambda>k. 2 ^ k :: u8) (rev [0..<8])" by (simp add: upt_rec)
  then have "byte_table step inb = span (map (\<lambda>k. (step ^^ 8) (inb (2 ^ k))) (rev [0..<8]))"
    by (simp add: byte_table_def comp_def)
  also have "\<dots> = map (\<lambda>i. (step ^^ 8) (inb (of_nat i))) [0..<2 ^ 8]"
    by (rule span_linear) (simp add: inb_xor steps_xor)
  finally show ?thesis by simp
qed

lemma crc_tableI: "tab = byte_table step inb \<Longrightarrow> crc_table step inb outb shift tab"
proof
  fix b :: u8 assume "tab = byte_table step inb"
  moreover have "unat b < 256" using unsigned_less [of b] by simp
  ultimately show "tab ! unat b = (step ^^ 8) (inb b)" by (simp add: byte_table_entries)
qed

end

text \<open>The entries at the powers of two are the first eight states of the register that starts with the polynomial.\<close>

primrec iterates :: "nat \<Rightarrow> ('a \<Rightarrow> 'a) \<Rightarrow> 'a \<Rightarrow> 'a list" where
  "iterates 0 f x = []"
| "iterates (Suc n) f x = x # iterates n f (f x)"

lemma iterates_8:
  "iterates 8 f x = x # iterates 7 f (f x)" "iterates 7 f x = x # iterates 6 f (f x)" "iterates 6 f x = x # iterates 5 f (f x)"
  "iterates 5 f x = x # iterates 4 f (f x)" "iterates 4 f x = x # iterates 3 f (f x)" "iterates 3 f x = x # iterates 2 f (f x)"
  "iterates 2 f x = [x, f x]"
  by (simp_all add: eval_nat_numeral)

lemma funpow_split: "n = a + Suc b \<Longrightarrow> (f ^^ n) x = (f ^^ a) (f ((f ^^ b) x))"
  by (simp add: funpow_add funpow_swap1)

lemma lsb_power:
  assumes "8 \<le> LENGTH('a::len)" "k < 8"
  shows "(lsb_step p ^^ 8) (lsb_in (2 ^ k)) = (lsb_step (p :: 'a word) ^^ (7 - k)) p"
proof -
  have "(lsb_step p ^^ k) (lsb_in (2 ^ k)) = drop_bit k (lsb_in (2 ^ k))"
    by (rule lsb_steps_clean) (use assms in \<open>simp add: lsb_in_def bit_simps\<close>)
  also have "\<dots> = 1" by (rule bit_word_eqI) (use assms in \<open>auto simp: lsb_in_def bit_simps\<close>)
  finally have "(lsb_step p ^^ k) (lsb_in (2 ^ k)) = 1" .
  moreover have "lsb_step p 1 = p" by (simp add: lsb_step_alt bit_simps)
  ultimately show ?thesis using assms(2) by (simp add: funpow_split [of 8 "7 - k" k])
qed

lemma msb_power:
  assumes "8 \<le> LENGTH('a::len)" "k < 8"
  shows "(msb_step p ^^ 8) (msb_in (2 ^ k)) = (msb_step (p :: 'a word) ^^ k) p"
proof -
  have "(msb_step p ^^ (7 - k)) (msb_in (2 ^ k)) = push_bit (7 - k) (msb_in (2 ^ k))"
    by (rule msb_steps_clean) (use assms in \<open>auto simp: msb_in_def bit_simps\<close>)
  also have "\<dots> = push_bit (LENGTH('a) - 1) 1" by (rule bit_word_eqI) (use assms in \<open>auto simp: msb_in_def bit_simps\<close>)
  finally have "(msb_step p ^^ (7 - k)) (msb_in (2 ^ k)) = push_bit (LENGTH('a) - 1) 1" .
  moreover have "push_bit 1 (push_bit (LENGTH('a) - 1) 1 :: 'a word) = 0"
    unfolding push_bit_push_bit by (rule bit_word_eqI) (auto simp: bit_simps)
  then have "msb_step p (push_bit (LENGTH('a) - 1) 1) = p" by (simp add: msb_step_alt bit_simps)
  ultimately show ?thesis using assms(2) by (simp add: funpow_split [of 8 k "7 - k"])
qed

lemma byte_table_lsb:
  fixes p :: "'a::len word"
  assumes "8 \<le> LENGTH('a)"
  shows "byte_table (lsb_step p) lsb_in = span (iterates 8 (lsb_step p) p)"
  using lsb_power [OF assms, of 0 p] lsb_power [OF assms, of 1 p] lsb_power [OF assms, of 2 p] lsb_power [OF assms, of 3 p]
    lsb_power [OF assms, of 4 p] lsb_power [OF assms, of 5 p] lsb_power [OF assms, of 6 p] lsb_power [OF assms, of 7 p]
  by (simp add: byte_table_def eval_nat_numeral)

lemma byte_table_msb:
  fixes p :: "'a::len word"
  assumes "8 \<le> LENGTH('a)"
  shows "byte_table (msb_step p) msb_in = span (rev (iterates 8 (msb_step p) p))"
  using msb_power [OF assms, of 0 p] msb_power [OF assms, of 1 p] msb_power [OF assms, of 2 p] msb_power [OF assms, of 3 p]
    msb_power [OF assms, of 4 p] msb_power [OF assms, of 5 p] msb_power [OF assms, of 6 p] msb_power [OF assms, of 7 p]
  by (simp add: byte_table_def eval_nat_numeral)

section \<open>Checksums of messages\<close>

definition lsb_crc :: "'a::len word \<Rightarrow> u8 list \<Rightarrow> 'a word \<Rightarrow> 'a word" where
  "lsb_crc p = fold (\<lambda>b v. (lsb_step p ^^ 8) (v XOR lsb_in b))"

definition msb_crc :: "'a::len word \<Rightarrow> u8 list \<Rightarrow> 'a word \<Rightarrow> 'a word" where
  "msb_crc p = fold (\<lambda>b v. (msb_step p ^^ 8) (v XOR msb_in b))"

lemma lsb_crc_append: "lsb_crc p (xs @ ys) v = lsb_crc p ys (lsb_crc p xs v)"
  by (simp add: lsb_crc_def)

lemma msb_crc_append: "msb_crc p (xs @ ys) v = msb_crc p ys (msb_crc p xs v)"
  by (simp add: msb_crc_def)

text \<open>The index into the table, in the forms the sources compute it.\<close>

lemma unat_up: "8 \<le> LENGTH('a::len) \<Longrightarrow> unat (ucast b :: 'a word) = unat (b :: u8)"
proof -
  assume "8 \<le> LENGTH('a)"
  then have "(2 :: nat) ^ 8 \<le> 2 ^ LENGTH('a)" by (rule power_increasing) simp
  moreover have "unat b < 2 ^ 8" using unsigned_less [of b] by simp
  ultimately show ?thesis by (simp add: unsigned_ucast_eq take_bit_nat_eq_self)
qed

lemma index_lsb:
  fixes v :: "'a::len word"
  assumes "8 \<le> LENGTH('a)"
  shows "unat ((v AND 0xff) XOR ucast b) = unat (lsb_out v XOR b)" "unat ((v XOR ucast b) AND 0xff) = unat (lsb_out v XOR b)"
    "ucast (v AND 0xff) = lsb_out v"
proof -
  have ff: "0xff = (mask 8 :: 'a word)" by (simp add: mask_numeral)
  have "(v AND 0xff) XOR ucast b = (ucast (lsb_out v XOR b) :: 'a word)"
    unfolding ff lsb_out_def by (rule bit_word_eqI) (use assms in \<open>auto simp: bit_simps dest: bit_imp_le_length\<close>)
  then show "unat ((v AND 0xff) XOR ucast b) = unat (lsb_out v XOR b)" by (simp add: unat_up assms)
  have "(v XOR ucast b) AND 0xff = (ucast (lsb_out v XOR b) :: 'a word)"
    unfolding ff lsb_out_def by (rule bit_word_eqI) (use assms in \<open>auto simp: bit_simps dest: bit_imp_le_length\<close>)
  then show "unat ((v XOR ucast b) AND 0xff) = unat (lsb_out v XOR b)" by (simp add: unat_up assms)
  show "ucast (v AND 0xff) = lsb_out v"
    unfolding ff lsb_out_def by (rule bit_word_eqI) (use assms in \<open>auto simp: bit_simps dest: bit_imp_le_length\<close>)
qed

lemma index_msb:
  fixes v :: "'a::len word"
  assumes "8 \<le> LENGTH('a)"
  shows "unat ((drop_bit (LENGTH('a) - 8) v AND 0xff) XOR ucast b) = unat (msb_out v XOR b)"
  using index_lsb(1) [OF assms, of "drop_bit (LENGTH('a) - 8) v" b] by (simp add: lsb_out_def msb_out_def)

end
