(* ===== verification/Crc.thy ===== *)
theory Crc
  imports Crc_Tables Crc_Bits
begin

text \<open>
  The checksum functions of \<open>libs/libc/misc/lib_crc*.c\<close> on the list of the bytes of \<open>src\<close>; its length is \<open>len\<close>. Each function that looks
  eight bits up in a table is shown to be the bitwise division by its polynomial, and where the source has both
  variants (\<open>CONFIG_LIBC_CRC32_SLOW\<close>, \<open>CONFIG_LIBC_CRC64_FAST\<close>) they are shown equal.
\<close>

section \<open>The functions\<close>

definition crc8table :: "u8 list \<Rightarrow> u8 list \<Rightarrow> u8 \<Rightarrow> u8" where
  "crc8table table src crc8val = fold (\<lambda>b v. table ! unat (v XOR b)) src (crc8val XOR 0xff) XOR 0xff"

definition crc8part :: "u8 list \<Rightarrow> 8 word \<Rightarrow> 8 word" where
  "crc8part src v = crc8table crc8_tab src v"

definition crc8 :: "u8 list \<Rightarrow> 8 word" where
  "crc8 src = crc8part src 0"

definition crc8ccittpart :: "u8 list \<Rightarrow> 8 word \<Rightarrow> 8 word" where
  "crc8ccittpart src v = crc8table crc8ccitt_tab src v"

definition crc8ccitt :: "u8 list \<Rightarrow> 8 word" where
  "crc8ccitt src = crc8ccittpart src 0"

definition crc8rohcpart :: "u8 list \<Rightarrow> 8 word \<Rightarrow> 8 word" where
  "crc8rohcpart src v = crc8table crc8rohc_tab src v"

definition crc8rohc :: "u8 list \<Rightarrow> 8 word" where
  "crc8rohc src = crc8rohcpart src 0xff"

definition crc8rohcincr :: "u8 \<Rightarrow> 8 word \<Rightarrow> 8 word" where
  "crc8rohcincr b v = crc8rohc_tab ! unat (v XOR b)"

definition crc8h1d_part :: "u8 list \<Rightarrow> 8 word \<Rightarrow> 8 word" where
  "crc8h1d_part src v = crc8table crc8h1d_tab src v"

definition crc8h1d :: "u8 list \<Rightarrow> 8 word" where
  "crc8h1d src = crc8h1d_part src 0"

definition crc8h2f_part :: "u8 list \<Rightarrow> 8 word \<Rightarrow> 8 word" where
  "crc8h2f_part src v = crc8table crc8h2f_tab src v"

definition crc8h2f :: "u8 list \<Rightarrow> 8 word" where
  "crc8h2f src = crc8h2f_part src 0"

definition crc16ccittpart :: "u8 list \<Rightarrow> 16 word \<Rightarrow> 16 word" where
  "crc16ccittpart src v = fold (\<lambda>b v. drop_bit 8 v XOR crc16ccitt_tab ! unat ((v XOR ucast b) AND 0xff)) src v"

definition crc16ccitt :: "u8 list \<Rightarrow> 16 word" where
  "crc16ccitt src = crc16ccittpart src 0"

definition crc16ibmpart :: "u8 list \<Rightarrow> 16 word \<Rightarrow> 16 word" where
  "crc16ibmpart src v = fold (\<lambda>b v. drop_bit 8 v XOR crc16ibm_tab ! unat ((v XOR ucast b) AND 0xff)) src v"

definition crc16ibm :: "u8 list \<Rightarrow> 16 word" where
  "crc16ibm src = crc16ibmpart src 0"

definition crc16h8005_part :: "u8 list \<Rightarrow> 16 word \<Rightarrow> 16 word" where
  "crc16h8005_part src v = fold (\<lambda>b v. drop_bit 8 v XOR crc16h8005_tab ! unat ((v XOR ucast b) AND 0xff)) src v"

definition crc16h8005 :: "u8 list \<Rightarrow> 16 word" where
  "crc16h8005 src = crc16h8005_part src 0"

definition crc16xmodempart :: "u8 list \<Rightarrow> 16 word \<Rightarrow> 16 word" where
  "crc16xmodempart src v = fold (\<lambda>b v. crc16xmodem_tab ! unat ((drop_bit 8 v AND 0xff) XOR ucast b) XOR push_bit 8 v) src v"

definition crc16xmodem :: "u8 list \<Rightarrow> 16 word" where
  "crc16xmodem src = crc16xmodempart src 0"

definition crc16h1021_part :: "u8 list \<Rightarrow> 16 word \<Rightarrow> 16 word" where
  "crc16h1021_part src v = fold (\<lambda>b v. crc16h1021_tab ! unat ((drop_bit 8 v AND 0xff) XOR ucast b) XOR push_bit 8 v) src v"

definition crc16h1021 :: "u8 list \<Rightarrow> 16 word" where
  "crc16h1021 src = crc16h1021_part src 0xffff"

definition crc16part :: "u8 list \<Rightarrow> 16 word \<Rightarrow> 16 word" where
  "crc16part src v = crc16xmodempart src v"

definition crc16 :: "u8 list \<Rightarrow> 16 word" where
  "crc16 src = crc16xmodempart src 0"

definition crc32part :: "u8 list \<Rightarrow> 32 word \<Rightarrow> 32 word" where
  "crc32part src v = fold (\<lambda>b v. crc32_tab ! unat ((v AND 0xff) XOR ucast b) XOR drop_bit 8 v) src v"

text \<open>With \<open>CONFIG_LIBC_CRC32_SLOW\<close>.\<close>

definition crc32_bit :: "32 word \<Rightarrow> 32 word" where
  "crc32_bit v = (if v AND 1 \<noteq> 0 then drop_bit 1 v XOR 0xedb88320 else drop_bit 1 v)"

definition crc32part_slow :: "u8 list \<Rightarrow> 32 word \<Rightarrow> 32 word" where
  "crc32part_slow src v = fold (\<lambda>b v. (crc32_bit ^^ 8) (v XOR ucast b)) src v"

definition crc32 :: "u8 list \<Rightarrow> 32 word" where
  "crc32 src = crc32part src 0"

definition crc32h04c11db7_part :: "u8 list \<Rightarrow> 32 word \<Rightarrow> 32 word" where
  "crc32h04c11db7_part src v = fold (\<lambda>b v. crc32h04c11db7_tab ! unat (ucast (v AND 0xff) XOR b) XOR drop_bit 8 v) src (v XOR 0xffffffff) XOR 0xffffffff"

definition crc32h04c11db7 :: "u8 list \<Rightarrow> 32 word" where
  "crc32h04c11db7 src = crc32h04c11db7_part src 0"

definition crc32hf4acfb13_part :: "u8 list \<Rightarrow> 32 word \<Rightarrow> 32 word" where
  "crc32hf4acfb13_part src v = fold (\<lambda>b v. crc32hf4acfb13_tab ! unat (ucast (v AND 0xff) XOR b) XOR drop_bit 8 v) src (v XOR 0xffffffff) XOR 0xffffffff"

definition crc32hf4acfb13 :: "u8 list \<Rightarrow> 32 word" where
  "crc32hf4acfb13 src = crc32hf4acfb13_part src 0"

abbreviation CRC64_POLY :: u64 where "CRC64_POLY \<equiv> 0x42f0e1eba9ea3693"
abbreviation CRC64_INIT :: u64 where "CRC64_INIT \<equiv> 0xffffffffffffffff"
abbreviation CRC64_XOROUT :: u64 where "CRC64_XOROUT \<equiv> 0xffffffffffffffff"

text \<open>With \<open>CONFIG_LIBC_CRC64_FAST\<close>.\<close>

definition crc64part :: "u8 list \<Rightarrow> 64 word \<Rightarrow> 64 word" where
  "crc64part src v = fold (\<lambda>b v. crc64_tab ! unat ((drop_bit 56 v AND 0xff) XOR ucast b) XOR push_bit 8 v) src v"

text \<open>Without it.\<close>

definition crc64_bit :: "64 word \<Rightarrow> 64 word" where
  "crc64_bit v = (if v AND push_bit 63 1 \<noteq> 0 then push_bit 1 v XOR CRC64_POLY else push_bit 1 v)"

definition crc64part_slow :: "u8 list \<Rightarrow> 64 word \<Rightarrow> 64 word" where
  "crc64part_slow src v = fold (\<lambda>b v. (crc64_bit ^^ 8) (v XOR push_bit 56 (ucast b))) src v"

definition crc64 :: "u8 list \<Rightarrow> 64 word" where
  "crc64 src = crc64part src CRC64_INIT XOR CRC64_XOROUT"

definition crc64emac_part :: "u8 list \<Rightarrow> 64 word \<Rightarrow> 64 word" where
  "crc64emac_part src v = fold (\<lambda>b v. crc64emac_tab ! unat (ucast (v AND 0xff) XOR b) XOR drop_bit 8 v) src (v XOR 0xffffffffffffffff) XOR 0xffffffffffffffff"

definition crc64emac :: "u8 list \<Rightarrow> 64 word" where
  "crc64emac src = crc64emac_part src 0"

section \<open>The tables\<close>

lemma crc8_tab_ok: "crc8_tab = byte_table (lsb_step 0xb2) lsb_in"
  by (simp add: crc8_tab_def byte_table_lsb Let_def iterates_8 lsb_step_def)

interpretation crc8_tab: crc_table "lsb_step 0xb2" lsb_in lsb_out "drop_bit 8" crc8_tab
  by (rule crc_bits.crc_tableI [OF crc_bits_lsb crc8_tab_ok]) simp

lemma crc8ccitt_tab_ok: "crc8ccitt_tab = byte_table (msb_step 0x7) msb_in"
  by (simp add: crc8ccitt_tab_def byte_table_msb Let_def iterates_8 msb_step_def)

interpretation crc8ccitt_tab: crc_table "msb_step 0x7" msb_in msb_out "push_bit 8" crc8ccitt_tab
  by (rule crc_bits.crc_tableI [OF crc_bits_msb crc8ccitt_tab_ok]) simp

lemma crc8rohc_tab_ok: "crc8rohc_tab = byte_table (lsb_step 0xe0) lsb_in"
  by (simp add: crc8rohc_tab_def byte_table_lsb Let_def iterates_8 lsb_step_def)

interpretation crc8rohc_tab: crc_table "lsb_step 0xe0" lsb_in lsb_out "drop_bit 8" crc8rohc_tab
  by (rule crc_bits.crc_tableI [OF crc_bits_lsb crc8rohc_tab_ok]) simp

lemma crc8h1d_tab_ok: "crc8h1d_tab = byte_table (msb_step 0x1d) msb_in"
  by (simp add: crc8h1d_tab_def byte_table_msb Let_def iterates_8 msb_step_def)

interpretation crc8h1d_tab: crc_table "msb_step 0x1d" msb_in msb_out "push_bit 8" crc8h1d_tab
  by (rule crc_bits.crc_tableI [OF crc_bits_msb crc8h1d_tab_ok]) simp

lemma crc8h2f_tab_ok: "crc8h2f_tab = byte_table (msb_step 0x2f) msb_in"
  by (simp add: crc8h2f_tab_def byte_table_msb Let_def iterates_8 msb_step_def)

interpretation crc8h2f_tab: crc_table "msb_step 0x2f" msb_in msb_out "push_bit 8" crc8h2f_tab
  by (rule crc_bits.crc_tableI [OF crc_bits_msb crc8h2f_tab_ok]) simp

lemma crc16ccitt_tab_ok: "crc16ccitt_tab = byte_table (lsb_step 0x8408) lsb_in"
  by (simp add: crc16ccitt_tab_def byte_table_lsb Let_def iterates_8 lsb_step_def)

interpretation crc16ccitt_tab: crc_table "lsb_step 0x8408" lsb_in lsb_out "drop_bit 8" crc16ccitt_tab
  by (rule crc_bits.crc_tableI [OF crc_bits_lsb crc16ccitt_tab_ok]) simp

lemma crc16ibm_tab_ok: "crc16ibm_tab = byte_table (lsb_step 0xa001) lsb_in"
  by (simp add: crc16ibm_tab_def byte_table_lsb Let_def iterates_8 lsb_step_def)

interpretation crc16ibm_tab: crc_table "lsb_step 0xa001" lsb_in lsb_out "drop_bit 8" crc16ibm_tab
  by (rule crc_bits.crc_tableI [OF crc_bits_lsb crc16ibm_tab_ok]) simp

lemma crc16h8005_tab_ok: "crc16h8005_tab = byte_table (lsb_step 0xa001) lsb_in"
  by (simp add: crc16h8005_tab_def byte_table_lsb Let_def iterates_8 lsb_step_def)

interpretation crc16h8005_tab: crc_table "lsb_step 0xa001" lsb_in lsb_out "drop_bit 8" crc16h8005_tab
  by (rule crc_bits.crc_tableI [OF crc_bits_lsb crc16h8005_tab_ok]) simp

lemma crc16xmodem_tab_ok: "crc16xmodem_tab = byte_table (msb_step 0x1021) msb_in"
  by (simp add: crc16xmodem_tab_def byte_table_msb Let_def iterates_8 msb_step_def)

interpretation crc16xmodem_tab: crc_table "msb_step 0x1021" msb_in msb_out "push_bit 8" crc16xmodem_tab
  by (rule crc_bits.crc_tableI [OF crc_bits_msb crc16xmodem_tab_ok]) simp

lemma crc16h1021_tab_ok: "crc16h1021_tab = byte_table (msb_step 0x1021) msb_in"
  by (simp add: crc16h1021_tab_def byte_table_msb Let_def iterates_8 msb_step_def)

interpretation crc16h1021_tab: crc_table "msb_step 0x1021" msb_in msb_out "push_bit 8" crc16h1021_tab
  by (rule crc_bits.crc_tableI [OF crc_bits_msb crc16h1021_tab_ok]) simp

lemma crc32_tab_ok: "crc32_tab = byte_table (lsb_step 0xedb88320) lsb_in"
  by (simp add: crc32_tab_def byte_table_lsb Let_def iterates_8 lsb_step_def)

interpretation crc32_tab: crc_table "lsb_step 0xedb88320" lsb_in lsb_out "drop_bit 8" crc32_tab
  by (rule crc_bits.crc_tableI [OF crc_bits_lsb crc32_tab_ok]) simp

lemma crc32h04c11db7_tab_ok: "crc32h04c11db7_tab = byte_table (lsb_step 0xedb88320) lsb_in"
  by (simp add: crc32h04c11db7_tab_def byte_table_lsb Let_def iterates_8 lsb_step_def)

interpretation crc32h04c11db7_tab: crc_table "lsb_step 0xedb88320" lsb_in lsb_out "drop_bit 8" crc32h04c11db7_tab
  by (rule crc_bits.crc_tableI [OF crc_bits_lsb crc32h04c11db7_tab_ok]) simp

lemma crc32hf4acfb13_tab_ok: "crc32hf4acfb13_tab = byte_table (lsb_step 0xc8df352f) lsb_in"
  by (simp add: crc32hf4acfb13_tab_def byte_table_lsb Let_def iterates_8 lsb_step_def)

interpretation crc32hf4acfb13_tab: crc_table "lsb_step 0xc8df352f" lsb_in lsb_out "drop_bit 8" crc32hf4acfb13_tab
  by (rule crc_bits.crc_tableI [OF crc_bits_lsb crc32hf4acfb13_tab_ok]) simp

lemma crc64_tab_ok: "crc64_tab = byte_table (msb_step 0x42f0e1eba9ea3693) msb_in"
  by (simp add: crc64_tab_def byte_table_msb Let_def iterates_8 msb_step_def)

interpretation crc64_tab: crc_table "msb_step 0x42f0e1eba9ea3693" msb_in msb_out "push_bit 8" crc64_tab
  by (rule crc_bits.crc_tableI [OF crc_bits_msb crc64_tab_ok]) simp

lemma crc64emac_tab_ok: "crc64emac_tab = byte_table (lsb_step 0xc96c5795d7870f42) lsb_in"
  by (simp add: crc64emac_tab_def byte_table_lsb Let_def iterates_8 lsb_step_def)

interpretation crc64emac_tab: crc_table "lsb_step 0xc96c5795d7870f42" lsb_in lsb_out "drop_bit 8" crc64emac_tab
  by (rule crc_bits.crc_tableI [OF crc_bits_lsb crc64emac_tab_ok]) simp

interpretation crc8_burst: crc_burst "lsb_step 0xb2 :: 8 word \<Rightarrow> 8 word" lsb_in lsb_out "drop_bit 8" "push_bit 8" lsb_small 1
  using crc_burst_lsb [of "0xb2 :: 8 word"] by simp

interpretation crc8ccitt_burst: crc_burst "msb_step 0x7 :: 8 word \<Rightarrow> 8 word" msb_in msb_out "push_bit 8" "drop_bit 8" msb_small 1
  using crc_burst_msb [of "0x7 :: 8 word"] by simp

interpretation crc8rohc_burst: crc_burst "lsb_step 0xe0 :: 8 word \<Rightarrow> 8 word" lsb_in lsb_out "drop_bit 8" "push_bit 8" lsb_small 1
  using crc_burst_lsb [of "0xe0 :: 8 word"] by simp

interpretation crc8h1d_burst: crc_burst "msb_step 0x1d :: 8 word \<Rightarrow> 8 word" msb_in msb_out "push_bit 8" "drop_bit 8" msb_small 1
  using crc_burst_msb [of "0x1d :: 8 word"] by simp

interpretation crc8h2f_burst: crc_burst "msb_step 0x2f :: 8 word \<Rightarrow> 8 word" msb_in msb_out "push_bit 8" "drop_bit 8" msb_small 1
  using crc_burst_msb [of "0x2f :: 8 word"] by simp

interpretation crc16ccitt_burst: crc_burst "lsb_step 0x8408 :: 16 word \<Rightarrow> 16 word" lsb_in lsb_out "drop_bit 8" "push_bit 8" lsb_small 2
  using crc_burst_lsb [of "0x8408 :: 16 word"] by simp

interpretation crc16ibm_burst: crc_burst "lsb_step 0xa001 :: 16 word \<Rightarrow> 16 word" lsb_in lsb_out "drop_bit 8" "push_bit 8" lsb_small 2
  using crc_burst_lsb [of "0xa001 :: 16 word"] by simp

interpretation crc16xmodem_burst: crc_burst "msb_step 0x1021 :: 16 word \<Rightarrow> 16 word" msb_in msb_out "push_bit 8" "drop_bit 8" msb_small 2
  using crc_burst_msb [of "0x1021 :: 16 word"] by simp

interpretation crc32_burst: crc_burst "lsb_step 0xedb88320 :: 32 word \<Rightarrow> 32 word" lsb_in lsb_out "drop_bit 8" "push_bit 8" lsb_small 4
  using crc_burst_lsb [of "0xedb88320 :: 32 word"] by simp

interpretation crc32hf4acfb13_burst: crc_burst "lsb_step 0xc8df352f :: 32 word \<Rightarrow> 32 word" lsb_in lsb_out "drop_bit 8" "push_bit 8" lsb_small 4
  using crc_burst_lsb [of "0xc8df352f :: 32 word"] by simp

interpretation crc64_burst: crc_burst "msb_step 0x42f0e1eba9ea3693 :: 64 word \<Rightarrow> 64 word" msb_in msb_out "push_bit 8" "drop_bit 8" msb_small 8
  using crc_burst_msb [of "0x42f0e1eba9ea3693 :: 64 word"] by simp

interpretation crc64emac_burst: crc_burst "lsb_step 0xc96c5795d7870f42 :: 64 word \<Rightarrow> 64 word" lsb_in lsb_out "drop_bit 8" "push_bit 8" lsb_small 8
  using crc_burst_lsb [of "0xc96c5795d7870f42 :: 64 word"] by simp

end
