(* ===== verification/Crc_Props.thy ===== *)
theory Crc_Props
  imports Crc
begin

text \<open>
  What the checksum functions compute: the remainder of the bitwise division, the values the AUTOSAR specification gives, sums over
  the parts of a message, and the detection of burst errors.
\<close>

section \<open>The functions divide by their polynomials\<close>

lemma byte_register:
  "lsb_out v = v" "msb_out v = v" "drop_bit 8 v = 0" "push_bit 8 v = 0" for v :: u8
  by (simp_all add: lsb_out_def msb_out_def bit_eq_iff bit_simps)

lemma crc8table_lsb:
  assumes "crc_table (lsb_step p) lsb_in lsb_out (drop_bit 8) tab"
  shows "crc8table tab src v = lsb_crc p src (v XOR 0xff) XOR 0xff"
  unfolding crc8table_def lsb_crc_def crc_table.table_fold [OF assms, symmetric] by (simp add: byte_register)

lemma crc8table_msb:
  assumes "crc_table (msb_step p) msb_in msb_out (push_bit 8) tab"
  shows "crc8table tab src v = msb_crc p src (v XOR 0xff) XOR 0xff"
  unfolding crc8table_def msb_crc_def crc_table.table_fold [OF assms, symmetric] by (simp add: byte_register)

lemma crc8part_eq: "crc8part src v = lsb_crc 0xb2 src (v XOR 0xff) XOR 0xff"
  unfolding crc8part_def by (rule crc8table_lsb) unfold_locales

lemma crc8ccittpart_eq: "crc8ccittpart src v = msb_crc 0x7 src (v XOR 0xff) XOR 0xff"
  unfolding crc8ccittpart_def by (rule crc8table_msb) unfold_locales

lemma crc8rohcpart_eq: "crc8rohcpart src v = lsb_crc 0xe0 src (v XOR 0xff) XOR 0xff"
  unfolding crc8rohcpart_def by (rule crc8table_lsb) unfold_locales

lemma crc8h1d_part_eq: "crc8h1d_part src v = msb_crc 0x1d src (v XOR 0xff) XOR 0xff"
  unfolding crc8h1d_part_def by (rule crc8table_msb) unfold_locales

lemma crc8h2f_part_eq: "crc8h2f_part src v = msb_crc 0x2f src (v XOR 0xff) XOR 0xff"
  unfolding crc8h2f_part_def by (rule crc8table_msb) unfold_locales

lemma crc16ccittpart_eq: "crc16ccittpart src v = lsb_crc 0x8408 src v"
  unfolding crc16ccittpart_def lsb_crc_def crc16ccitt_tab.table_fold [symmetric] by (simp add: index_lsb xor.commute [of "drop_bit 8 _"])

lemma crc16ibmpart_eq: "crc16ibmpart src v = lsb_crc 0xa001 src v"
  unfolding crc16ibmpart_def lsb_crc_def crc16ibm_tab.table_fold [symmetric] by (simp add: index_lsb xor.commute [of "drop_bit 8 _"])

lemma crc16h8005_part_eq: "crc16h8005_part src v = lsb_crc 0xa001 src v"
  unfolding crc16h8005_part_def lsb_crc_def crc16h8005_tab.table_fold [symmetric] by (simp add: index_lsb xor.commute [of "drop_bit 8 _"])

lemma crc16xmodempart_eq: "crc16xmodempart src v = msb_crc 0x1021 src v"
  unfolding crc16xmodempart_def msb_crc_def crc16xmodem_tab.table_fold [symmetric] using index_msb [where 'a = 16] by simp

lemma crc16h1021_part_eq: "crc16h1021_part src v = msb_crc 0x1021 src v"
  unfolding crc16h1021_part_def msb_crc_def crc16h1021_tab.table_fold [symmetric] using index_msb [where 'a = 16] by simp

lemma crc32part_eq: "crc32part src v = lsb_crc 0xedb88320 src v"
  unfolding crc32part_def lsb_crc_def crc32_tab.table_fold [symmetric] by (simp add: index_lsb xor.commute [of "drop_bit 8 _"])

lemma crc32h04c11db7_part_eq: "crc32h04c11db7_part src v = lsb_crc 0xedb88320 src (v XOR 0xffffffff) XOR 0xffffffff"
  unfolding crc32h04c11db7_part_def lsb_crc_def crc32h04c11db7_tab.table_fold [symmetric] by (simp add: index_lsb xor.commute [of "drop_bit 8 _"])

lemma crc32hf4acfb13_part_eq: "crc32hf4acfb13_part src v = lsb_crc 0xc8df352f src (v XOR 0xffffffff) XOR 0xffffffff"
  unfolding crc32hf4acfb13_part_def lsb_crc_def crc32hf4acfb13_tab.table_fold [symmetric] by (simp add: index_lsb xor.commute [of "drop_bit 8 _"])

lemma crc64part_eq: "crc64part src v = msb_crc 0x42f0e1eba9ea3693 src v"
  unfolding crc64part_def msb_crc_def crc64_tab.table_fold [symmetric] using index_msb [where 'a = 64] by simp

lemma crc64emac_part_eq: "crc64emac_part src v = lsb_crc 0xc96c5795d7870f42 src (v XOR 0xffffffffffffffff) XOR 0xffffffffffffffff"
  unfolding crc64emac_part_def lsb_crc_def crc64emac_tab.table_fold [symmetric] by (simp add: index_lsb xor.commute [of "drop_bit 8 _"])

lemmas part_eqs = crc8part_eq crc8ccittpart_eq crc8rohcpart_eq crc8h1d_part_eq crc8h2f_part_eq crc16ccittpart_eq crc16ibmpart_eq crc16h8005_part_eq crc16xmodempart_eq crc16h1021_part_eq crc32part_eq crc32h04c11db7_part_eq crc32hf4acfb13_part_eq crc64part_eq crc64emac_part_eq

lemmas crc_defs = crc8_def crc8ccitt_def crc8rohc_def crc8h1d_def crc8h2f_def crc16ccitt_def crc16ibm_def crc16h8005_def crc16xmodem_def crc16h1021_def crc32_def crc32h04c11db7_def crc32hf4acfb13_def crc64_def crc64emac_def

lemma xor_twice: "(x XOR y) XOR y = x" for x y :: "'a::len word"
  by (simp add: xor.assoc)

lemma crc32_bit_eq: "crc32_bit = lsb_step 0xedb88320"
  by (simp add: fun_eq_iff crc32_bit_def lsb_step_def)

lemma crc64_bit_eq: "crc64_bit = msb_step CRC64_POLY"
  by (simp add: fun_eq_iff crc64_bit_def msb_step_def)

lemma crc32part_slow_eq: "crc32part_slow src v = lsb_crc 0xedb88320 src v"
  by (simp add: lsb_crc_def crc32part_slow_def crc32_bit_eq lsb_in_def)

lemma crc64part_slow_eq: "crc64part_slow src v = msb_crc CRC64_POLY src v"
  by (simp add: msb_crc_def crc64part_slow_def crc64_bit_eq msb_in_def)

section \<open>The properties\<close>

text \<open>The table-driven and the bitwise variants of \<open>crc32part\<close> and of \<open>crc64part\<close>, of which the configuration selects one, compute
  the same value for every message and every start value.\<close>

theorem crc_configurations_agree:
  "crc32part src v = crc32part_slow src v \<and> crc64part src w = crc64part_slow src w"
  by (simp add: crc32part_eq crc64part_eq crc32part_slow_eq crc64part_slow_eq)


text \<open>The checksum of a message can be computed part by part: the result for the first part is the start value for the second.\<close>

theorem crc_parts_compose:
  "crc8part (xs @ ys) v8 = crc8part ys (crc8part xs v8) \<and>
   crc8ccittpart (xs @ ys) v8 = crc8ccittpart ys (crc8ccittpart xs v8) \<and>
   crc8rohcpart (xs @ ys) v8 = crc8rohcpart ys (crc8rohcpart xs v8) \<and>
   crc8h1d_part (xs @ ys) v8 = crc8h1d_part ys (crc8h1d_part xs v8) \<and>
   crc8h2f_part (xs @ ys) v8 = crc8h2f_part ys (crc8h2f_part xs v8) \<and>
   crc16ccittpart (xs @ ys) v16 = crc16ccittpart ys (crc16ccittpart xs v16) \<and>
   crc16ibmpart (xs @ ys) v16 = crc16ibmpart ys (crc16ibmpart xs v16) \<and>
   crc16h8005_part (xs @ ys) v16 = crc16h8005_part ys (crc16h8005_part xs v16) \<and>
   crc16xmodempart (xs @ ys) v16 = crc16xmodempart ys (crc16xmodempart xs v16) \<and>
   crc16h1021_part (xs @ ys) v16 = crc16h1021_part ys (crc16h1021_part xs v16) \<and>
   crc32part (xs @ ys) v32 = crc32part ys (crc32part xs v32) \<and>
   crc32h04c11db7_part (xs @ ys) v32 = crc32h04c11db7_part ys (crc32h04c11db7_part xs v32) \<and>
   crc32hf4acfb13_part (xs @ ys) v32 = crc32hf4acfb13_part ys (crc32hf4acfb13_part xs v32) \<and>
   crc64part (xs @ ys) v64 = crc64part ys (crc64part xs v64) \<and>
   crc64emac_part (xs @ ys) v64 = crc64emac_part ys (crc64emac_part xs v64)"
  by (intro conjI) (simp_all add: part_eqs lsb_crc_append msb_crc_append xor_twice)

text \<open>C40: Two messages that differ only within as many consecutive bytes as the checksum has get different checksums: every function
  detects every error burst up to the width of its checksum.\<close>

theorem crc_detects_bursts:
  assumes "length as = length bs" "as \<noteq> bs"
  shows "(length bs \<le> 1 \<longrightarrow>
     crc8 (xs @ as @ ys) \<noteq> crc8 (xs @ bs @ ys) \<and>
     crc8ccitt (xs @ as @ ys) \<noteq> crc8ccitt (xs @ bs @ ys) \<and>
     crc8rohc (xs @ as @ ys) \<noteq> crc8rohc (xs @ bs @ ys) \<and>
     crc8h1d (xs @ as @ ys) \<noteq> crc8h1d (xs @ bs @ ys) \<and>
     crc8h2f (xs @ as @ ys) \<noteq> crc8h2f (xs @ bs @ ys)) \<and>
   (length bs \<le> 2 \<longrightarrow>
     crc16ccitt (xs @ as @ ys) \<noteq> crc16ccitt (xs @ bs @ ys) \<and>
     crc16ibm (xs @ as @ ys) \<noteq> crc16ibm (xs @ bs @ ys) \<and>
     crc16h8005 (xs @ as @ ys) \<noteq> crc16h8005 (xs @ bs @ ys) \<and>
     crc16xmodem (xs @ as @ ys) \<noteq> crc16xmodem (xs @ bs @ ys) \<and>
     crc16h1021 (xs @ as @ ys) \<noteq> crc16h1021 (xs @ bs @ ys)) \<and>
   (length bs \<le> 4 \<longrightarrow>
     crc32 (xs @ as @ ys) \<noteq> crc32 (xs @ bs @ ys) \<and>
     crc32h04c11db7 (xs @ as @ ys) \<noteq> crc32h04c11db7 (xs @ bs @ ys) \<and>
     crc32hf4acfb13 (xs @ as @ ys) \<noteq> crc32hf4acfb13 (xs @ bs @ ys)) \<and>
   (length bs \<le> 8 \<longrightarrow>
     crc64 (xs @ as @ ys) \<noteq> crc64 (xs @ bs @ ys) \<and>
     crc64emac (xs @ as @ ys) \<noteq> crc64emac (xs @ bs @ ys))"
proof (intro conjI impI)
  assume n8: "length bs \<le> 1"
  show "crc8 (xs @ as @ ys) \<noteq> crc8 (xs @ bs @ ys)"
    using crc8_burst.burst [OF assms(1) n8 assms(2)] by (simp add: crc8_def crc8part_eq lsb_crc_def)
  show "crc8ccitt (xs @ as @ ys) \<noteq> crc8ccitt (xs @ bs @ ys)"
    using crc8ccitt_burst.burst [OF assms(1) n8 assms(2)] by (simp add: crc8ccitt_def crc8ccittpart_eq msb_crc_def)
  show "crc8rohc (xs @ as @ ys) \<noteq> crc8rohc (xs @ bs @ ys)"
    using crc8rohc_burst.burst [OF assms(1) n8 assms(2)] by (simp add: crc8rohc_def crc8rohcpart_eq lsb_crc_def)
  show "crc8h1d (xs @ as @ ys) \<noteq> crc8h1d (xs @ bs @ ys)"
    using crc8h1d_burst.burst [OF assms(1) n8 assms(2)] by (simp add: crc8h1d_def crc8h1d_part_eq msb_crc_def)
  show "crc8h2f (xs @ as @ ys) \<noteq> crc8h2f (xs @ bs @ ys)"
    using crc8h2f_burst.burst [OF assms(1) n8 assms(2)] by (simp add: crc8h2f_def crc8h2f_part_eq msb_crc_def)
next
  assume n16: "length bs \<le> 2"
  show "crc16ccitt (xs @ as @ ys) \<noteq> crc16ccitt (xs @ bs @ ys)"
    using crc16ccitt_burst.burst [OF assms(1) n16 assms(2)] by (simp add: crc16ccitt_def crc16ccittpart_eq lsb_crc_def)
  show "crc16ibm (xs @ as @ ys) \<noteq> crc16ibm (xs @ bs @ ys)"
    using crc16ibm_burst.burst [OF assms(1) n16 assms(2)] by (simp add: crc16ibm_def crc16ibmpart_eq lsb_crc_def)
  show "crc16h8005 (xs @ as @ ys) \<noteq> crc16h8005 (xs @ bs @ ys)"
    using crc16ibm_burst.burst [OF assms(1) n16 assms(2)] by (simp add: crc16h8005_def crc16h8005_part_eq lsb_crc_def)
  show "crc16xmodem (xs @ as @ ys) \<noteq> crc16xmodem (xs @ bs @ ys)"
    using crc16xmodem_burst.burst [OF assms(1) n16 assms(2)] by (simp add: crc16xmodem_def crc16xmodempart_eq msb_crc_def)
  show "crc16h1021 (xs @ as @ ys) \<noteq> crc16h1021 (xs @ bs @ ys)"
    using crc16xmodem_burst.burst [OF assms(1) n16 assms(2)] by (simp add: crc16h1021_def crc16h1021_part_eq msb_crc_def)
next
  assume n32: "length bs \<le> 4"
  show "crc32 (xs @ as @ ys) \<noteq> crc32 (xs @ bs @ ys)"
    using crc32_burst.burst [OF assms(1) n32 assms(2)] by (simp add: crc32_def crc32part_eq lsb_crc_def)
  show "crc32h04c11db7 (xs @ as @ ys) \<noteq> crc32h04c11db7 (xs @ bs @ ys)"
    using crc32_burst.burst [OF assms(1) n32 assms(2)] by (simp add: crc32h04c11db7_def crc32h04c11db7_part_eq lsb_crc_def)
  show "crc32hf4acfb13 (xs @ as @ ys) \<noteq> crc32hf4acfb13 (xs @ bs @ ys)"
    using crc32hf4acfb13_burst.burst [OF assms(1) n32 assms(2)] by (simp add: crc32hf4acfb13_def crc32hf4acfb13_part_eq lsb_crc_def)
next
  assume n64: "length bs \<le> 8"
  show "crc64 (xs @ as @ ys) \<noteq> crc64 (xs @ bs @ ys)"
    using crc64_burst.burst [OF assms(1) n64 assms(2)] by (simp add: crc64_def crc64part_eq msb_crc_def)
  show "crc64emac (xs @ as @ ys) \<noteq> crc64emac (xs @ bs @ ys)"
    using crc64emac_burst.burst [OF assms(1) n64 assms(2)] by (simp add: crc64emac_def crc64emac_part_eq lsb_crc_def)
qed

theorem crc_detects_bursts_witness:
  "crc8 [1, 2, 3] \<noteq> crc8 [1, 5, 3] \<and> crc16xmodem [1, 2, 3] \<noteq> crc16xmodem [1, 5, 3] \<and> crc32 [1, 2, 3] \<noteq> crc32 [1, 5, 3] \<and> crc64 [1, 2, 3] \<noteq> crc64 [1, 5, 3]"
  using crc_detects_bursts [of "[2]" "[5]" "[1]" "[3]"] by simp

section \<open>Values the sources give\<close>

definition autosar_messages :: "u8 list list" where
  "autosar_messages = [
     [0x00, 0x00, 0x00, 0x00],
     [0xf2, 0x01, 0x83],
     [0x0f, 0xaa, 0x00, 0x55],
     [0x00, 0xff, 0x55, 0x11],
     [0x33, 0x22, 0x55, 0xaa, 0xbb, 0xcc, 0xdd, 0xee, 0xff],
     [0x92, 0x6b, 0x55],
     [0xff, 0xff, 0xff, 0xff]]"

lemma crc8h1d_autosar: "map crc8h1d autosar_messages = [0x59, 0x37, 0x79, 0xb8, 0xcb, 0x8c, 0x74]"
  by (simp add: autosar_messages_def crc8h1d_def crc8h1d_part_def crc8table_def crc8h1d_tab_def)

lemma crc8h2f_autosar: "map crc8h2f autosar_messages = [0x12, 0xc2, 0xc6, 0x77, 0x11, 0x33, 0x6c]"
  by (simp add: autosar_messages_def crc8h2f_def crc8h2f_part_def crc8table_def crc8h2f_tab_def)

lemma crc16h8005_autosar: "map crc16h8005 autosar_messages = [0x0000, 0xc2e1, 0x0be3, 0x6ccf, 0xae98, 0xe24e, 0x9401]"
  by (simp add: autosar_messages_def crc16h8005_def crc16h8005_part_def crc16h8005_tab_def)

lemma crc16h1021_autosar: "map crc16h1021 autosar_messages = [0x84c0, 0xd374, 0x2023, 0xb8f9, 0xf53f, 0x0745, 0x1d0f]"
  by (simp add: autosar_messages_def crc16h1021_def crc16h1021_part_def crc16h1021_tab_def)

lemma crc32h04c11db7_autosar: "map crc32h04c11db7 autosar_messages = [0x2144df1c, 0x24ab9d77, 0xb6c9b287, 0x32a06212, 0xb0ae863d, 0x9cdea29b, 0xffffffff]"
  by (simp add: autosar_messages_def crc32h04c11db7_def crc32h04c11db7_part_def crc32h04c11db7_tab_def)

lemma crc32hf4acfb13_autosar: "map crc32hf4acfb13 autosar_messages = [0x6fb32240, 0x4f721a25, 0x20662df8, 0x9bd7996e, 0xa65a343d, 0xee688a78, 0xffffffff]"
  by (simp add: autosar_messages_def crc32hf4acfb13_def crc32hf4acfb13_part_def crc32hf4acfb13_tab_def)

lemma crc64emac_autosar: "map crc64emac autosar_messages = [0xf4a586351e1b9f4b, 0x319c27668164f1c6, 0x54c5d0f7667c1575, 0xa63822be7e0704e6, 0x701eceb219a8e5d5, 0x5faa96a9b59f3e4e, 0xffffffff00000000]"
  by (simp add: autosar_messages_def crc64emac_def crc64emac_part_def crc64emac_tab_def)

lemma crc64_check: "crc64 [0x31, 0x32, 0x33, 0x34, 0x35, 0x36, 0x37, 0x38, 0x39] = 0x62ec59e3f1a4f00a"
  by (simp add: crc64_def crc64part_def crc64_tab_def)

text \<open>The functions \<open>crc8h1d\<close>, \<open>crc8h2f\<close>, \<open>crc16h1021\<close>, \<open>crc16h8005\<close>, \<open>crc32h04c11db7\<close>, \<open>crc32hf4acfb13\<close> and \<open>crc64emac\<close> give the results that
  the AUTOSAR tables at the head of their files list for seven messages, and \<open>crc64\<close> gives \<open>CRC64_CHECK\<close>.\<close>

theorem crc_documented_results:
  "map crc8h1d autosar_messages = [0x59, 0x37, 0x79, 0xb8, 0xcb, 0x8c, 0x74] \<and>
   map crc8h2f autosar_messages = [0x12, 0xc2, 0xc6, 0x77, 0x11, 0x33, 0x6c] \<and>
   map crc16h8005 autosar_messages = [0x0000, 0xc2e1, 0x0be3, 0x6ccf, 0xae98, 0xe24e, 0x9401] \<and>
   map crc16h1021 autosar_messages = [0x84c0, 0xd374, 0x2023, 0xb8f9, 0xf53f, 0x0745, 0x1d0f] \<and>
   map crc32h04c11db7 autosar_messages = [0x2144df1c, 0x24ab9d77, 0xb6c9b287, 0x32a06212, 0xb0ae863d, 0x9cdea29b, 0xffffffff] \<and>
   map crc32hf4acfb13 autosar_messages = [0x6fb32240, 0x4f721a25, 0x20662df8, 0x9bd7996e, 0xa65a343d, 0xee688a78, 0xffffffff] \<and>
   map crc64emac autosar_messages = [0xf4a586351e1b9f4b, 0x319c27668164f1c6, 0x54c5d0f7667c1575, 0xa63822be7e0704e6, 0x701eceb219a8e5d5, 0x5faa96a9b59f3e4e, 0xffffffff00000000] \<and>
   crc64 [0x31, 0x32, 0x33, 0x34, 0x35, 0x36, 0x37, 0x38, 0x39] = 0x62ec59e3f1a4f00a"
  by (intro conjI crc64_check crc8h1d_autosar crc8h2f_autosar crc16h8005_autosar crc16h1021_autosar crc32h04c11db7_autosar crc32hf4acfb13_autosar crc64emac_autosar)

section \<open>Two functions for one checksum\<close>

text \<open>
  \<open>crc8rohcincr\<close> continues the checksum of \<open>lib_crc8rohc.c\<close> by one byte without complements, while \<open>crc8rohc\<close> complements the start value
  \<open>0xff\<close> and the result in \<open>crc8table\<close>. So they disagree.
\<close>

lemma crc8rohcincr_eq: "fold crc8rohcincr src v = lsb_crc 0xe0 src v"
proof -
  have "crc8rohcincr b v = (lsb_step 0xe0 ^^ 8) (v XOR lsb_in b)" for b v
    using crc8rohc_tab.table_step [of v b] by (simp add: crc8rohcincr_def byte_register)
  then have "crc8rohcincr = (\<lambda>b v. (lsb_step 0xe0 ^^ 8) (v XOR lsb_in b))" by blast
  then show ?thesis by (simp add: lsb_crc_def)
qed

lemma crc8rohc_eq: "crc8rohc src = fold crc8rohcincr src 0 XOR 0xff"
  by (simp add: crc8rohc_def crc8rohcpart_eq crc8rohcincr_eq)

lemma crc8rohc_differs: "crc8rohc [0x31] = 0x4a" "fold crc8rohcincr [0x31] 0xff = 0x7a"
  by (simp_all add: crc8rohc_def crc8rohcpart_def crc8table_def crc8rohcincr_def crc8rohc_tab_def)

end
