(* ===== verification/Csection.thy ===== *)
theory Csection
  imports Kernel
begin

text \<open>
  Critical sections on several CPUs: \<open>enter_critical_section\<close> and \<open>leave_critical_section\<close> of \<open>sched/irq/irq_csection.c\<close>, the hand-over
  of the lock in a context switch (\<open>restore_critical_section\<close> of \<open>include/nuttx/irq.h\<close>) and in \<open>nxsched_process_delivered\<close>. The other theories
  treat a critical section as one step; here the section itself is the subject. The functions are cut at the test-and-set of the
  spinlock, between clearing \<open>g_cpu_irqset\<close> and releasing the lock, and interleaved for any number of CPUs with interrupts and context
  switches. A failed assertion is \<open>None\<close>.
\<close>

section \<open>State\<close>

text \<open>What is left to do after the lock is released, with the interrupt state to restore.\<close>

datatype after = LeaveTask bool | LeaveIrq bool | Switched

text \<open>
  Where a CPU is: outside of these functions, spinning for the lock, between taking the lock and recording it, or between clearing the
  record and releasing the lock; and the same in \<open>nxsched_process_delivered\<close>.
\<close>

datatype cpc = Run | Spin bool | Got bool | SpinD | GotD | BodyD | Clr after | Unl after

text \<open>
  \<open>irqctx\<close> is \<open>up_interrupt_context()\<close>, \<open>masked\<close> the interrupt mask of a CPU, \<open>saved\<close> the mask in the saved context of a task. The values that
  \<open>enter_critical_section\<close> returns are kept by its caller: on \<open>tflags\<close> by a task, on \<open>iflags\<close> by an interrupt handler.
\<close>

record csys =
  irqlock :: spinlock
  irqset :: u32
  nestcount :: "nat \<Rightarrow> u8"
  irqcount :: "tid \<Rightarrow> i16"
  current :: "nat \<Rightarrow> tid"
  irqctx :: "nat \<Rightarrow> bool"
  masked :: "nat \<Rightarrow> bool"
  saved :: "tid \<Rightarrow> bool"
  tflags :: "tid \<Rightarrow> bool list"
  iflags :: "nat \<Rightarrow> bool list"
  cpu_pc :: "nat \<Rightarrow> cpc"

definition go :: "nat \<Rightarrow> cpc \<Rightarrow> csys \<Rightarrow> csys" where
  "go c p s = s\<lparr>cpu_pc := (cpu_pc s)(c := p)\<rparr>"

definition cnt :: "csys \<Rightarrow> tid \<Rightarrow> int" where
  "cnt s t = sint (irqcount s t)"

definition up_irq_save :: "nat \<Rightarrow> csys \<Rightarrow> bool \<times> csys" where
  "up_irq_save c s = (masked s c, s\<lparr>masked := (masked s)(c := True)\<rparr>)"

definition up_irq_restore :: "nat \<Rightarrow> bool \<Rightarrow> csys \<Rightarrow> csys" where
  "up_irq_restore c fl s = s\<lparr>masked := (masked s)(c := fl)\<rparr>"

definition up_testset :: "csys \<Rightarrow> spinlock \<times> csys" where
  "up_testset s = (irqlock s, s\<lparr>irqlock := SP_LOCKED\<rparr>)"

definition cpu_irqlock_set :: "nat \<Rightarrow> csys \<Rightarrow> csys" where
  "cpu_irqlock_set c s = s\<lparr>irqset := irqset s OR push_bit c 1\<rparr>"

definition irq_isset :: "nat \<Rightarrow> csys \<Rightarrow> bool" where
  "irq_isset c s \<longleftrightarrow> irqset s AND push_bit c 1 \<noteq> 0"

definition set_nest :: "nat \<Rightarrow> u8 \<Rightarrow> csys \<Rightarrow> csys" where
  "set_nest c v s = s\<lparr>nestcount := (nestcount s)(c := v)\<rparr>"

definition set_irqcount :: "tid \<Rightarrow> i16 \<Rightarrow> csys \<Rightarrow> csys" where
  "set_irqcount t v s = s\<lparr>irqcount := (irqcount s)(t := v)\<rparr>"

definition push_flags :: "nat \<Rightarrow> bool \<Rightarrow> csys \<Rightarrow> csys" where
  "push_flags c f s =
     (if irqctx s c then s\<lparr>iflags := (iflags s)(c := f # iflags s c)\<rparr>
      else s\<lparr>tflags := (tflags s)(current s c := f # tflags s (current s c))\<rparr>)"

definition pop_flags :: "nat \<Rightarrow> csys \<Rightarrow> csys" where
  "pop_flags c s =
     (if irqctx s c then s\<lparr>iflags := (iflags s)(c := tl (iflags s c))\<rparr>
      else s\<lparr>tflags := (tflags s)(current s c := tl (tflags s (current s c)))\<rparr>)"

section \<open>The functions\<close>

text \<open>\<open>enter_critical_section_notrace\<close> up to the spinlock; the two nested cases need no lock and are complete.\<close>

definition enter_critical_section :: "nat \<Rightarrow> csys \<Rightarrow> csys option" where
  "enter_critical_section c s =
     (let (ret, s) = up_irq_save c s
      in if irqctx s c then
           if nestcount s c > 0 then
             (if irqlock s = SP_LOCKED \<and> nestcount s c < 255 then Some (push_flags c ret (set_nest c (nestcount s c + 1) s)) else None)
           else if \<not> irq_isset c s then Some (go c (Spin ret) s)
           else
             (let s = set_nest c 1 s
              in if irqlock s = SP_LOCKED \<and> irq_isset c s then Some (push_flags c ret s) else None)
         else
           let rtcb = current s c
           in if cnt s rtcb > 0 then
                (if irqlock s = SP_LOCKED \<and> irq_isset c s \<and> cnt s rtcb < 32767
                 then Some (push_flags c ret (set_irqcount rtcb (irqcount s rtcb + 1) s)) else None)
              else if irq_isset c s then None
              else Some (go c (Spin ret) s))"

text \<open>One turn of \<open>spin_lock_notrace\<close>.\<close>

definition spin_turn :: "nat \<Rightarrow> cpc \<Rightarrow> csys \<Rightarrow> csys" where
  "spin_turn c p s = (let (old, s) = up_testset s in if old = SP_LOCKED then s else go c p s)"

text \<open>\<open>enter_critical_section_notrace\<close> behind the spinlock.\<close>

definition enter_locked :: "nat \<Rightarrow> bool \<Rightarrow> csys \<Rightarrow> csys option" where
  "enter_locked c ret s =
     (let s = cpu_irqlock_set c s
      in if irqctx s c then
           let s = set_nest c 1 s
           in if irqlock s = SP_LOCKED \<and> irq_isset c s then Some (push_flags c ret (go c Run s)) else None
         else Some (push_flags c ret (go c Run (set_irqcount (current s c) 1 s))))"

text \<open>\<open>leave_critical_section_notrace\<close> up to \<open>cpu_irqlock_clear\<close>.\<close>

definition leave_critical_section :: "nat \<Rightarrow> bool \<Rightarrow> csys \<Rightarrow> csys option" where
  "leave_critical_section c fl s =
     (if irqctx s c then
        if nestcount s c > 1 then
          (if irqlock s = SP_LOCKED then Some (up_irq_restore c fl (set_nest c (nestcount s c - 1) s)) else None)
        else if irqlock s = SP_LOCKED \<and> nestcount s c = 1 \<and> irq_isset c s then
          (if cnt s (current s c) \<le> 0 then Some (go c (Clr (LeaveIrq fl)) s)
           else Some (up_irq_restore c fl (set_nest c 0 s)))
        else None
      else
        let rtcb = current s c
        in if \<not> 0 < cnt s rtcb then None
           else if cnt s rtcb > 1 then
             (if irqlock s = SP_LOCKED then Some (up_irq_restore c fl (set_irqcount rtcb (irqcount s rtcb - 1) s)) else None)
           else if irqlock s = SP_LOCKED \<and> irq_isset c s then Some (go c (Clr (LeaveTask fl)) (set_irqcount rtcb 0 s))
           else None)"

text \<open>\<open>cpu_irqlock_clear\<close> in two pieces, and the rest of the function that called it.\<close>

definition irqlock_clear :: "nat \<Rightarrow> after \<Rightarrow> csys \<Rightarrow> csys" where
  "irqlock_clear c a s = go c (Unl a) (s\<lparr>irqset := 0\<rparr>)"

definition irqlock_unlock :: "nat \<Rightarrow> after \<Rightarrow> csys \<Rightarrow> csys" where
  "irqlock_unlock c a s =
     (let s = go c Run (s\<lparr>irqlock := SP_UNLOCKED\<rparr>)
      in case a of
           LeaveTask fl \<Rightarrow> up_irq_restore c fl s
         | LeaveIrq fl \<Rightarrow> up_irq_restore c fl (set_nest c 0 s)
         | Switched \<Rightarrow> s)"

definition restore_critical_section :: "tid \<Rightarrow> nat \<Rightarrow> csys \<Rightarrow> csys" where
  "restore_critical_section t c s = (if cnt s t \<le> 0 \<and> irq_isset c s then go c (Clr Switched) s else s)"

text \<open>\<open>SYS_switch_context\<close>, the system call of \<open>up_switch_context\<close>: the exception saves the context of the task.\<close>

definition switch_context :: "nat \<Rightarrow> tid \<Rightarrow> csys \<Rightarrow> csys" where
  "switch_context c t s =
     restore_critical_section t c
       (s\<lparr>saved := (saved s)(current s c := masked s c), current := (current s)(c := t), irqctx := (irqctx s)(c := True)\<rparr>)"

text \<open>Taking an interrupt and returning from one: \<open>arm64_doirq\<close>. The context to return to is that of the current task.\<close>

definition irq_entry :: "nat \<Rightarrow> csys \<Rightarrow> csys" where
  "irq_entry c s =
     s\<lparr>saved := (saved s)(current s c := masked s c), irqctx := (irqctx s)(c := True), masked := (masked s)(c := True)\<rparr>"

definition irq_return :: "nat \<Rightarrow> csys \<Rightarrow> csys" where
  "irq_return c s = s\<lparr>irqctx := (irqctx s)(c := False), masked := (masked s)(c := saved s (current s c))\<rparr>"

text \<open>\<open>nxsched_process_delivered\<close>: before the lock, recording it, and the rest with the task that \<open>nxsched_switch_running\<close> selects.\<close>

definition process_delivered :: "nat \<Rightarrow> csys \<Rightarrow> csys option" where
  "process_delivered c s =
     (if nestcount s c = 0 \<and> irqctx s c then Some (go c (if \<not> irq_isset c s then SpinD else BodyD) s) else None)"

definition delivered_locked :: "nat \<Rightarrow> csys \<Rightarrow> csys" where
  "delivered_locked c s = go c BodyD (cpu_irqlock_set c s)"

definition delivered_switch :: "nat \<Rightarrow> tid \<Rightarrow> csys \<Rightarrow> csys" where
  "delivered_switch c t s =
     (let s = s\<lparr>current := (current s)(c := t)\<rparr>
      in go c (if cnt s t \<le> 0 then Clr Switched else Run) s)"

section \<open>Interleaving\<close>

text \<open>
  One piece on one CPU. A task leaves only a section that it has entered; it is switched only inside of a critical section; a handler
  changes the current task only inside of one. The task that is switched to runs on no other CPU.
\<close>

definition startable :: "nat \<Rightarrow> nat \<Rightarrow> tid \<Rightarrow> csys \<Rightarrow> bool" where
  "startable n c t s \<longleftrightarrow> (\<forall>d < n. d \<noteq> c \<longrightarrow> current s d \<noteq> t)"

inductive cs_step :: "nat \<Rightarrow> csys \<Rightarrow> csys \<Rightarrow> bool" for n :: nat where
  s_enter: "c < n \<Longrightarrow> cpu_pc s c = Run \<Longrightarrow> enter_critical_section c s = Some s' \<Longrightarrow> cs_step n s s'"
| s_spin: "c < n \<Longrightarrow> cpu_pc s c = Spin f \<Longrightarrow> cs_step n s (spin_turn c (Got f) s)"
| s_locked: "c < n \<Longrightarrow> cpu_pc s c = Got f \<Longrightarrow> enter_locked c f s = Some s' \<Longrightarrow> cs_step n s s'"
| s_leave_irq: "c < n \<Longrightarrow> cpu_pc s c = Run \<Longrightarrow> irqctx s c \<Longrightarrow> iflags s c = f # fs \<Longrightarrow>
    leave_critical_section c f (pop_flags c s) = Some s' \<Longrightarrow> cs_step n s s'"
| s_leave_task: "c < n \<Longrightarrow> cpu_pc s c = Run \<Longrightarrow> \<not> irqctx s c \<Longrightarrow> tflags s (current s c) = f # fs \<Longrightarrow>
    leave_critical_section c f (pop_flags c s) = Some s' \<Longrightarrow> cs_step n s s'"
| s_clear: "c < n \<Longrightarrow> cpu_pc s c = Clr a \<Longrightarrow> cs_step n s (irqlock_clear c a s)"
| s_unlock: "c < n \<Longrightarrow> cpu_pc s c = Unl a \<Longrightarrow> cs_step n s (irqlock_unlock c a s)"
| s_irq: "c < n \<Longrightarrow> cpu_pc s c = Run \<Longrightarrow> \<not> masked s c \<Longrightarrow> cs_step n s (irq_entry c s)"
| s_return: "c < n \<Longrightarrow> cpu_pc s c = Run \<Longrightarrow> irqctx s c \<Longrightarrow> nestcount s c = 0 \<Longrightarrow> cs_step n s (irq_return c s)"
| s_switch: "c < n \<Longrightarrow> cpu_pc s c = Run \<Longrightarrow> \<not> irqctx s c \<Longrightarrow> 0 < cnt s (current s c) \<Longrightarrow> startable n c t s \<Longrightarrow>
    cs_step n s (switch_context c t s)"
| s_resched: "c < n \<Longrightarrow> cpu_pc s c = Run \<Longrightarrow> irqctx s c \<Longrightarrow> 0 < nestcount s c \<Longrightarrow> startable n c t s \<Longrightarrow>
    cs_step n s (s\<lparr>current := (current s)(c := t)\<rparr>)"
| s_deliver: "c < n \<Longrightarrow> cpu_pc s c = Run \<Longrightarrow> irqctx s c \<Longrightarrow> nestcount s c = 0 \<Longrightarrow> process_delivered c s = Some s' \<Longrightarrow> cs_step n s s'"
| s_spin_d: "c < n \<Longrightarrow> cpu_pc s c = SpinD \<Longrightarrow> cs_step n s (spin_turn c GotD s)"
| s_locked_d: "c < n \<Longrightarrow> cpu_pc s c = GotD \<Longrightarrow> cs_step n s (delivered_locked c s)"
| s_body_d: "c < n \<Longrightarrow> cpu_pc s c = BodyD \<Longrightarrow> startable n c t s \<Longrightarrow> cs_step n s (delivered_switch c t s)"

definition cs_init :: "csys" where
  "cs_init = \<lparr>irqlock = SP_UNLOCKED, irqset = 0, nestcount = (\<lambda>_. 0), irqcount = (\<lambda>_. 0), current = (\<lambda>c. c), irqctx = (\<lambda>_. False),
     masked = (\<lambda>_. False), saved = (\<lambda>_. False), tflags = (\<lambda>_. []), iflags = (\<lambda>_. []), cpu_pc = (\<lambda>_. Run)\<rparr>"

inductive cs_reach :: "nat \<Rightarrow> csys \<Rightarrow> bool" for n :: nat where
  cs_start: "cs_reach n cs_init"
| cs_next: "cs_reach n s \<Longrightarrow> cs_step n s s' \<Longrightarrow> cs_reach n s'"

section \<open>Counts and bits\<close>

lemma count_inc:
  fixes v :: i16
  shows "sint v < 32767 \<Longrightarrow> sint (v + 1) = sint v + 1" "0 < sint v \<Longrightarrow> sint (v - 1) = sint v - 1"
proof -
  have r: "- 32768 \<le> sint v" "sint v < 32768" using sint_ge [of v] sint_lt [of v] by simp_all
  show "sint v < 32767 \<Longrightarrow> sint (v + 1) = sint v + 1" "0 < sint v \<Longrightarrow> sint (v - 1) = sint v - 1"
    using r by (simp_all add: sint_word_ariths signed_take_bit_int_eq_self)
qed

lemma nest_inc:
  fixes v :: u8
  shows "v < 255 \<Longrightarrow> unat (v + 1) = unat v + 1" "0 < v \<Longrightarrow> unat (v - 1) = unat v - 1"
  by (simp_all add: unat_word_ariths word_less_nat_alt unat_sub word_le_nat_alt)

lemma irq_isset_iff: "c < 32 \<Longrightarrow> irq_isset c s \<longleftrightarrow> bit (irqset s) c"
proof -
  assume "c < 32"
  have "irqset s AND push_bit c 1 = (if bit (irqset s) c then push_bit c 1 else 0)"
    by (rule bit_word_eqI) (auto simp: bit_simps)
  moreover have "push_bit c 1 \<noteq> (0 :: u32)" using \<open>c < 32\<close> by (simp add: push_bit_eq_mult)
  ultimately show ?thesis by (simp add: irq_isset_def)
qed

lemma isset_set: "c < 32 \<Longrightarrow> d < 32 \<Longrightarrow> irq_isset d (cpu_irqlock_set c s) \<longleftrightarrow> d = c \<or> irq_isset d s"
  by (auto simp: irq_isset_iff cpu_irqlock_set_def bit_simps)

lemma isset_0 [simp]: "\<not> irq_isset d (s\<lparr>irqset := 0\<rparr>)"
  by (simp add: irq_isset_def)

lemma isset_frame [simp]:
  "irq_isset d (go c p s) = irq_isset d s"
  "irq_isset d (s\<lparr>irqlock := l\<rparr>) = irq_isset d s"
  "irq_isset d (s\<lparr>masked := x\<rparr>) = irq_isset d s"
  "irq_isset d (set_nest c v s) = irq_isset d s"
  "irq_isset d (set_irqcount t w s) = irq_isset d s"
  "irq_isset d (push_flags c f s) = irq_isset d s"
  "irq_isset d (pop_flags c s) = irq_isset d s"
  "irq_isset d (up_irq_restore c f s) = irq_isset d s"
  "irq_isset d (s\<lparr>current := y\<rparr>) = irq_isset d s"
  "irq_isset d (s\<lparr>irqctx := z\<rparr>) = irq_isset d s"
  "irq_isset d (s\<lparr>saved := u\<rparr>) = irq_isset d s"
  by (simp_all add: irq_isset_def go_def set_nest_def set_irqcount_def push_flags_def pop_flags_def up_irq_restore_def)

section \<open>Invariant\<close>

text \<open>The CPU has the lock: recorded in \<open>g_cpu_irqset\<close>, not yet recorded, or no longer.\<close>

definition own :: "csys \<Rightarrow> nat \<Rightarrow> bool" where
  "own s c \<longleftrightarrow> irq_isset c s \<or> (case cpu_pc s c of Got _ \<Rightarrow> True | GotD \<Rightarrow> True | Unl _ \<Rightarrow> True | _ \<Rightarrow> False)"

fun after_ok :: "csys \<Rightarrow> nat \<Rightarrow> after \<Rightarrow> bool" where
  "after_ok s c (LeaveTask f) \<longleftrightarrow> nestcount s c = 0 \<and> \<not> irqctx s c \<and> iflags s c = []"
| "after_ok s c (LeaveIrq f) \<longleftrightarrow> nestcount s c = 1 \<and> irqctx s c \<and> f \<and> iflags s c = []"
| "after_ok s c Switched \<longleftrightarrow> nestcount s c = 0 \<and> irqctx s c \<and> iflags s c = []"

definition unlocked :: "csys \<Rightarrow> nat \<Rightarrow> bool" where
  "unlocked s c \<longleftrightarrow> \<not> irq_isset c s \<and> nestcount s c = 0 \<and> cnt s (current s c) = 0 \<and> iflags s c = []"

definition pc_ok :: "csys \<Rightarrow> nat \<Rightarrow> bool" where
  "pc_ok s c \<longleftrightarrow>
     (case cpu_pc s c of
        Run \<Rightarrow> (irq_isset c s \<longleftrightarrow> 0 < nestcount s c \<or> 0 < cnt s (current s c)) \<and> length (iflags s c) = unat (nestcount s c)
      | Spin f \<Rightarrow> unlocked s c \<and> (irqctx s c \<longrightarrow> f)
      | Got f \<Rightarrow> unlocked s c \<and> (irqctx s c \<longrightarrow> f)
      | SpinD \<Rightarrow> unlocked s c \<and> irqctx s c
      | GotD \<Rightarrow> unlocked s c \<and> irqctx s c
      | BodyD \<Rightarrow> irq_isset c s \<and> nestcount s c = 0 \<and> irqctx s c \<and> iflags s c = []
      | Clr a \<Rightarrow> irq_isset c s \<and> cnt s (current s c) = 0 \<and> after_ok s c a
      | Unl a \<Rightarrow> \<not> irq_isset c s \<and> cnt s (current s c) = 0 \<and> after_ok s c a)"

definition cpu_ok :: "csys \<Rightarrow> nat \<Rightarrow> bool" where
  "cpu_ok s c \<longleftrightarrow> pc_ok s c \<and>
     (irqctx s c \<or> cpu_pc s c \<noteq> Run \<or> 0 < cnt s (current s c) \<longrightarrow> masked s c) \<and>
     (0 < nestcount s c \<longrightarrow> irqctx s c) \<and> False \<notin> set (iflags s c)"

definition ctask_ok :: "nat \<Rightarrow> csys \<Rightarrow> tid \<Rightarrow> bool" where
  "ctask_ok n s t \<longleftrightarrow> 0 \<le> cnt s t \<and> length (tflags s t) = nat (cnt s t) \<and> False \<notin> set (butlast (tflags s t)) \<and>
     (0 < cnt s t \<longrightarrow> saved s t \<or> (\<exists>c < n. current s c = t \<and> \<not> irqctx s c))"

definition cs_inv :: "nat \<Rightarrow> csys \<Rightarrow> bool" where
  "cs_inv n s \<longleftrightarrow> (\<forall>c < n. cpu_ok s c) \<and> (\<forall>t. ctask_ok n s t) \<and> inj_on (current s) {..<n} \<and>
     (irqlock s = SP_LOCKED \<longleftrightarrow> (\<exists>c < n. own s c)) \<and> (\<forall>c < n. \<forall>d < n. own s c \<longrightarrow> own s d \<longrightarrow> c = d)"

text \<open>What a piece on the CPU \<open>c\<close> leaves alone, and what it does to the lock.\<close>

definition frame :: "nat \<Rightarrow> nat \<Rightarrow> csys \<Rightarrow> csys \<Rightarrow> bool" where
  "frame n c s s' \<longleftrightarrow>
     (\<forall>d < n. d \<noteq> c \<longrightarrow> cpu_pc s' d = cpu_pc s d \<and> nestcount s' d = nestcount s d \<and> irqctx s' d = irqctx s d \<and>
        masked s' d = masked s d \<and> iflags s' d = iflags s d \<and> current s' d = current s d \<and> irq_isset d s' = irq_isset d s \<and>
        cnt s' (current s d) = cnt s (current s d) \<and> current s' c \<noteq> current s d)"

lemma cpu_ok_frame: "frame n c s s' \<Longrightarrow> d < n \<Longrightarrow> d \<noteq> c \<Longrightarrow> cpu_ok s' d = cpu_ok s d \<and> own s' d = own s d"
proof -
  assume *: "frame n c s s'" "d < n" "d \<noteq> c"
  have "after_ok s' d a = after_ok s d a" for a using * by (cases a) (auto simp: frame_def)
  then show ?thesis using * by (auto simp: frame_def cpu_ok_def pc_ok_def own_def unlocked_def split: cpc.splits)
qed

lemma cs_invI:
  assumes inv: "cs_inv n s" and c: "c < n" and fr: "frame n c s s'" and me: "cpu_ok s' c" and tasks: "\<And>t. ctask_ok n s' t"
    and lock: "own s' c = own s c \<and> irqlock s' = irqlock s \<or> irqlock s = SP_UNLOCKED \<and> irqlock s' = SP_LOCKED \<and> own s' c \<or>
      own s c \<and> \<not> own s' c \<and> irqlock s' = SP_UNLOCKED"
  shows "cs_inv n s'"
proof -
  have others: "cpu_ok s' d = cpu_ok s d" "own s' d = own s d" if "d < n" "d \<noteq> c" for d
    using cpu_ok_frame [OF fr that] by simp_all
  have old: "\<And>d. d < n \<Longrightarrow> cpu_ok s d" "irqlock s = SP_LOCKED \<longleftrightarrow> (\<exists>d < n. own s d)" "inj_on (current s) {..<n}"
    "\<And>d e. d < n \<Longrightarrow> e < n \<Longrightarrow> own s d \<Longrightarrow> own s e \<Longrightarrow> d = e"
    using inv by (auto simp: cs_inv_def)
  have "cpu_ok s' d" if "d < n" for d using others(1) [OF that] me old(1) [OF that] by (cases "d = c") simp_all
  moreover have "inj_on (current s') {..<n}"
  proof (rule inj_onI)
    fix d e assume *: "d \<in> {..<n}" "e \<in> {..<n}" "current s' d = current s' e"
    then have "d \<noteq> c \<Longrightarrow> e \<noteq> c \<Longrightarrow> current s d = current s e" "d \<noteq> c \<Longrightarrow> current s' c \<noteq> current s' d"
      "e \<noteq> c \<Longrightarrow> current s' c \<noteq> current s' e"
      using fr by (auto simp: frame_def)
    then show "d = e" using * old(3) by (cases "d = c"; cases "e = c") (auto dest: inj_onD)
  qed
  moreover have "(irqlock s' = SP_LOCKED \<longleftrightarrow> (\<exists>d < n. own s' d)) \<and> (\<forall>d < n. \<forall>e < n. own s' d \<longrightarrow> own s' e \<longrightarrow> d = e)"
    using lock
  proof (elim disjE conjE)
    assume *: "own s' c = own s c" "irqlock s' = irqlock s"
    have "own s' d = own s d" if "d < n" for d using others(2) [OF that] * by (cases "d = c") simp_all
    then show ?thesis using old(2,4) * by auto
  next
    assume *: "irqlock s = SP_UNLOCKED" "irqlock s' = SP_LOCKED" "own s' c"
    have "own s' d \<longleftrightarrow> d = c" if "d < n" for d using others(2) [OF that] old(2) * that by (cases "d = c") auto
    then show ?thesis using * c by auto
  next
    assume *: "own s c" "\<not> own s' c" "irqlock s' = SP_UNLOCKED"
    have "\<not> own s' d" if "d < n" for d using others(2) [OF that] old(4) [OF that c] * by (cases "d = c") auto
    then show ?thesis using * by auto
  qed
  ultimately show ?thesis using tasks unfolding cs_inv_def by blast
qed

lemma cs_invD:
  assumes "cs_inv n s"
  shows "c < n \<Longrightarrow> cpu_ok s c" "ctask_ok n s t" "irqlock s = SP_LOCKED \<longleftrightarrow> (\<exists>c < n. own s c)"
    "c < n \<Longrightarrow> d < n \<Longrightarrow> d \<noteq> c \<Longrightarrow> current s d \<noteq> current s c" "c < n \<Longrightarrow> d < n \<Longrightarrow> d \<noteq> c \<Longrightarrow> own s c \<Longrightarrow> \<not> irq_isset d s"
proof -
  have inv: "\<forall>c < n. cpu_ok s c" "\<forall>t. ctask_ok n s t" "inj_on (current s) {..<n}" "irqlock s = SP_LOCKED \<longleftrightarrow> (\<exists>c < n. own s c)"
    "\<forall>c < n. \<forall>d < n. own s c \<longrightarrow> own s d \<longrightarrow> c = d"
    using assms unfolding cs_inv_def by blast+
  show "c < n \<Longrightarrow> cpu_ok s c" "ctask_ok n s t" "irqlock s = SP_LOCKED \<longleftrightarrow> (\<exists>c < n. own s c)"
    using inv(1,2,4) by blast+
  show "c < n \<Longrightarrow> d < n \<Longrightarrow> d \<noteq> c \<Longrightarrow> current s d \<noteq> current s c"
    using inj_onD [OF inv(3), of d c] by auto
  assume "c < n" "d < n" "d \<noteq> c" "own s c"
  then have "\<not> own s d" using inv(5) by blast
  then show "\<not> irq_isset d s" by (simp add: own_def)
qed

lemma cs_other:
  "cs_inv n s \<Longrightarrow> c < n \<Longrightarrow> d < n \<Longrightarrow> d \<noteq> c \<Longrightarrow> current s c \<noteq> current s d"
  "cs_inv n s \<Longrightarrow> c < n \<Longrightarrow> d < n \<Longrightarrow> d \<noteq> c \<Longrightarrow> current s d \<noteq> current s c"
  using cs_invD(4) by blast+

lemma task_ok_frame:
  assumes "ctask_ok n s t" "cnt s' t = cnt s t" "tflags s' t = tflags s t" "0 < cnt s t \<Longrightarrow> saved s t \<Longrightarrow> saved s' t"
    "\<And>d. 0 < cnt s t \<Longrightarrow> d < n \<Longrightarrow> current s d = t \<Longrightarrow> \<not> irqctx s d \<Longrightarrow> saved s' t \<or> current s' d = t \<and> \<not> irqctx s' d"
  shows "ctask_ok n s' t"
proof -
  have "saved s' t \<or> (\<exists>c < n. current s' c = t \<and> \<not> irqctx s' c)" if "0 < cnt s t"
    using assms(1,4,5) that unfolding ctask_ok_def by blast
  then show ?thesis using assms(1-3) by (simp add: ctask_ok_def)
qed

lemmas cs_defs = go_def cnt_def up_irq_save_def up_irq_restore_def up_testset_def cpu_irqlock_set_def set_nest_def set_irqcount_def
  push_flags_def pop_flags_def

text \<open>A piece that changes nothing but the position of the CPU, its interrupt mask and the flags its handler keeps.\<close>

lemma inv_go:
  assumes inv: "cs_inv n s" and c: "c < n" and s': "s' = s\<lparr>cpu_pc := (cpu_pc s)(c := p), masked := (masked s)(c := m), iflags := (iflags s)(c := fs)\<rparr>"
    and me: "cpu_ok s' c" "own s' c = own s c"
  shows "cs_inv n s'"
proof (rule cs_invI [OF inv c])
  show "frame n c s s'"
    unfolding frame_def by (intro allI impI) (simp add: s' irq_isset_def cnt_def cs_other [OF inv c])
  show "ctask_ok n s' t" for t by (rule task_ok_frame [OF cs_invD(2) [OF inv]]) (auto simp: s' cnt_def)
  show "own s' c = own s c \<and> irqlock s' = irqlock s \<or> irqlock s = SP_UNLOCKED \<and> irqlock s' = SP_LOCKED \<and> own s' c \<or>
      own s c \<and> \<not> own s' c \<and> irqlock s' = SP_UNLOCKED"
    using me by (simp add: s')
qed (rule me)

text \<open>A piece in an interrupt handler that changes the nesting count.\<close>

lemma inv_nest:
  assumes inv: "cs_inv n s" and c: "c < n" and run: "cpu_pc s c = Run" "irqctx s c" and has: "irq_isset c s"
    and s': "s' = s\<lparr>nestcount := (nestcount s)(c := v), iflags := (iflags s)(c := fs), masked := (masked s)(c := True)\<rparr>"
    and v: "length fs = unat v" "0 < v \<or> 0 < cnt s (current s c)" "False \<notin> set fs"
  shows "cs_inv n s'"
proof (rule cs_invI [OF inv c])
  show "frame n c s s'"
    unfolding frame_def by (intro allI impI) (simp add: s' irq_isset_def cnt_def cs_other [OF inv c])
  show "ctask_ok n s' t" for t by (rule task_ok_frame [OF cs_invD(2) [OF inv]]) (auto simp: s' cnt_def)
  have own: "own s' c = own s c" by (simp add: own_def s' irq_isset_def)
  then show "own s' c = own s c \<and> irqlock s' = irqlock s \<or> irqlock s = SP_UNLOCKED \<and> irqlock s' = SP_LOCKED \<and> own s' c \<or>
      own s c \<and> \<not> own s' c \<and> irqlock s' = SP_UNLOCKED"
    by (simp add: s')
  show "cpu_ok s' c"
    using v has run by (simp add: cpu_ok_def pc_ok_def s' irq_isset_def cnt_def)
qed

text \<open>A piece of the current task that changes its count.\<close>

lemma inv_count:
  assumes inv: "cs_inv n s" and c: "c < n" and run: "cpu_pc s c = Run" "\<not> irqctx s c" and has: "irq_isset c s"
    and s': "s' = s\<lparr>irqcount := (irqcount s)(current s c := v), tflags := (tflags s)(current s c := fs), masked := (masked s)(c := True)\<rparr>"
    and v: "0 < sint v" "length fs = nat (sint v)" "False \<notin> set (butlast fs)"
  shows "cs_inv n s'"
proof (rule cs_invI [OF inv c])
  show "frame n c s s'"
    unfolding frame_def by (intro allI impI) (simp add: s' irq_isset_def cnt_def cs_other [OF inv c])
  show "ctask_ok n s' t" for t
  proof (cases "t = current s c")
    case True
    then show ?thesis using v run c by (auto simp: ctask_ok_def s' cnt_def)
  next
    case False
    then show ?thesis by (intro task_ok_frame [OF cs_invD(2) [OF inv]]) (auto simp: s' cnt_def)
  qed
  have own: "own s' c = own s c" by (simp add: own_def s' irq_isset_def)
  then show "own s' c = own s c \<and> irqlock s' = irqlock s \<or> irqlock s = SP_UNLOCKED \<and> irqlock s' = SP_LOCKED \<and> own s' c \<or>
      own s c \<and> \<not> own s' c \<and> irqlock s' = SP_UNLOCKED"
    by (simp add: s')
  show "cpu_ok s' c"
    using v has run cs_invD(1) [OF inv c] by (simp add: cpu_ok_def pc_ok_def s' irq_isset_def cnt_def)
qed

section \<open>Every piece keeps the invariant\<close>

lemma run_ok:
  assumes "cs_inv n s" "c < n" "cpu_pc s c = Run"
  shows "irq_isset c s \<longleftrightarrow> 0 < nestcount s c \<or> 0 < cnt s (current s c)" "length (iflags s c) = unat (nestcount s c)"
    "irqctx s c \<or> 0 < cnt s (current s c) \<Longrightarrow> masked s c" "0 < nestcount s c \<Longrightarrow> irqctx s c" "False \<notin> set (iflags s c)"
    "0 \<le> cnt s (current s c)"
  using cs_invD(1) [OF assms(1,2)] cs_invD(2) [OF assms(1), of "current s c"] assms(3)
  by (auto simp: cpu_ok_def pc_ok_def ctask_ok_def)

lemma inv_enter:
  assumes inv: "cs_inv n s" and c: "c < n" and run: "cpu_pc s c = Run" and s': "enter_critical_section c s = Some s'"
  shows "cs_inv n s'"
proof -
  note ok = run_ok [OF inv c run]
  define s1 where "s1 = s\<lparr>masked := (masked s)(c := True)\<rparr>"
  have sel: "irqctx s1 = irqctx s" "nestcount s1 = nestcount s" "irqlock s1 = irqlock s" "current s1 = current s" "irqcount s1 = irqcount s"
    "irq_isset c s1 = irq_isset c s" "cnt s1 = cnt s"
    by (simp_all add: s1_def irq_isset_def cnt_def fun_eq_iff)
  note enter = s' [unfolded enter_critical_section_def up_irq_save_def s1_def [symmetric] Let_def prod.case sel]
  have spin: "cs_inv n (go c (Spin (masked s c)) s1)" if no: "\<not> irq_isset c s"
  proof -
    have "nestcount s c = 0" "cnt s (current s c) = 0" using ok(1,6) no by (auto simp: word_gt_0)
    moreover have eq: "go c (Spin (masked s c)) s1 =
        s\<lparr>cpu_pc := (cpu_pc s)(c := Spin (masked s c)), masked := (masked s)(c := True), iflags := (iflags s)(c := iflags s c)\<rparr>"
      by (rule csys.equality) (simp_all add: go_def s1_def)
    ultimately show ?thesis
      using ok(2,3) no
      by (intro inv_go [OF inv c eq]) (auto simp: cpu_ok_def pc_ok_def unlocked_def own_def irq_isset_def cnt_def run)
  qed
  show ?thesis
  proof (cases "irqctx s c")
    case irq: True
    then have m: "masked s c" using ok(3) by simp
    have nest: "cs_inv n (push_flags c True (set_nest c v s1))" if "irq_isset c s" "unat v = Suc (unat (nestcount s c))" for v
    proof (rule inv_nest [OF inv c run irq that(1), where v = v and fs = "True # iflags s c"])
      show "0 < v \<or> 0 < cnt s (current s c)" using that(2) by (simp add: word_less_nat_alt)
    qed (use that ok(2,5) irq in \<open>simp_all add: push_flags_def set_nest_def s1_def\<close>)
    consider "0 < nestcount s c" | "nestcount s c = 0" "\<not> irq_isset c s" | "nestcount s c = 0" "irq_isset c s"
      by (auto simp: word_gt_0)
    then show ?thesis
    proof cases
      case 1
      then show ?thesis using enter irq m ok(1) nest [of "nestcount s c + 1"] nest_inc(1) [of "nestcount s c"] by (auto split: if_splits)
    next
      case 2
      then show ?thesis using enter irq spin by simp
    next
      case 3
      then show ?thesis using enter irq m nest [of 1] by (auto split: if_splits)
    qed
  next
    case task: False
    show ?thesis
    proof (cases "0 < cnt s (current s c)")
      case True
      define v fs where "v = irqcount s (current s c) + 1" and "fs = tflags s (current s c)"
      have m: "masked s c" "irq_isset c s" and lt: "cnt s (current s c) < 32767"
        and eq: "s' = push_flags c True (set_irqcount (current s c) v s1)"
        using enter task True ok(1,3) by (auto simp: v_def split: if_splits)
      have v: "sint v = cnt s (current s c) + 1" using count_inc(1) lt by (simp add: v_def cnt_def)
      have fs: "length fs = nat (cnt s (current s c))" "False \<notin> set (butlast fs)"
        using cs_invD(2) [OF inv, of "current s c"] by (simp_all add: ctask_ok_def fs_def)
      show ?thesis
        by (rule inv_count [OF inv c run task m(2), where v = v and fs = "True # fs"])
          (use v fs True task in \<open>auto simp: eq push_flags_def set_irqcount_def s1_def fs_def\<close>)
    next
      case False
      then show ?thesis using enter task spin by (auto split: if_splits)
    qed
  qed
qed

lemma inv_spin:
  assumes inv: "cs_inv n s" and c: "c < n" and at: "cpu_pc s c = Spin f \<and> p = Got f \<or> cpu_pc s c = SpinD \<and> p = GotD"
  shows "cs_inv n (spin_turn c p s)"
proof (cases "irqlock s")
  case SP_LOCKED
  then have "spin_turn c p s = s" by (simp add: spin_turn_def up_testset_def)
  then show ?thesis using inv by simp
next
  case SP_UNLOCKED
  define s' where "s' = s\<lparr>irqlock := SP_LOCKED, cpu_pc := (cpu_pc s)(c := p)\<rparr>"
  have "cs_inv n s'"
  proof (rule cs_invI [OF inv c])
    show "frame n c s s'"
      unfolding frame_def by (intro allI impI) (simp add: s'_def irq_isset_def cnt_def cs_other [OF inv c])
    show "ctask_ok n s' t" for t by (rule task_ok_frame [OF cs_invD(2) [OF inv]]) (auto simp: s'_def cnt_def)
    show "cpu_ok s' c"
      using cs_invD(1) [OF inv c] at by (auto simp: cpu_ok_def pc_ok_def unlocked_def s'_def irq_isset_def cnt_def)
    show "own s' c = own s c \<and> irqlock s' = irqlock s \<or> irqlock s = SP_UNLOCKED \<and> irqlock s' = SP_LOCKED \<and> own s' c \<or>
        own s c \<and> \<not> own s' c \<and> irqlock s' = SP_UNLOCKED"
      using SP_UNLOCKED at by (auto simp: s'_def own_def)
  qed
  then show ?thesis using SP_UNLOCKED by (simp add: spin_turn_def up_testset_def go_def s'_def)
qed

lemma inv_locked:
  assumes n: "n \<le> 32" and inv: "cs_inv n s" and c: "c < n" and at: "cpu_pc s c = Got f" and s': "enter_locked c f s = Some s'"
  shows "cs_inv n s'"
proof -
  have set: "irq_isset d (s\<lparr>irqset := irqset s OR push_bit c 1\<rparr>) \<longleftrightarrow> d = c \<or> irq_isset d s" if "d < n" for d
    using isset_set [of c d s] n c that by (simp add: cpu_irqlock_set_def)
  then have isset: "irq_isset d x \<longleftrightarrow> d = c \<or> irq_isset d s" if "d < n" "irqset x = irqset s OR push_bit c 1" for d x
    using that by (simp add: irq_isset_def)
  have ok: "unlocked s c" "irqctx s c \<Longrightarrow> f" "masked s c" using cs_invD(1) [OF inv c] at by (auto simp: cpu_ok_def pc_ok_def)
  have tf: "tflags s (current s c) = []"
    using cs_invD(2) [OF inv, of "current s c"] ok(1) by (simp add: ctask_ok_def unlocked_def)
  have eq: "irqset s' = irqset s OR push_bit c 1" "irqlock s' = irqlock s" "cpu_pc s' = (cpu_pc s)(c := Run)" "current s' = current s"
    "irqctx s' = irqctx s" "masked s' = masked s" "saved s' = saved s"
    "nestcount s' = (if irqctx s c then (nestcount s)(c := 1) else nestcount s)"
    "iflags s' = (if irqctx s c then (iflags s)(c := f # iflags s c) else iflags s)"
    "irqcount s' = (if irqctx s c then irqcount s else (irqcount s)(current s c := 1))"
    "tflags s' = (if irqctx s c then tflags s else (tflags s)(current s c := f # tflags s (current s c)))"
    using s' by (auto simp: enter_locked_def Let_def cs_defs split: if_splits)
  have cnt': "cnt s' t = (if \<not> irqctx s c \<and> t = current s c then 1 else cnt s t)" for t
    by (simp add: cnt_def eq(10))
  show ?thesis
  proof (rule cs_invI [OF inv c])
    show "frame n c s s'"
      unfolding frame_def by (intro allI impI) (simp add: eq isset cnt' cs_other [OF inv c])
    show "ctask_ok n s' t" for t
    proof (cases "\<not> irqctx s c \<and> t = current s c")
      case True
      then show ?thesis using c tf by (auto simp: ctask_ok_def cnt' eq)
    next
      case False
      then show ?thesis by (intro task_ok_frame [OF cs_invD(2) [OF inv]]) (auto simp: eq cnt')
    qed
    show "cpu_ok s' c"
      using ok c by (auto simp: cpu_ok_def pc_ok_def eq isset cnt' unlocked_def)
    show "own s' c = own s c \<and> irqlock s' = irqlock s \<or> irqlock s = SP_UNLOCKED \<and> irqlock s' = SP_LOCKED \<and> own s' c \<or>
        own s c \<and> \<not> own s' c \<and> irqlock s' = SP_UNLOCKED"
      using at c by (simp add: own_def eq isset)
  qed
qed

lemma inv_locked_d:
  assumes n: "n \<le> 32" and inv: "cs_inv n s" and c: "c < n" and at: "cpu_pc s c = GotD"
  shows "cs_inv n (delivered_locked c s)"
proof -
  define s' where "s' = delivered_locked c s"
  have isset: "irq_isset d s' \<longleftrightarrow> d = c \<or> irq_isset d s" if "d < n" for d
    using isset_set [of c d s] n c that by (simp add: s'_def delivered_locked_def)
  have eq: "cpu_pc s' = (cpu_pc s)(c := BodyD)" "irqlock s' = irqlock s" "current s' = current s"
    "irqctx s' = irqctx s" "masked s' = masked s" "saved s' = saved s" "nestcount s' = nestcount s" "iflags s' = iflags s"
    "cnt s' = cnt s" "tflags s' = tflags s"
    by (simp_all add: s'_def delivered_locked_def cs_defs fun_eq_iff)
  have "cs_inv n s'"
  proof (rule cs_invI [OF inv c])
    show "frame n c s s'" unfolding frame_def by (intro allI impI) (simp add: eq isset cs_other [OF inv c])
    show "ctask_ok n s' t" for t by (intro task_ok_frame [OF cs_invD(2) [OF inv]]) (auto simp: eq)
    show "cpu_ok s' c" using cs_invD(1) [OF inv c] at c by (auto simp: cpu_ok_def pc_ok_def eq isset unlocked_def)
    show "own s' c = own s c \<and> irqlock s' = irqlock s \<or> irqlock s = SP_UNLOCKED \<and> irqlock s' = SP_LOCKED \<and> own s' c \<or>
        own s c \<and> \<not> own s' c \<and> irqlock s' = SP_UNLOCKED"
      using at c by (simp add: own_def eq isset)
  qed
  then show ?thesis by (simp add: s'_def)
qed

lemma inv_leave_irq:
  assumes inv: "cs_inv n s" and c: "c < n" and run: "cpu_pc s c = Run" and irq: "irqctx s c" and fl: "iflags s c = f # fs"
    and s': "leave_critical_section c f (pop_flags c s) = Some s'"
  shows "cs_inv n s'"
proof -
  note ok = run_ok [OF inv c run]
  have f: f "False \<notin> set fs" and len: "unat (nestcount s c) = Suc (length fs)" and m: "masked s c" and has: "irq_isset c s"
    using ok fl irq by (auto simp: word_less_nat_alt)
  define s1 where "s1 = pop_flags c s"
  have s1: "s1 = s\<lparr>iflags := (iflags s)(c := fs)\<rparr>" using irq fl by (simp add: s1_def pop_flags_def)
  have sel: "irqctx s1 = irqctx s" "nestcount s1 = nestcount s" "irqlock s1 = irqlock s" "current s1 = current s"
    "irq_isset c s1 = irq_isset c s" "cnt s1 = cnt s"
    by (simp_all add: s1 irq_isset_def cnt_def fun_eq_iff)
  note leave = s' [folded s1_def, unfolded leave_critical_section_def sel if_P [OF irq]]
  have nest: "cs_inv n (up_irq_restore c f (set_nest c v s1))" if "unat v = length fs" "0 < v \<or> 0 < cnt s (current s c)" for v
    by (rule inv_nest [OF inv c run irq has, where v = v and fs = fs])
      (use that f in \<open>simp_all add: up_irq_restore_def set_nest_def s1\<close>)
  show ?thesis
  proof (cases "1 < nestcount s c")
    case True
    then have "0 < nestcount s c" "unat (nestcount s c) > 1" by (simp_all add: word_less_nat_alt)
    then have "unat (nestcount s c - 1) = length fs" "0 < nestcount s c - 1"
      using nest_inc(2) [of "nestcount s c"] len by (simp_all add: word_less_nat_alt)
    then show ?thesis using leave True nest by (auto split: if_splits)
  next
    case False
    show ?thesis
    proof (cases "cnt s (current s c) \<le> 0")
      case True
      then have s'': "s' = go c (Clr (LeaveIrq f)) s1" and one: "nestcount s c = 1" using leave False by (auto split: if_splits)
      have "fs = []" using len one by simp
      moreover have eq: "go c (Clr (LeaveIrq f)) s1 =
          s\<lparr>cpu_pc := (cpu_pc s)(c := Clr (LeaveIrq f)), masked := (masked s)(c := True), iflags := (iflags s)(c := fs)\<rparr>"
        by (rule csys.equality) (simp_all add: go_def s1 m fun_eq_iff)
      ultimately show ?thesis
        using f m has irq one True ok(6)
        unfolding s'' by (intro inv_go [OF inv c eq]) (auto simp: cpu_ok_def pc_ok_def own_def irq_isset_def cnt_def run)
    next
      case cnt: False
      then show ?thesis using leave False nest [of 0] len by (auto split: if_splits)
    qed
  qed
qed

lemma inv_leave_task:
  assumes inv: "cs_inv n s" and c: "c < n" and run: "cpu_pc s c = Run" and task: "\<not> irqctx s c" and fl: "tflags s (current s c) = f # fs"
    and s': "leave_critical_section c f (pop_flags c s) = Some s'"
  shows "cs_inv n s'"
proof -
  note ok = run_ok [OF inv c run]
  define r where "r = current s c"
  have len: "cnt s r = 1 + int (length fs)" and bl: "False \<notin> set (butlast (f # fs))"
    using cs_invD(2) [OF inv, of r] fl by (auto simp: ctask_ok_def r_def)
  then have pos: "0 < cnt s r" and m: "masked s c" and has: "irq_isset c s" using ok by (auto simp: r_def)
  define s1 where "s1 = pop_flags c s"
  have s1: "s1 = s\<lparr>tflags := (tflags s)(r := fs)\<rparr>" using task fl by (simp add: s1_def pop_flags_def r_def)
  have sel: "irqctx s1 = irqctx s" "irqcount s1 = irqcount s" "irqlock s1 = irqlock s" "current s1 c = r"
    "irq_isset c s1 = irq_isset c s" "cnt s1 = cnt s"
    by (simp_all add: s1 irq_isset_def cnt_def fun_eq_iff r_def)
  note leave = s' [folded s1_def, unfolded leave_critical_section_def sel if_not_P [OF task] Let_def]
  show ?thesis
  proof (cases "1 < cnt s r")
    case True
    define v where "v = irqcount s r - 1"
    have v: "sint v = cnt s r - 1" using count_inc(2) pos by (simp add: v_def cnt_def)
    have "fs \<noteq> []" using True len by auto
    then have f: f "False \<notin> set (butlast fs)" using bl by auto
    have eq: "s' = up_irq_restore c f (set_irqcount r v s1)" using leave True by (auto simp: v_def split: if_splits)
    show ?thesis
      by (rule inv_count [OF inv c run task has, where v = v and fs = fs])
        (use v f len True in \<open>auto simp: eq up_irq_restore_def set_irqcount_def s1 r_def\<close>)
  next
    case False
    then have fs: "fs = []" using len by simp
    have eq: "s' = go c (Clr (LeaveTask f)) (set_irqcount r 0 s1)" using leave False pos by (auto split: if_splits)
    have nest: "nestcount s c = 0" using ok(4) task by (auto simp: word_gt_0)
    have cnt': "cnt s' t = (if t = r then 0 else cnt s t)" for t by (simp add: eq cs_defs s1)
    have sel': "irqctx s' = irqctx s" "irqlock s' = irqlock s" "current s' = current s" "irq_isset d s' = irq_isset d s"
      "cpu_pc s' = (cpu_pc s)(c := Clr (LeaveTask f))" "nestcount s' = nestcount s" "masked s' = masked s" "iflags s' = iflags s"
      "saved s' = saved s" "tflags s' = (tflags s)(r := [])" for d
      by (simp_all add: eq cs_defs s1 irq_isset_def fs)
    show ?thesis
    proof (rule cs_invI [OF inv c])
      show "frame n c s s'"
        unfolding frame_def by (intro allI impI) (simp add: sel' cnt' r_def cs_other [OF inv c])
      show "ctask_ok n s' t" for t
      proof (cases "t = r")
        case False
        then show ?thesis by (intro task_ok_frame [OF cs_invD(2) [OF inv]]) (auto simp: sel' cnt')
      qed (simp add: ctask_ok_def cnt' sel')
      show "cpu_ok s' c"
        using m has nest ok(2) task by (simp add: cpu_ok_def pc_ok_def sel' cnt' flip: r_def)
      show "own s' c = own s c \<and> irqlock s' = irqlock s \<or> irqlock s = SP_UNLOCKED \<and> irqlock s' = SP_LOCKED \<and> own s' c \<or>
          own s c \<and> \<not> own s' c \<and> irqlock s' = SP_UNLOCKED"
        using has by (simp add: own_def sel')
    qed
  qed
qed

lemma inv_clear:
  assumes inv: "cs_inv n s" and c: "c < n" and at: "cpu_pc s c = Clr a"
  shows "cs_inv n (irqlock_clear c a s)"
proof -
  define s' where "s' = irqlock_clear c a s"
  have has: "irq_isset c s" "cnt s (current s c) = 0" "after_ok s c a" using cs_invD(1) [OF inv c] at by (auto simp: cpu_ok_def pc_ok_def)
  then have own: "own s c" by (simp add: own_def)
  have sel: "\<not> irq_isset d s'" "cpu_pc s' = (cpu_pc s)(c := Unl a)" "irqlock s' = irqlock s" "current s' = current s"
    "irqctx s' = irqctx s" "masked s' = masked s" "saved s' = saved s" "nestcount s' = nestcount s" "iflags s' = iflags s"
    "cnt s' = cnt s" "tflags s' = tflags s" for d
    by (simp_all add: s'_def irqlock_clear_def cs_defs fun_eq_iff irq_isset_def)
  have "after_ok s' c a" using has(3) by (cases a) (simp_all add: sel)
  then have "cs_inv n s'"
    using has own cs_invD(1) [OF inv c] at
    by (intro cs_invI [OF inv c] task_ok_frame [OF cs_invD(2) [OF inv]])
      (auto simp: frame_def sel cs_other [OF inv c] cs_invD(5) [OF inv c] cpu_ok_def pc_ok_def own_def)
  then show ?thesis by (simp add: s'_def)
qed

lemma inv_unlock:
  assumes inv: "cs_inv n s" and c: "c < n" and at: "cpu_pc s c = Unl a"
  shows "cs_inv n (irqlock_unlock c a s)"
proof -
  define s' where "s' = irqlock_unlock c a s"
  define m where "m = (case a of LeaveTask f \<Rightarrow> f | LeaveIrq f \<Rightarrow> f | Switched \<Rightarrow> masked s c)"
  have ok: "\<not> irq_isset c s" "cnt s (current s c) = 0" "after_ok s c a" "masked s c" "False \<notin> set (iflags s c)"
    using cs_invD(1) [OF inv c] at by (auto simp: cpu_ok_def pc_ok_def)
  have nest: "nestcount s' = (nestcount s)(c := 0)"
    using ok(3) by (cases a) (auto simp: s'_def irqlock_unlock_def cs_defs fun_eq_iff)
  have masked: "masked s' = (masked s)(c := m)" by (cases a) (simp_all add: s'_def irqlock_unlock_def cs_defs m_def)
  have ctx: "irqctx s c \<Longrightarrow> m" "iflags s c = []" using ok(3,4) by (cases a; simp add: m_def)+
  have sel: "irq_isset d s' = irq_isset d s" "cpu_pc s' = (cpu_pc s)(c := Run)" "irqlock s' = SP_UNLOCKED" "current s' = current s"
    "irqctx s' = irqctx s" "saved s' = saved s" "iflags s' = iflags s" "cnt s' = cnt s" "tflags s' = tflags s" for d
    by (cases a; simp add: s'_def irqlock_unlock_def cs_defs fun_eq_iff irq_isset_def)+
  have "cs_inv n s'"
  proof (rule cs_invI [OF inv c])
    show "frame n c s s'" unfolding frame_def by (intro allI impI) (simp add: sel nest masked cs_other [OF inv c])
    show "ctask_ok n s' t" for t by (rule task_ok_frame [OF cs_invD(2) [OF inv]]) (auto simp: sel)
    show "cpu_ok s' c" using ok ctx by (simp add: cpu_ok_def pc_ok_def sel nest masked)
    show "own s' c = own s c \<and> irqlock s' = irqlock s \<or> irqlock s = SP_UNLOCKED \<and> irqlock s' = SP_LOCKED \<and> own s' c \<or>
      own s c \<and> \<not> own s' c \<and> irqlock s' = SP_UNLOCKED"
      using ok(1) at by (simp add: own_def sel)
  qed
  then show ?thesis by (simp add: s'_def)
qed

lemma inv_irq:
  assumes inv: "cs_inv n s" and c: "c < n" and run: "cpu_pc s c = Run" and open_: "\<not> masked s c"
  shows "cs_inv n (irq_entry c s)"
proof -
  define s' where "s' = irq_entry c s"
  note ok = run_ok [OF inv c run]
  have cnt0: "cnt s (current s c) = 0" "\<not> irqctx s c" "nestcount s c = 0" using ok open_ by (auto simp: word_gt_0)
  have sel: "irq_isset d s' = irq_isset d s" "cpu_pc s' = cpu_pc s" "irqlock s' = irqlock s" "current s' = current s"
    "irqctx s' = (irqctx s)(c := True)" "masked s' = (masked s)(c := True)" "saved s' = (saved s)(current s c := False)"
    "nestcount s' = nestcount s" "iflags s' = iflags s" "cnt s' = cnt s" "tflags s' = tflags s" for d
    using open_ by (simp_all add: s'_def irq_entry_def cs_defs fun_eq_iff irq_isset_def)
  have "cs_inv n s'"
  proof (rule cs_invI [OF inv c])
    show "frame n c s s'" unfolding frame_def by (intro allI impI) (simp add: sel cs_other [OF inv c])
    show "ctask_ok n s' t" for t
      by (rule task_ok_frame [OF cs_invD(2) [OF inv]]) (use cnt0 in \<open>auto simp: sel\<close>)
    show "cpu_ok s' c" using ok cnt0 run by (simp add: cpu_ok_def pc_ok_def sel)
    show "own s' c = own s c \<and> irqlock s' = irqlock s \<or> irqlock s = SP_UNLOCKED \<and> irqlock s' = SP_LOCKED \<and> own s' c \<or>
      own s c \<and> \<not> own s' c \<and> irqlock s' = SP_UNLOCKED"
      by (simp add: own_def sel)
  qed
  then show ?thesis by (simp add: s'_def)
qed

lemma inv_return:
  assumes inv: "cs_inv n s" and c: "c < n" and run: "cpu_pc s c = Run" and irq: "irqctx s c" and nest: "nestcount s c = 0"
  shows "cs_inv n (irq_return c s)"
proof -
  define s' where "s' = irq_return c s"
  note ok = run_ok [OF inv c run]
  have sav: "saved s (current s c)" if "0 < cnt s (current s c)"
    using cs_invD(2) [OF inv, of "current s c"] that irq cs_other(2) [OF inv c] by (fastforce simp: ctask_ok_def)
  have sel: "irq_isset d s' = irq_isset d s" "cpu_pc s' = cpu_pc s" "irqlock s' = irqlock s" "current s' = current s"
    "irqctx s' = (irqctx s)(c := False)" "masked s' = (masked s)(c := saved s (current s c))" "saved s' = saved s"
    "nestcount s' = nestcount s" "iflags s' = iflags s" "cnt s' = cnt s" "tflags s' = tflags s" for d
    by (simp_all add: s'_def irq_return_def cs_defs fun_eq_iff irq_isset_def)
  have "cs_inv n s'"
  proof (rule cs_invI [OF inv c])
    show "frame n c s s'" unfolding frame_def by (intro allI impI) (simp add: sel cs_other [OF inv c])
    show "ctask_ok n s' t" for t by (rule task_ok_frame [OF cs_invD(2) [OF inv]]) (auto simp: sel)
    show "cpu_ok s' c" using ok nest run sav by (simp add: cpu_ok_def pc_ok_def sel)
    show "own s' c = own s c \<and> irqlock s' = irqlock s \<or> irqlock s = SP_UNLOCKED \<and> irqlock s' = SP_LOCKED \<and> own s' c \<or>
      own s c \<and> \<not> own s' c \<and> irqlock s' = SP_UNLOCKED"
      by (simp add: own_def sel)
  qed
  then show ?thesis by (simp add: s'_def)
qed

lemma inv_switch:
  assumes inv: "cs_inv n s" and c: "c < n" and run: "cpu_pc s c = Run" and task: "\<not> irqctx s c" and pos: "0 < cnt s (current s c)"
    and st: "startable n c t s"
  shows "cs_inv n (switch_context c t s)"
proof -
  define s' where "s' = switch_context c t s"
  note ok = run_ok [OF inv c run]
  have has: "irq_isset c s" "masked s c" "nestcount s c = 0" using ok pos task by (auto simp: word_gt_0)
  have ge: "0 \<le> cnt s t" using cs_invD(2) [OF inv, of t] by (simp add: ctask_ok_def)
  have sel: "irq_isset d s' = irq_isset d s" "cpu_pc s' = (cpu_pc s)(c := if cnt s t \<le> 0 then Clr Switched else Run)"
    "irqlock s' = irqlock s" "current s' = (current s)(c := t)" "irqctx s' = (irqctx s)(c := True)" "masked s' = masked s"
    "saved s' = (saved s)(current s c := True)" "nestcount s' = nestcount s" "iflags s' = iflags s" "cnt s' = cnt s" "tflags s' = tflags s" for d
    using has run by (simp_all add: s'_def switch_context_def restore_critical_section_def cs_defs fun_eq_iff irq_isset_def)
  have "cs_inv n s'"
  proof (rule cs_invI [OF inv c])
    show "frame n c s s'"
      using st unfolding frame_def startable_def by (intro allI impI) (auto simp: sel)
    show "ctask_ok n s' u" for u
      by (rule task_ok_frame [OF cs_invD(2) [OF inv]]) (auto simp: sel)
    show "cpu_ok s' c" using ok has ge by (simp add: cpu_ok_def pc_ok_def sel)
    show "own s' c = own s c \<and> irqlock s' = irqlock s \<or> irqlock s = SP_UNLOCKED \<and> irqlock s' = SP_LOCKED \<and> own s' c \<or>
      own s c \<and> \<not> own s' c \<and> irqlock s' = SP_UNLOCKED"
      using has by (simp add: own_def sel)
  qed
  then show ?thesis by (simp add: s'_def)
qed

text \<open>Changing the current task inside of an interrupt handler.\<close>

lemma inv_current:
  assumes inv: "cs_inv n s" and c: "c < n" and irq: "irqctx s c" and has: "irq_isset c s" and st: "startable n c t s"
    and s': "s' = s\<lparr>current := (current s)(c := t), cpu_pc := (cpu_pc s)(c := p)\<rparr>" and me: "cpu_ok s' c"
  shows "cs_inv n s'"
proof (rule cs_invI [OF inv c])
  show "frame n c s s'"
    using st unfolding frame_def startable_def by (intro allI impI) (auto simp: s' irq_isset_def cnt_def)
  show "ctask_ok n s' u" for u
    by (rule task_ok_frame [OF cs_invD(2) [OF inv]]) (use irq in \<open>auto simp: s' cnt_def\<close>)
  show "own s' c = own s c \<and> irqlock s' = irqlock s \<or> irqlock s = SP_UNLOCKED \<and> irqlock s' = SP_LOCKED \<and> own s' c \<or>
      own s c \<and> \<not> own s' c \<and> irqlock s' = SP_UNLOCKED"
    using has by (simp add: own_def s' irq_isset_def)
qed (rule me)

lemma inv_resched:
  assumes inv: "cs_inv n s" and c: "c < n" and run: "cpu_pc s c = Run" and irq: "irqctx s c" and nest: "0 < nestcount s c"
    and st: "startable n c t s"
  shows "cs_inv n (s\<lparr>current := (current s)(c := t)\<rparr>)"
proof -
  note ok = run_ok [OF inv c run]
  have has: "irq_isset c s" using ok nest by simp
  have eq: "s\<lparr>current := (current s)(c := t)\<rparr> = s\<lparr>current := (current s)(c := t), cpu_pc := (cpu_pc s)(c := Run)\<rparr>"
    by (rule csys.equality) (simp_all add: fun_eq_iff run)
  show ?thesis
    by (rule inv_current [OF inv c irq has st eq])
      (use ok nest irq has run in \<open>simp add: cpu_ok_def pc_ok_def irq_isset_def cnt_def\<close>)
qed

lemma inv_deliver:
  assumes inv: "cs_inv n s" and c: "c < n" and run: "cpu_pc s c = Run" and s': "process_delivered c s = Some s'"
  shows "cs_inv n s'"
proof -
  note ok = run_ok [OF inv c run]
  define p where "p = (if \<not> irq_isset c s then SpinD else BodyD)"
  have n0: "nestcount s c = 0" "irqctx s c" and s'': "s' = go c p s" using s' by (auto simp: process_delivered_def p_def split: if_splits)
  then have fl: "iflags s c = []" "masked s c" using ok by auto
  have eq: "go c p s = s\<lparr>cpu_pc := (cpu_pc s)(c := p), masked := (masked s)(c := True), iflags := (iflags s)(c := [])\<rparr>"
    by (rule csys.equality) (simp_all add: go_def fl fun_eq_iff)
  have "0 \<le> cnt s (current s c)" by (rule ok(6))
  then show ?thesis
    unfolding s'' using n0 fl ok(1)
    by (intro inv_go [OF inv c eq]) (auto simp: go_def p_def cpu_ok_def pc_ok_def unlocked_def own_def irq_isset_def cnt_def run)
qed

lemma inv_body_d:
  assumes inv: "cs_inv n s" and c: "c < n" and at: "cpu_pc s c = BodyD" and st: "startable n c t s"
  shows "cs_inv n (delivered_switch c t s)"
proof -
  have ok: "irq_isset c s" "nestcount s c = 0" "irqctx s c" "iflags s c = []" "masked s c"
    using cs_invD(1) [OF inv c] at by (auto simp: cpu_ok_def pc_ok_def)
  have ge: "0 \<le> cnt s t" using cs_invD(2) [OF inv, of t] by (simp add: ctask_ok_def)
  have eq: "delivered_switch c t s =
      s\<lparr>current := (current s)(c := t), cpu_pc := (cpu_pc s)(c := if cnt s t \<le> 0 then Clr Switched else Run)\<rparr>"
    by (simp add: delivered_switch_def Let_def go_def cnt_def)
  show ?thesis
    by (rule inv_current [OF inv c ok(3,1) st eq])
      (use ok ge in \<open>auto simp: eq cpu_ok_def pc_ok_def irq_isset_def cnt_def\<close>)
qed

lemma cs_step_inv: "cs_step n s s' \<Longrightarrow> n \<le> 32 \<Longrightarrow> cs_inv n s \<Longrightarrow> cs_inv n s'"
proof (induction rule: cs_step.induct)
  case (s_enter c s s') then show ?case using inv_enter by blast
next
  case (s_spin c s f) then show ?case using inv_spin by blast
next
  case (s_locked c s f s') then show ?case using inv_locked by blast
next
  case (s_leave_irq c s f fs s') then show ?case using inv_leave_irq by blast
next
  case (s_leave_task c s f fs s') then show ?case using inv_leave_task by blast
next
  case (s_clear c s a) then show ?case using inv_clear by blast
next
  case (s_unlock c s a) then show ?case using inv_unlock by blast
next
  case (s_irq c s) then show ?case using inv_irq by blast
next
  case (s_return c s) then show ?case using inv_return by blast
next
  case (s_switch c s t) then show ?case using inv_switch by blast
next
  case (s_resched c s t) then show ?case using inv_resched by blast
next
  case (s_deliver c s s') then show ?case using inv_deliver by blast
next
  case (s_spin_d c s) then show ?case using inv_spin by blast
next
  case (s_locked_d c s) then show ?case using inv_locked_d by blast
next
  case (s_body_d c s t) then show ?case using inv_body_d by blast
qed

lemma cs_init_inv: "cs_inv n cs_init"
  by (simp add: cs_inv_def cs_init_def cpu_ok_def pc_ok_def ctask_ok_def own_def irq_isset_def cnt_def inj_on_def)

lemma cs_reach_inv: "cs_reach n s \<Longrightarrow> n \<le> 32 \<Longrightarrow> cs_inv n s"
  by (induction rule: cs_reach.induct) (auto intro: cs_init_inv cs_step_inv)

section \<open>The properties\<close>

text \<open>A CPU is in a critical section: its handler or its current task has entered one.\<close>

definition in_csection :: "csys \<Rightarrow> nat \<Rightarrow> bool" where
  "in_csection s c \<longleftrightarrow> cpu_pc s c = BodyD \<or> cpu_pc s c = Run \<and> (0 < nestcount s c \<or> 0 < cnt s (current s c))"

lemma in_csection_own:
  assumes "cs_inv n s" "c < n" "in_csection s c"
  shows "irq_isset c s" "masked s c" "own s c" "irqlock s = SP_LOCKED"
proof -
  show isset: "irq_isset c s" and "masked s c"
    using cs_invD(1) [OF assms(1,2)] assms(3) by (auto simp: in_csection_def cpu_ok_def pc_ok_def)
  show own: "own s c" using isset by (simp add: own_def)
  then show "irqlock s = SP_LOCKED" using cs_invD(3) [OF assms(1)] assms(2) by blast
qed

lemma own_locked: "cs_inv n s \<Longrightarrow> c < n \<Longrightarrow> own s c \<Longrightarrow> irqlock s = SP_LOCKED"
  using cs_invD(3) by blast

lemma enter_succeeds:
  assumes inv: "cs_inv n s" and c: "c < n" and run: "cpu_pc s c = Run" and max: "nestcount s c < 255" "cnt s (current s c) < 32767"
  shows "enter_critical_section c s \<noteq> None"
proof -
  note ok = run_ok [OF inv c run]
  have lock: "irqlock s = SP_LOCKED" if "irq_isset c s" using own_locked [OF inv c] that by (simp add: own_def)
  define s1 where "s1 = s\<lparr>masked := (masked s)(c := True)\<rparr>"
  have sel: "irqctx s1 = irqctx s" "nestcount s1 = nestcount s" "irqlock s1 = irqlock s" "current s1 = current s" "irqcount s1 = irqcount s"
    "irq_isset c s1 = irq_isset c s" "cnt s1 = cnt s" "irqlock (set_nest c v s1) = irqlock s" for v
    by (simp_all add: s1_def irq_isset_def cnt_def fun_eq_iff set_nest_def)
  show ?thesis
    unfolding enter_critical_section_def up_irq_save_def s1_def [symmetric] Let_def prod.case sel
    using ok lock max by (auto simp: sel)
qed

lemma enter_locked_succeeds:
  assumes n: "n \<le> 32" and inv: "cs_inv n s" and c: "c < n" and at: "cpu_pc s c = Got f"
  shows "enter_locked c f s \<noteq> None"
proof -
  have "irqlock s = SP_LOCKED" using own_locked [OF inv c] at by (simp add: own_def)
  moreover have "irq_isset c (cpu_irqlock_set c s)" using isset_set [of c c s] n c by simp
  moreover have "irqlock (set_nest c 1 (cpu_irqlock_set c s)) = irqlock s" by (simp add: set_nest_def cpu_irqlock_set_def)
  ultimately show ?thesis by (simp add: enter_locked_def Let_def)
qed

lemma leave_succeeds:
  assumes inv: "cs_inv n s" and c: "c < n" and run: "cpu_pc s c = Run"
    and fl: "if irqctx s c then iflags s c \<noteq> [] else tflags s (current s c) \<noteq> []"
  shows "leave_critical_section c f (pop_flags c s) \<noteq> None"
proof -
  note ok = run_ok [OF inv c run]
  define s1 where "s1 = pop_flags c s"
  have sel: "irqctx s1 = irqctx s" "nestcount s1 = nestcount s" "irqlock s1 = irqlock s" "current s1 = current s"
    "irq_isset c s1 = irq_isset c s" "cnt s1 = cnt s"
    by (simp_all add: s1_def pop_flags_def irq_isset_def cnt_def fun_eq_iff)
  have "0 < cnt s (current s c)" if "\<not> irqctx s c"
  proof -
    have "0 < length (tflags s (current s c))" using fl that by simp
    moreover have "length (tflags s (current s c)) = nat (cnt s (current s c))"
      using cs_invD(2) [OF inv, of "current s c"] by (simp add: ctask_ok_def)
    ultimately show ?thesis by linarith
  qed
  moreover have "0 < nestcount s c" if "irqctx s c" using fl that ok(2) by (auto simp: word_gt_0)
  moreover have "nestcount s c = 1" if "0 < nestcount s c" "\<not> 1 < nestcount s c"
  proof -
    have "unat (nestcount s c) = unat (1 :: u8)" using that by (simp add: word_less_nat_alt)
    then show ?thesis by (rule unsigned_word_eqI)
  qed
  ultimately have facts: "irq_isset c s" "irqctx s c \<Longrightarrow> 1 < nestcount s c \<or> nestcount s c = 1" "\<not> irqctx s c \<Longrightarrow> 0 < cnt s (current s c)"
    using ok(1) by blast+
  moreover have "irqlock s = SP_LOCKED" using own_locked [OF inv c] facts(1) by (simp add: own_def)
  ultimately show ?thesis
    unfolding leave_critical_section_def s1_def [symmetric] Let_def sel by auto
qed

text \<open>Two CPUs: the first one is in a critical section, the second one has found the lock taken.\<close>

definition cs_demo1 :: csys where "cs_demo1 = the (enter_critical_section 0 cs_init)"
definition cs_demo2 :: csys where "cs_demo2 = spin_turn 0 (Got False) cs_demo1"
definition cs_demo3 :: csys where "cs_demo3 = the (enter_locked 0 False cs_demo2)"
definition cs_demo4 :: csys where "cs_demo4 = the (enter_critical_section 1 cs_demo3)"

lemmas cs_demo_defs = cs_demo1_def cs_demo2_def cs_demo3_def cs_demo4_def enter_critical_section_def enter_locked_def spin_turn_def
  cs_init_def cs_defs irq_isset_def

lemma cs_demo_reach: "cs_reach 2 cs_demo3" "cs_reach 2 cs_demo4"
proof -
  have 1: "cs_reach 2 cs_demo1"
    by (rule cs_next [OF cs_start s_enter [of 0]]) (simp_all add: cs_demo_defs)
  have 2: "cs_reach 2 cs_demo2"
    unfolding cs_demo2_def by (rule cs_next [OF 1 s_spin [of 0]]) (simp_all add: cs_demo_defs)
  show 3: "cs_reach 2 cs_demo3"
    by (rule cs_next [OF 2 s_locked [of 0 _ _ False]]) (simp_all add: cs_demo_defs)
  show "cs_reach 2 cs_demo4"
    by (rule cs_next [OF 3 s_enter [of 1]]) (simp_all add: cs_demo_defs)
qed

text \<open>C31: At most one CPU is in a critical section, in every reachable state of up to 32 CPUs, with interrupts, nested sections,
  context switches inside of sections and switches delivered to other CPUs. That CPU is the one recorded in \<open>g_cpu_irqset\<close>, the
  spinlock is taken, and interrupts are off on it.\<close>

theorem csection_exclusion:
  assumes "cs_reach n s" "n \<le> 32" "c < n" "d < n" "in_csection s c" "in_csection s d"
  shows "c = d \<and> irq_isset c s \<and> irqlock s = SP_LOCKED \<and> masked s c"
proof -
  have inv: "cs_inv n s" by (rule cs_reach_inv [OF assms(1,2)])
  note c = in_csection_own [OF inv assms(3,5)] and d = in_csection_own [OF inv assms(4,6)]
  have "c = d" using cs_invD(5) [OF inv assms(3,4) _ c(3)] d(1) by blast
  then show ?thesis using c by simp
qed

theorem csection_exclusion_witness:
  "cs_reach 2 cs_demo3 \<and> in_csection cs_demo3 0 \<and> (0::nat) = 0 \<and> irq_isset 0 cs_demo3 \<and> irqlock cs_demo3 = SP_LOCKED \<and> masked cs_demo3 0"
proof -
  have "in_csection cs_demo3 0" by (simp add: in_csection_def cs_demo_defs)
  then show ?thesis using csection_exclusion [of 2 cs_demo3 0 0] cs_demo_reach(1) by simp
qed

text \<open>C32: No assertion of \<open>enter_critical_section\<close>, \<open>leave_critical_section\<close> and \<open>nxsched_process_delivered\<close> fails in a reachable state: entering succeeds
  below the largest nesting depth, leaving succeeds for a section that was entered, and the delivery of a switch succeeds in an
  interrupt handler outside of a section.\<close>

theorem csection_assertions_hold:
  assumes "cs_reach n s" "n \<le> 32" "c < n"
  shows "(cpu_pc s c = Run \<and> nestcount s c < 255 \<and> cnt s (current s c) < 32767 \<longrightarrow> enter_critical_section c s \<noteq> None) \<and>
    (\<forall>f. cpu_pc s c = Got f \<longrightarrow> enter_locked c f s \<noteq> None) \<and>
    (\<forall>f. cpu_pc s c = Run \<and> irqctx s c \<and> iflags s c \<noteq> [] \<longrightarrow> leave_critical_section c f (pop_flags c s) \<noteq> None) \<and>
    (\<forall>f. cpu_pc s c = Run \<and> \<not> irqctx s c \<and> tflags s (current s c) \<noteq> [] \<longrightarrow> leave_critical_section c f (pop_flags c s) \<noteq> None) \<and>
    (cpu_pc s c = Run \<and> irqctx s c \<and> nestcount s c = 0 \<longrightarrow> process_delivered c s \<noteq> None)"
proof -
  have inv: "cs_inv n s" by (rule cs_reach_inv [OF assms(1,2)])
  show ?thesis
    using enter_succeeds [OF inv assms(3)] enter_locked_succeeds [OF assms(2) inv assms(3)] leave_succeeds [OF inv assms(3)]
    by (auto simp: process_delivered_def simp del: not_None_eq)
qed

theorem csection_assertions_hold_witness:
  "cs_reach 2 cs_demo3 \<and> enter_critical_section 0 cs_demo3 \<noteq> None \<and> leave_critical_section 0 False (pop_flags 0 cs_demo3) \<noteq> None"
proof -
  have "cpu_pc cs_demo3 0 = Run" "nestcount cs_demo3 0 < 255" "cnt cs_demo3 (current cs_demo3 0) < 32767" "\<not> irqctx cs_demo3 0"
    "tflags cs_demo3 (current cs_demo3 0) \<noteq> []"
    by (simp_all add: cs_demo_defs)
  then show ?thesis using csection_assertions_hold [of 2 cs_demo3 0] cs_demo_reach(1) by simp
qed

text \<open>A CPU that spins for a critical section takes the lock in its next turn, unless exactly one other CPU has it; that CPU is
  not spinning, so the critical section goes on.\<close>

theorem csection_spin_progress:
  assumes "cs_reach n s" "n \<le> 32" "c < n" "cpu_pc s c = Spin f"
  shows "if irqlock s = SP_UNLOCKED then cpu_pc (spin_turn c (Got f) s) c = Got f
    else \<exists>!d. d < n \<and> d \<noteq> c \<and> own s d \<and> (\<forall>g. cpu_pc s d \<noteq> Spin g) \<and> cpu_pc s d \<noteq> SpinD"
proof (cases "irqlock s")
  case SP_UNLOCKED
  then show ?thesis by (simp add: spin_turn_def up_testset_def go_def)
next
  case SP_LOCKED
  have inv: "cs_inv n s" by (rule cs_reach_inv [OF assms(1,2)])
  obtain d where d: "d < n" "own s d" using cs_invD(3) [OF inv] SP_LOCKED by blast
  have spins: "\<not> own s e" if "e < n" "(\<exists>g. cpu_pc s e = Spin g) \<or> cpu_pc s e = SpinD" for e
    using cs_invD(1) [OF inv that(1)] that(2) by (auto simp: cpu_ok_def pc_ok_def unlocked_def own_def)
  have uniq: "e = d" if "e < n" "own s e" for e using inv d that unfolding cs_inv_def by blast
  have "d \<noteq> c" using spins [of c] assms(3,4) d by blast
  then have "d < n \<and> d \<noteq> c \<and> own s d \<and> (\<forall>g. cpu_pc s d \<noteq> Spin g) \<and> cpu_pc s d \<noteq> SpinD"
    using d spins [OF d(1)] by blast
  then have "\<exists>!d. d < n \<and> d \<noteq> c \<and> own s d \<and> (\<forall>g. cpu_pc s d \<noteq> Spin g) \<and> cpu_pc s d \<noteq> SpinD"
    by (rule ex1I) (use uniq in blast)
  then show ?thesis using SP_LOCKED by simp
qed

theorem csection_spin_progress_witness:
  "cs_reach 2 cs_demo4 \<and> cpu_pc cs_demo4 1 = Spin False \<and> irqlock cs_demo4 = SP_LOCKED \<and>
   (\<exists>!d. d < 2 \<and> d \<noteq> 1 \<and> own cs_demo4 d \<and> (\<forall>g. cpu_pc cs_demo4 d \<noteq> Spin g) \<and> cpu_pc cs_demo4 d \<noteq> SpinD)"
proof -
  have "cpu_pc cs_demo4 1 = Spin False" "irqlock cs_demo4 = SP_LOCKED" by (simp_all add: cs_demo_defs)
  moreover have "(2::nat) \<le> 32" "(1::nat) < 2" by simp_all
  ultimately show ?thesis
    using csection_spin_progress [of 2 cs_demo4 1 False, OF cs_demo_reach(2)] cs_demo_reach(2) by (metis spinlock.distinct(1))
qed

end
