(* ===== verification/Spinlocks.thy ===== *)
theory Spinlocks
  imports Prelude
begin

text \<open>
  The spinlocks of \<open>include/nuttx/spinlock.h\<close> beyond the test-and-set lock: ticket locks (\<open>CONFIG_TICKET_SPINLOCK\<close>), reader-writer spinlocks
  (\<open>CONFIG_RW_SPINLOCK\<close>) and recursive spinlocks. Each function is cut into its atomic accesses, and the pieces of any number of CPUs
  are interleaved. Memory barriers are not modelled: the memory is sequentially consistent.
\<close>

section \<open>Ticket locks\<close>

record ticket_lock =
  tk_owner :: u32
  tk_next :: u32

definition ticket_init :: ticket_lock where
  "ticket_init = \<lparr>tk_owner = 0, tk_next = 0\<rparr>"

text \<open>\<open>spin_lock_notrace\<close>: taking a ticket, and the test of the loop.\<close>

definition ticket_take :: "ticket_lock \<Rightarrow> u32 \<times> ticket_lock" where
  "ticket_take l = (tk_next l, l\<lparr>tk_next := tk_next l + 1\<rparr>)"

definition ticket_served :: "u32 \<Rightarrow> ticket_lock \<Rightarrow> bool" where
  "ticket_served ticket l \<longleftrightarrow> tk_owner l = ticket"

definition ticket_unlock :: "ticket_lock \<Rightarrow> ticket_lock" where
  "ticket_unlock l = l\<lparr>tk_owner := tk_owner l + 1\<rparr>"

definition ticket_is_locked :: "ticket_lock \<Rightarrow> bool" where
  "ticket_is_locked l \<longleftrightarrow> tk_owner l \<noteq> tk_next l"

text \<open>
  \<open>spin_trylock_notrace\<close> reads \<open>next\<close> and then compares and exchanges \<open>next\<close> with the expected value in \<open>owner\<close>. As \<open>atomic_cmpxchg\<close>
  (\<open>libs/libc/machine/arch_atomic.c\<close>) stores the value it has found in the place of the expected value when they differ, it
  writes \<open>owner\<close>.
\<close>

definition ticket_try :: "u32 \<Rightarrow> ticket_lock \<Rightarrow> bool \<times> ticket_lock" where
  "ticket_try seen l =
     (if tk_next l = tk_owner l then (True, l\<lparr>tk_next := seen + 1\<rparr>) else (False, l\<lparr>tk_owner := tk_next l\<rparr>))"

text \<open>The macro \<open>spin_unlock\<close> of a configuration without \<open>__SP_UNLOCK_FUNCTION\<close>.\<close>

definition ticket_spin_unlock :: "ticket_lock \<Rightarrow> ticket_lock" where
  "ticket_spin_unlock l = ticket_init"

datatype tk_pc = TkIdle | TkWait u32 | TkIn u32 | TkTry u32

record tk_sys =
  tk_lock :: ticket_lock
  tk_pc :: "nat \<Rightarrow> tk_pc"

text \<open>Locking and unlocking; \<open>tk_step True\<close> has \<open>spin_trylock\<close> too.\<close>

inductive tk_step :: "bool \<Rightarrow> nat \<Rightarrow> tk_sys \<Rightarrow> tk_sys \<Rightarrow> bool" for tr :: bool and n :: nat where
  tk_take: "p < n \<Longrightarrow> tk_pc s p = TkIdle \<Longrightarrow> ticket_take (tk_lock s) = (t, l) \<Longrightarrow>
    tk_step tr n s \<lparr>tk_lock = l, tk_pc = (tk_pc s)(p := TkWait t)\<rparr>"
| tk_spin: "p < n \<Longrightarrow> tk_pc s p = TkWait t \<Longrightarrow> ticket_served t (tk_lock s) \<Longrightarrow>
    tk_step tr n s (s\<lparr>tk_pc := (tk_pc s)(p := TkIn t)\<rparr>)"
| tk_leave: "p < n \<Longrightarrow> tk_pc s p = TkIn t \<Longrightarrow>
    tk_step tr n s \<lparr>tk_lock = ticket_unlock (tk_lock s), tk_pc = (tk_pc s)(p := TkIdle)\<rparr>"
| tk_read: "tr \<Longrightarrow> p < n \<Longrightarrow> tk_pc s p = TkIdle \<Longrightarrow> tk_step tr n s (s\<lparr>tk_pc := (tk_pc s)(p := TkTry (tk_next (tk_lock s)))\<rparr>)"
| tk_try: "tr \<Longrightarrow> p < n \<Longrightarrow> tk_pc s p = TkTry t \<Longrightarrow> ticket_try t (tk_lock s) = (b, l) \<Longrightarrow>
    tk_step tr n s \<lparr>tk_lock = l, tk_pc = (tk_pc s)(p := if b then TkIn t else TkIdle)\<rparr>"

definition tk_start :: tk_sys where
  "tk_start = \<lparr>tk_lock = ticket_init, tk_pc = (\<lambda>_. TkIdle)\<rparr>"

inductive tk_reach :: "bool \<Rightarrow> nat \<Rightarrow> tk_sys \<Rightarrow> bool" for tr :: bool and n :: nat where
  tk_reach_start: "tk_reach tr n tk_start"
| tk_reach_step: "tk_reach tr n s \<Longrightarrow> tk_step tr n s s' \<Longrightarrow> tk_reach tr n s'"

text \<open>
  The abstract lock is the queue of the CPUs that wait or are inside: the ticket of the \<open>i\<close>-th one is \<open>owner + i\<close>, and only the first one
  is inside.
\<close>

definition tk_queue :: "nat \<Rightarrow> tk_sys \<Rightarrow> nat list \<Rightarrow> bool" where
  "tk_queue n s q \<longleftrightarrow> distinct q \<and> set q \<subseteq> {..<n} \<and> tk_next (tk_lock s) = tk_owner (tk_lock s) + of_nat (length q) \<and>
     (\<forall>i < length q. tk_pc s (q ! i) = TkWait (tk_owner (tk_lock s) + of_nat i) \<or> i = 0 \<and> tk_pc s (q ! i) = TkIn (tk_owner (tk_lock s))) \<and>
     (\<forall>p < n. p \<notin> set q \<longrightarrow> tk_pc s p = TkIdle)"

lemma length_queue: "distinct q \<Longrightarrow> set q \<subseteq> {..<n::nat} \<Longrightarrow> length q \<le> n"
  using card_mono [of "{..<n}" "set q"] by (simp add: distinct_card)

lemma of_nat_inj32: "i < 2 ^ 32 \<Longrightarrow> j < 2 ^ 32 \<Longrightarrow> of_nat i = (of_nat j :: u32) \<longleftrightarrow> i = j"
proof -
  assume "i < 2 ^ 32" "j < 2 ^ 32"
  then have "unat (of_nat i :: u32) = i" "unat (of_nat j :: u32) = j" by (simp_all add: unat_of_nat take_bit_nat_eq_self)
  then show ?thesis by metis
qed

lemma queue_take:
  assumes q: "tk_queue n s q" and p: "p < n" "tk_pc s p = TkIdle" and t: "ticket_take (tk_lock s) = (t, l)"
  shows "tk_queue n \<lparr>tk_lock = l, tk_pc = (tk_pc s)(p := TkWait t)\<rparr> (q @ [p])"
proof -
  have "p \<notin> set q"
  proof
    assume "p \<in> set q"
    then obtain i where "i < length q" "q ! i = p" by (auto simp: in_set_conv_nth)
    then show False using q p(2) by (auto simp: tk_queue_def)
  qed
  then show ?thesis
    using q p t by (auto simp: tk_queue_def ticket_take_def nth_append nth_eq_iff_index_eq less_Suc_eq)
qed

lemma queue_first:
  assumes q: "tk_queue n s q" and n: "n < 2 ^ 32" and p: "p < n" "tk_pc s p = TkWait t" "ticket_served t (tk_lock s)"
  shows "q \<noteq> [] \<and> q ! 0 = p \<and> tk_queue n (s\<lparr>tk_pc := (tk_pc s)(p := TkIn t)\<rparr>) q"
proof -
  have "p \<in> set q" using q p by (auto simp: tk_queue_def)
  then obtain i where i: "i < length q" "q ! i = p" by (auto simp: in_set_conv_nth)
  have len: "length q < 2 ^ 32" using q n length_queue [of q n] by (simp add: tk_queue_def)
  have "t = tk_owner (tk_lock s) + of_nat i" "t = tk_owner (tk_lock s)"
    using q i p by (auto simp: tk_queue_def ticket_served_def)
  then have "of_nat i = (of_nat 0 :: u32)" by simp
  then have "i = 0" using i(1) len of_nat_inj32 [of i 0] by simp
  then have "q \<noteq> [] \<and> q ! 0 = p" using i by auto
  moreover have "tk_queue n (s\<lparr>tk_pc := (tk_pc s)(p := TkIn t)\<rparr>) q"
    using q i p \<open>i = 0\<close> by (auto simp: tk_queue_def ticket_served_def nth_eq_iff_index_eq)
  ultimately show ?thesis by simp
qed

lemma queue_leave:
  assumes q: "tk_queue n s q" and p: "p < n" "tk_pc s p = TkIn t"
  shows "q \<noteq> [] \<and> q ! 0 = p \<and> tk_queue n \<lparr>tk_lock = ticket_unlock (tk_lock s), tk_pc = (tk_pc s)(p := TkIdle)\<rparr> (tl q)"
proof -
  have "p \<in> set q" using q p by (auto simp: tk_queue_def)
  then obtain i where i: "i < length q" "q ! i = p" by (auto simp: in_set_conv_nth)
  then have "i = 0" using q p by (auto simp: tk_queue_def)
  then obtain q' where q': "q = p # q'" using i by (cases q) auto
  have w: "tk_pc s (q' ! j) = TkWait (tk_owner (tk_lock s) + of_nat (Suc j))" if "j < length q'" for j
    using q that unfolding q' tk_queue_def by (metis Suc_less_eq length_Cons nth_Cons_Suc Zero_not_Suc)
  have "distinct (p # q')" "set q' \<subseteq> {..<n}" "\<forall>r < n. r \<notin> set (p # q') \<longrightarrow> tk_pc s r = TkIdle"
    "tk_next (tk_lock s) = tk_owner (tk_lock s) + of_nat (length (p # q'))"
    using q by (auto simp: q' tk_queue_def)
  then show ?thesis
    using w by (auto simp: q' tk_queue_def ticket_unlock_def algebra_simps)
qed

lemma tk_reach_queue:
  assumes "tk_reach False n s" "n < 2 ^ 32"
  shows "\<exists>q. tk_queue n s q"
  using assms
proof (induction rule: tk_reach.induct)
  case tk_reach_start
  have "tk_queue n tk_start []" by (simp add: tk_queue_def tk_start_def ticket_init_def)
  then show ?case by blast
next
  case (tk_reach_step s s')
  then obtain q where q: "tk_queue n s q" by blast
  from tk_reach_step.hyps(2) show ?case
    using queue_take [OF q] queue_first [OF q tk_reach_step.prems] queue_leave [OF q] by cases blast+
qed

text \<open>C33: A ticket lock serves the CPUs in the order in which they take their tickets: in every reachable state of fewer than
  \<open>2 ^ 32\<close> CPUs that lock and unlock there is a queue of which only the first one is inside; it is inside or finds its ticket served,
  taking a ticket adds at the end, and unlocking removes the first one.\<close>

theorem ticket_lock_fifo:
  assumes "tk_reach False n s" "n < 2 ^ 32"
  shows "\<exists>q. tk_queue n s q \<and>
    (\<forall>p < n. (\<exists>t. tk_pc s p = TkIn t) \<longrightarrow> q \<noteq> [] \<and> p = hd q) \<and>
    (q \<noteq> [] \<longrightarrow> (\<exists>t. tk_pc s (hd q) = TkIn t \<or> tk_pc s (hd q) = TkWait t \<and> ticket_served t (tk_lock s))) \<and>
    (\<forall>p < n. tk_pc s p = TkIdle \<longrightarrow>
       tk_queue n \<lparr>tk_lock = snd (ticket_take (tk_lock s)), tk_pc = (tk_pc s)(p := TkWait (fst (ticket_take (tk_lock s))))\<rparr> (q @ [p])) \<and>
    (\<forall>p < n. (\<exists>t. tk_pc s p = TkIn t) \<longrightarrow>
       tk_queue n \<lparr>tk_lock = ticket_unlock (tk_lock s), tk_pc = (tk_pc s)(p := TkIdle)\<rparr> (tl q))"
proof -
  obtain q where q: "tk_queue n s q" using tk_reach_queue [OF assms] by blast
  have "\<exists>t. tk_pc s (hd q) = TkIn t \<or> tk_pc s (hd q) = TkWait t \<and> ticket_served t (tk_lock s)" if "q \<noteq> []"
    using q that by (auto simp: tk_queue_def ticket_served_def hd_conv_nth dest!: spec [of _ 0])
  then show ?thesis
    using q queue_take [OF q, where t = "fst (ticket_take (tk_lock s))" and l = "snd (ticket_take (tk_lock s))"] queue_leave [OF q]
    by (intro exI [of _ q]) (auto simp: hd_conv_nth)
qed

definition tk_demo :: tk_sys where
  "tk_demo = \<lparr>tk_lock = \<lparr>tk_owner = 0, tk_next = 1\<rparr>, tk_pc = (\<lambda>_. TkIdle)(0 := TkIn 0)\<rparr>"

lemma tk_demo_reach: "tk_reach tr n tk_demo" if "0 < n"
proof -
  let ?s = "\<lparr>tk_lock = \<lparr>tk_owner = 0, tk_next = 1\<rparr>, tk_pc = (\<lambda>_. TkIdle)(0 := TkWait 0)\<rparr>"
  have "tk_step tr n tk_start ?s"
    using tk_take [of 0 n tk_start 0 "\<lparr>tk_owner = 0, tk_next = 1\<rparr>" tr] that
    by (simp add: ticket_take_def tk_start_def ticket_init_def)
  then have "tk_reach tr n ?s" by (rule tk_reach_step [OF tk_reach_start])
  moreover have "tk_step tr n ?s tk_demo"
    using tk_spin [of 0 n ?s 0 tr] that by (simp add: ticket_served_def tk_demo_def)
  ultimately show ?thesis by (rule tk_reach_step)
qed

theorem ticket_lock_fifo_witness:
  "tk_reach False 2 tk_demo \<and> (\<exists>q. tk_queue 2 tk_demo q \<and> q \<noteq> [] \<and> hd q = 0)"
proof -
  have r: "tk_reach False 2 tk_demo" by (rule tk_demo_reach) simp
  obtain q where "tk_queue 2 tk_demo q" "\<forall>p < 2. (\<exists>t. tk_pc tk_demo p = TkIn t) \<longrightarrow> q \<noteq> [] \<and> p = hd q"
    using ticket_lock_fifo [OF r] by auto
  moreover have "\<exists>t. tk_pc tk_demo 0 = TkIn t" by (simp add: tk_demo_def)
  ultimately show ?thesis using r by force
qed

text \<open>C34: With \<open>spin_trylock\<close> a ticket lock does not exclude: a CPU that tries in vain writes \<open>next\<close> over \<open>owner\<close>, and the next try
  succeeds while the first CPU is still inside.\<close>

theorem ticket_trylock_breaks:
  "\<exists>s. tk_reach True 3 s \<and> tk_pc s 0 = TkIn 0 \<and> tk_pc s 2 = TkIn 1"
proof -
  define l where "l = (\<lambda>a b. \<lparr>tk_owner = a, tk_next = b\<rparr>)"
  define s where "s = (\<lambda>a b p q. \<lparr>tk_lock = l a b, tk_pc = (\<lambda>_. TkIdle)(0 := TkIn 0, 1 := p, 2 := q)\<rparr>)"
  have 0: "tk_reach True 3 (s 0 1 TkIdle TkIdle)"
  proof -
    have "s 0 1 TkIdle TkIdle = tk_demo" by (auto simp: s_def l_def tk_demo_def fun_eq_iff)
    then show ?thesis using tk_demo_reach [of 3 True] by simp
  qed
  have "tk_step True 3 (s 0 1 TkIdle TkIdle) (s 0 1 (TkTry 1) TkIdle)"
    using tk_read [of True 1 3 "s 0 1 TkIdle TkIdle"] by (simp add: s_def l_def fun_upd_twist)
  then have 1: "tk_reach True 3 (s 0 1 (TkTry 1) TkIdle)" by (rule tk_reach_step [OF 0])
  have "tk_step True 3 (s 0 1 (TkTry 1) TkIdle) (s 1 1 TkIdle TkIdle)"
    using tk_try [of True 1 3 "s 0 1 (TkTry 1) TkIdle" 1 False "l 1 1"] by (simp add: s_def l_def ticket_try_def fun_upd_twist)
  then have 2: "tk_reach True 3 (s 1 1 TkIdle TkIdle)" by (rule tk_reach_step [OF 1])
  have "tk_step True 3 (s 1 1 TkIdle TkIdle) (s 1 1 TkIdle (TkTry 1))"
    using tk_read [of True 2 3 "s 1 1 TkIdle TkIdle"] by (simp add: s_def l_def)
  then have 3: "tk_reach True 3 (s 1 1 TkIdle (TkTry 1))" by (rule tk_reach_step [OF 2])
  have "tk_step True 3 (s 1 1 TkIdle (TkTry 1)) (s 1 2 TkIdle (TkIn 1))"
    using tk_try [of True 2 3 "s 1 1 TkIdle (TkTry 1)" 1 True "l 1 2"] by (simp add: s_def l_def ticket_try_def)
  then have "tk_reach True 3 (s 1 2 TkIdle (TkIn 1))" by (rule tk_reach_step [OF 3])
  then show ?thesis by (intro exI [of _ "s 1 2 TkIdle (TkIn 1)"]) (simp add: s_def)
qed

text \<open>
  The macro \<open>spin_unlock\<close> sets both counters to zero: a CPU that waits with the ticket 1 is served by no later unlocking with the macro.
\<close>

lemma ticket_spin_unlock_forgets: "\<not> ticket_served 1 (ticket_spin_unlock l)"
  by (simp add: ticket_spin_unlock_def ticket_served_def ticket_init_def)

section \<open>Reader-writer spinlocks\<close>

abbreviation RW_SP_UNLOCKED :: u32 where "RW_SP_UNLOCKED \<equiv> 0"
abbreviation RW_SP_READ_LOCKED :: u32 where "RW_SP_READ_LOCKED \<equiv> 1"
abbreviation RW_SP_WRITE_LOCKED :: u32 where "RW_SP_WRITE_LOCKED \<equiv> - 1"

definition rw_cmpxchg :: "u32 \<Rightarrow> u32 \<Rightarrow> u32 \<Rightarrow> bool \<times> u32" where
  "rw_cmpxchg expected desired v = (if v = expected then (True, desired) else (False, v))"

text \<open>
  \<open>read_lock\<close> and \<open>read_trylock\<close> look at the value they have read: whether to try the exchange or to wait, which is to give up for
  \<open>read_trylock\<close>. The lock is a signed number.
\<close>

definition read_check :: "u32 \<Rightarrow> bool option" where
  "read_check old =
     (if sint old \<le> - 1 then (if old = RW_SP_WRITE_LOCKED then Some False else None) else Some True)"

definition read_exchange :: "u32 \<Rightarrow> u32 \<Rightarrow> bool \<times> u32" where
  "read_exchange old v = rw_cmpxchg old (old + 1) v"

definition read_unlock :: "u32 \<Rightarrow> u32 option" where
  "read_unlock v = (if 1 \<le> sint v then Some (v - 1) else None)"

definition write_exchange :: "u32 \<Rightarrow> bool \<times> u32" where
  "write_exchange v = rw_cmpxchg RW_SP_UNLOCKED RW_SP_WRITE_LOCKED v"

definition write_unlock :: "u32 \<Rightarrow> u32 option" where
  "write_unlock v = (if v = RW_SP_WRITE_LOCKED then Some RW_SP_UNLOCKED else None)"

datatype rws_pc = RwsIdle | RwsOld u32 | RwsTry u32 | RwsReading | RwsWriting

record rws_sys =
  rws_val :: u32
  rws_pc :: "nat \<Rightarrow> rws_pc"

inductive rws_step :: "nat \<Rightarrow> rws_sys \<Rightarrow> rws_sys \<Rightarrow> bool" for n :: nat where
  rws_read: "p < n \<Longrightarrow> rws_pc s p = RwsIdle \<Longrightarrow> rws_step n s (s\<lparr>rws_pc := (rws_pc s)(p := RwsOld (rws_val s))\<rparr>)"
| rws_check: "p < n \<Longrightarrow> rws_pc s p = RwsOld old \<Longrightarrow> read_check old = Some b \<Longrightarrow>
    rws_step n s (s\<lparr>rws_pc := (rws_pc s)(p := if b then RwsTry old else RwsIdle)\<rparr>)"
| rws_try: "p < n \<Longrightarrow> rws_pc s p = RwsTry old \<Longrightarrow> read_exchange old (rws_val s) = (b, v) \<Longrightarrow>
    rws_step n s \<lparr>rws_val = v, rws_pc = (rws_pc s)(p := if b then RwsReading else RwsIdle)\<rparr>"
| rws_unread: "p < n \<Longrightarrow> rws_pc s p = RwsReading \<Longrightarrow> read_unlock (rws_val s) = Some v \<Longrightarrow>
    rws_step n s \<lparr>rws_val = v, rws_pc = (rws_pc s)(p := RwsIdle)\<rparr>"
| rws_write: "p < n \<Longrightarrow> rws_pc s p = RwsIdle \<Longrightarrow> write_exchange (rws_val s) = (b, v) \<Longrightarrow>
    rws_step n s \<lparr>rws_val = v, rws_pc = (rws_pc s)(p := if b then RwsWriting else RwsIdle)\<rparr>"
| rws_unwrite: "p < n \<Longrightarrow> rws_pc s p = RwsWriting \<Longrightarrow> write_unlock (rws_val s) = Some v \<Longrightarrow>
    rws_step n s \<lparr>rws_val = v, rws_pc = (rws_pc s)(p := RwsIdle)\<rparr>"

definition rws_start :: rws_sys where
  "rws_start = \<lparr>rws_val = RW_SP_UNLOCKED, rws_pc = (\<lambda>_. RwsIdle)\<rparr>"

inductive rws_reach :: "nat \<Rightarrow> rws_sys \<Rightarrow> bool" for n :: nat where
  rws_reach_start: "rws_reach n rws_start"
| rws_reach_step: "rws_reach n s \<Longrightarrow> rws_step n s s' \<Longrightarrow> rws_reach n s'"

definition readers :: "nat \<Rightarrow> rws_sys \<Rightarrow> nat set" where
  "readers n s = {p. p < n \<and> rws_pc s p = RwsReading}"

definition writers :: "nat \<Rightarrow> rws_sys \<Rightarrow> nat set" where
  "writers n s = {p. p < n \<and> rws_pc s p = RwsWriting}"

text \<open>Nobody writes and the lock counts the readers, or one CPU writes, nobody reads and the lock is minus one.\<close>

definition rws_core :: "nat \<Rightarrow> rws_sys \<Rightarrow> bool" where
  "rws_core n s \<longleftrightarrow>
     writers n s = {} \<and> rws_val s = of_nat (card (readers n s)) \<or>
     (\<exists>w. writers n s = {w}) \<and> readers n s = {} \<and> rws_val s = RW_SP_WRITE_LOCKED"

text \<open>The values that CPUs have read.\<close>

fun rws_old :: "nat \<Rightarrow> rws_pc \<Rightarrow> bool" where
  "rws_old n (RwsOld old) \<longleftrightarrow> old = RW_SP_WRITE_LOCKED \<or> (\<exists>k \<le> n. old = of_nat k)"
| "rws_old n (RwsTry old) \<longleftrightarrow> (\<exists>k \<le> n. old = of_nat k)"
| "rws_old n _ \<longleftrightarrow> True"

definition rws_inv :: "nat \<Rightarrow> rws_sys \<Rightarrow> bool" where
  "rws_inv n s \<longleftrightarrow> rws_core n s \<and> (\<forall>p < n. rws_old n (rws_pc s p))"

lemma finite_readers [simp]: "finite (readers n s)"
  by (simp add: readers_def)

lemma card_readers: "card (readers n s) \<le> n"
  using card_mono [of "{..<n}" "readers n s"] by (auto simp: readers_def)

lemma small_count:
  assumes "k < 2 ^ 31"
  shows "sint (of_nat k :: u32) = int k" "of_nat k \<noteq> (- 1 :: u32)" "(of_nat k :: u32) = 0 \<longleftrightarrow> k = 0"
proof -
  have u: "unat (of_nat k :: u32) = k" using assms by (simp add: unat_of_nat take_bit_nat_eq_self)
  show s: "sint (of_nat k :: u32) = int k"
  proof -
    have "sint (of_nat k :: u32) = sint (word_of_int (int k) :: u32)" by simp
    also have "\<dots> = signed_take_bit 31 (int k)" by (subst sint_sbintrunc') simp
    finally show ?thesis using assms by (simp add: signed_take_bit_int_eq_self)
  qed
  show "of_nat k \<noteq> (- 1 :: u32)"
  proof
    assume "of_nat k = (- 1 :: u32)"
    then have "int k = - 1" using s by simp
    then show False by simp
  qed
  show "(of_nat k :: u32) = 0 \<longleftrightarrow> k = 0" using u by auto
qed

lemma rws_upd:
  "p < n \<Longrightarrow> readers n (s\<lparr>rws_pc := (rws_pc s)(p := x)\<rparr>) = (if x = RwsReading then insert p (readers n s) else readers n s - {p})"
  "p < n \<Longrightarrow> writers n (s\<lparr>rws_pc := (rws_pc s)(p := x)\<rparr>) = (if x = RwsWriting then insert p (writers n s) else writers n s - {p})"
  "p < n \<Longrightarrow> readers n \<lparr>rws_val = v, rws_pc = (rws_pc s)(p := x)\<rparr> = (if x = RwsReading then insert p (readers n s) else readers n s - {p})"
  "p < n \<Longrightarrow> writers n \<lparr>rws_val = v, rws_pc = (rws_pc s)(p := x)\<rparr> = (if x = RwsWriting then insert p (writers n s) else writers n s - {p})"
  by (auto simp: readers_def writers_def)

lemma rws_mem: "p < n \<Longrightarrow> p \<in> readers n s \<longleftrightarrow> rws_pc s p = RwsReading" "p < n \<Longrightarrow> p \<in> writers n s \<longleftrightarrow> rws_pc s p = RwsWriting"
  by (simp_all add: readers_def writers_def)

lemma rws_core_idle:
  assumes "rws_core n s" "p < n" "rws_pc s p \<noteq> RwsReading" "rws_pc s p \<noteq> RwsWriting" "x \<noteq> RwsReading" "x \<noteq> RwsWriting"
  shows "rws_core n \<lparr>rws_val = rws_val s, rws_pc = (rws_pc s)(p := x)\<rparr>"
proof -
  have "p \<notin> readers n s" "p \<notin> writers n s" using assms(2-4) by (simp_all add: rws_mem)
  then show ?thesis using assms(1,2,5,6) by (simp add: rws_core_def rws_upd)
qed

lemma rws_step_core:
  assumes "rws_step n s s'" "rws_inv n s" "n < 2 ^ 31"
  shows "rws_core n s'"
proof -
  have core: "rws_core n s" and old: "\<And>p. p < n \<Longrightarrow> rws_old n (rws_pc s p)" using assms(2) by (simp_all add: rws_inv_def)
  have count: "card (readers n s) < 2 ^ 31" using card_readers [of n s] assms(3) by simp
  from assms(1) show ?thesis
  proof cases
    case (rws_read p)
    then show ?thesis using rws_core_idle [OF core, of p "RwsOld (rws_val s)"] by (cases s) simp
  next
    case (rws_check p v b)
    then show ?thesis using rws_core_idle [OF core, of p "if b then RwsTry v else RwsIdle"] by (cases s) auto
  next
    case (rws_try p v b w)
    show ?thesis
    proof (cases b)
      case False
      then show ?thesis using rws_try rws_core_idle [OF core, of p RwsIdle] by (auto simp: read_exchange_def rw_cmpxchg_def split: if_splits)
    next
      case True
      then have w: "rws_val s = v" "w = v + 1" using rws_try by (auto simp: read_exchange_def rw_cmpxchg_def split: if_splits)
      obtain k where "k \<le> n" "v = of_nat k" using old [OF rws_try(2)] rws_try(3) by auto
      then have "v \<noteq> RW_SP_WRITE_LOCKED" using small_count(2) [of k] assms(3) by simp
      moreover have "p \<notin> readers n s" "p \<notin> writers n s" using rws_try by (simp_all add: rws_mem)
      ultimately show ?thesis using core w True rws_try by (auto simp: rws_core_def rws_upd)
    qed
  next
    case (rws_unread p v)
    have p: "p \<in> readers n s" using rws_unread by (simp add: rws_mem)
    then have "card (readers n s) = Suc (card (readers n s - {p}))" using card.remove [OF finite_readers p] by simp
    then show ?thesis
      using core p rws_unread by (auto simp: rws_core_def rws_upd read_unlock_def split: if_splits)
  next
    case (rws_write p b v)
    show ?thesis
    proof (cases b)
      case False
      then show ?thesis using rws_write rws_core_idle [OF core, of p RwsIdle] by (auto simp: write_exchange_def rw_cmpxchg_def split: if_splits)
    next
      case True
      then have "rws_val s = 0" "v = RW_SP_WRITE_LOCKED" using rws_write by (auto simp: write_exchange_def rw_cmpxchg_def split: if_splits)
      then have "writers n s = {}" "readers n s = {}" using core small_count(3) [OF count] by (auto simp: rws_core_def)
      then show ?thesis using True rws_write \<open>v = RW_SP_WRITE_LOCKED\<close> by (simp add: rws_core_def rws_upd)
    qed
  next
    case (rws_unwrite p v)
    then have "p \<in> writers n s" "v = 0" by (auto simp: rws_mem write_unlock_def split: if_splits)
    then have "writers n s = {p}" "readers n s = {}" using core by (auto simp: rws_core_def)
    then show ?thesis using rws_unwrite \<open>v = 0\<close> by (simp add: rws_core_def rws_upd)
  qed
qed

lemma rws_step_inv:
  assumes "rws_step n s s'" "rws_inv n s" "n < 2 ^ 31"
  shows "rws_inv n s'"
proof -
  have core: "rws_core n s" and old: "\<And>p. p < n \<Longrightarrow> rws_old n (rws_pc s p)" using assms(2) by (simp_all add: rws_inv_def)
  have val: "rws_val s = RW_SP_WRITE_LOCKED \<or> (\<exists>k \<le> n. rws_val s = of_nat k)"
    using core card_readers [of n s] by (auto simp: rws_core_def)
  have "rws_old n (rws_pc s' q)" if "q < n" for q
    using assms(1)
  proof cases
    case (rws_check p v b)
    have "rws_old n (RwsOld v)" using old [of p] rws_check by simp
    moreover have "b \<Longrightarrow> v \<noteq> RW_SP_WRITE_LOCKED" using rws_check(4) by (auto simp: read_check_def split: if_splits)
    ultimately show ?thesis using rws_check old [OF that] by auto
  qed (use old that val in auto)
  then show ?thesis using rws_step_core [OF assms] by (simp add: rws_inv_def)
qed

lemma rws_reach_inv: "rws_reach n s \<Longrightarrow> n < 2 ^ 31 \<Longrightarrow> rws_inv n s"
proof (induction rule: rws_reach.induct)
  case rws_reach_start
  show ?case by (simp add: rws_inv_def rws_core_def rws_start_def readers_def writers_def)
qed (rule rws_step_inv)

text \<open>C35: In every reachable state of fewer than \<open>2 ^ 31\<close> CPUs a CPU that writes under a reader-writer spinlock excludes all readers and
  other writers, and no assertion of the lock fails: not the one on the value that a reader finds, and not those of the unlocking functions.\<close>

theorem rw_spinlock_exclusion:
  assumes "rws_reach n s" "n < 2 ^ 31" "p < n"
  shows "(rws_pc s p = RwsWriting \<longrightarrow> readers n s = {} \<and> writers n s = {p} \<and> write_unlock (rws_val s) \<noteq> None) \<and>
    (rws_pc s p = RwsReading \<longrightarrow> writers n s = {} \<and> read_unlock (rws_val s) \<noteq> None) \<and>
    (\<forall>old. rws_pc s p = RwsOld old \<longrightarrow> read_check old \<noteq> None)"
proof -
  have inv: "rws_core n s" "rws_old n (rws_pc s p)" using rws_reach_inv [OF assms(1,2)] assms(3) by (simp_all add: rws_inv_def)
  have "read_check old \<noteq> None" if "rws_pc s p = RwsOld old" for old
  proof -
    have "sint old \<le> - 1 \<Longrightarrow> old = RW_SP_WRITE_LOCKED"
      using inv(2) that small_count(1) assms(2) by (auto simp del: signed_of_nat)
    then show ?thesis by (auto simp: read_check_def)
  qed
  moreover have "writers n s = {} \<and> 1 \<le> sint (rws_val s)" if "rws_pc s p = RwsReading"
  proof -
    have p: "p \<in> readers n s" using that assms(3) by (simp add: rws_mem)
    then have "0 < card (readers n s)" by (auto simp: card_gt_0_iff)
    then show ?thesis using inv(1) p small_count(1) [of "card (readers n s)"] card_readers [of n s] assms(2) by (auto simp: rws_core_def)
  qed
  moreover have "readers n s = {} \<and> writers n s = {p} \<and> rws_val s = RW_SP_WRITE_LOCKED" if "rws_pc s p = RwsWriting"
    using inv(1) that assms(3) rws_mem(2) [of p n s] by (auto simp: rws_core_def)
  ultimately show ?thesis by (auto simp: read_unlock_def write_unlock_def)
qed

definition rws_demo :: rws_sys where
  "rws_demo = \<lparr>rws_val = RW_SP_WRITE_LOCKED, rws_pc = (\<lambda>_. RwsIdle)(0 := RwsWriting)\<rparr>"

lemma rws_demo_reach: "rws_reach 2 rws_demo"
proof -
  have "rws_step 2 rws_start rws_demo"
    using rws_write [of 0 2 rws_start True RW_SP_WRITE_LOCKED] by (simp add: rws_start_def rws_demo_def write_exchange_def rw_cmpxchg_def)
  then show ?thesis by (rule rws_reach_step [OF rws_reach_start])
qed

theorem rw_spinlock_exclusion_witness:
  "rws_reach 2 rws_demo \<and> rws_pc rws_demo 0 = RwsWriting \<and> readers 2 rws_demo = {} \<and> writers 2 rws_demo = {0} \<and>
   write_unlock (rws_val rws_demo) \<noteq> None"
proof -
  have "rws_pc rws_demo 0 = RwsWriting" by (simp add: rws_demo_def)
  then show ?thesis using rw_spinlock_exclusion [OF rws_demo_reach, of 0] rws_demo_reach by simp
qed

section \<open>Recursive spinlocks\<close>



definition rspin_cpu :: "nat \<Rightarrow> 16 word" where
  "rspin_cpu c = of_nat (c + 1)"















lemma unat_half: "k \<le> 65535 \<Longrightarrow> unat (of_nat k :: 16 word) = k"
  unfolding unat_of_nat by (rule mod_less) simp

lemma unat_rspin_cpu: "c < 65535 \<Longrightarrow> unat (rspin_cpu c) = Suc c"
  unfolding rspin_cpu_def by (subst unat_half) simp_all

lemma rspin_cpu_inj: "c < 65535 \<Longrightarrow> d < 65535 \<Longrightarrow> rspin_cpu c = rspin_cpu d \<longleftrightarrow> c = d"
  by (metis unat_rspin_cpu nat.inject)




















end
