(* ===== verification/Seqlock.thy ===== *)
theory Seqlock
  imports Prelude
begin

text \<open>
  Sequence locks (\<open>include/nuttx/seqlock.h\<close> with \<open>CONFIG_SMP\<close>) and the tick counter that one of them protects
  (\<open>sched/clock/clock_sched_ticks.c\<close>). The counter has 64 bits and is accessed in two halves, as on a machine of 32 bits: the lock has to
  make them consistent. The functions are cut into single accesses to memory, and any number of threads of control (tasks and
  interrupt handlers) execute them in any order. The memory is sequentially consistent.
\<close>

section \<open>The functions\<close>

definition seqlock_init :: u32 where
  "seqlock_init = 0"

definition read_seqbegin :: "u32 \<Rightarrow> u32" where
  "read_seqbegin sequence = sequence AND NOT 1"

definition read_seqretry :: "u32 \<Rightarrow> u32 \<Rightarrow> bool" where
  "read_seqretry sequence start \<longleftrightarrow> sequence \<noteq> start"

text \<open>The test in the loop of \<open>write_seqlock_irqsave\<close>, and its compare-and-exchange; the value to store in \<open>write_sequnlock_irqrestore\<close>.\<close>

definition seq_writable :: "u32 \<Rightarrow> bool" where
  "seq_writable sequence \<longleftrightarrow> sequence AND 1 = 0"

definition seq_acquire :: "u32 \<Rightarrow> u32 \<Rightarrow> bool \<times> u32" where
  "seq_acquire seen sequence = (if sequence = seen then (True, seen + 1) else (False, sequence))"

definition write_sequnlock :: "u32 \<Rightarrow> u32" where
  "write_sequnlock sequence = sequence + 1"

text \<open>The two halves of a tick count.\<close>

definition tick_lo :: "64 word \<Rightarrow> u32" where
  "tick_lo v = ucast v"

definition tick_hi :: "64 word \<Rightarrow> u32" where
  "tick_hi v = ucast (drop_bit 32 v)"

definition tick_join :: "u32 \<Rightarrow> u32 \<Rightarrow> 64 word" where
  "tick_join h l = push_bit 32 (ucast h) OR ucast l"

lemma tick_join_halves: "tick_join (tick_hi v) (tick_lo v) = v"
  by (rule bit_word_eqI) (auto simp: tick_join_def tick_hi_def tick_lo_def bit_simps)

text \<open>\<open>clock_update_sched_ticks\<close> stores its argument, \<open>clock_increase_sched_ticks\<close> adds it.\<close>

datatype tick_call = Update "64 word" | Increase "64 word"

fun tick_value :: "tick_call \<Rightarrow> 64 word \<Rightarrow> 64 word" where
  "tick_value (Update ticks) old = ticks"
| "tick_value (Increase ticks) old = old + ticks"

section \<open>Interleaving\<close>

text \<open>
  Where a thread of control is. A writer: looking for an even sequence number, trying to take the lock, inside, with the new value, with
  its low half stored, with both halves stored, and with the sequence number read. A reader: with the number of \<open>read_seqbegin\<close>, with the
  low half, with both halves, and behind \<open>read_seqretry\<close> with the value to return. The last component of the reading states is the number of
  changes of the lock that there had been at \<open>read_seqbegin\<close>, which the code does not keep.
\<close>

datatype sq_pc =
    SqOut
  | WLook tick_call | WTry tick_call u32 | WIn tick_call | WNew "64 word" | WHalf "64 word" | WDone "64 word" | WUnl "64 word" u32
  | RBegin u32 nat | RLo u32 u32 nat | RHi u32 u32 u32 nat | RRet "64 word"

text \<open>Beside the lock and the counter: the number of changes of the lock, and the count as if each call were one step.\<close>

record sq_sys =
  sq_seq :: u32
  sq_lo :: u32
  sq_hi :: u32
  sq_pc :: "nat \<Rightarrow> sq_pc"
  sq_changes :: nat
  sq_ticks :: "64 word"

definition sq_go :: "nat \<Rightarrow> sq_pc \<Rightarrow> sq_sys \<Rightarrow> sq_sys" where
  "sq_go p q s = s\<lparr>sq_pc := (sq_pc s)(p := q)\<rparr>"

inductive sq_step :: "sq_sys \<Rightarrow> sq_sys \<Rightarrow> bool" where
  w_call: "sq_pc s p = SqOut \<Longrightarrow> sq_step s (sq_go p (WLook op) s)"
| w_look: "sq_pc s p = WLook op \<Longrightarrow> sq_step s (sq_go p (if seq_writable (sq_seq s) then WTry op (sq_seq s) else WLook op) s)"
| w_try_ok: "sq_pc s p = WTry op v \<Longrightarrow> seq_acquire v (sq_seq s) = (True, w) \<Longrightarrow>
    sq_step s (sq_go p (WIn op) (s\<lparr>sq_seq := w, sq_changes := sq_changes s + 1\<rparr>))"
| w_try_fail: "sq_pc s p = WTry op v \<Longrightarrow> seq_acquire v (sq_seq s) = (False, w) \<Longrightarrow> sq_step s (sq_go p (WLook op) (s\<lparr>sq_seq := w\<rparr>))"
| w_new: "sq_pc s p = WIn op \<Longrightarrow> sq_step s (sq_go p (WNew (tick_value op (tick_join (sq_hi s) (sq_lo s)))) (s\<lparr>sq_ticks := tick_value op (sq_ticks s)\<rparr>))"
| w_lo: "sq_pc s p = WNew v \<Longrightarrow> sq_step s (sq_go p (WHalf v) (s\<lparr>sq_lo := tick_lo v\<rparr>))"
| w_hi: "sq_pc s p = WHalf v \<Longrightarrow> sq_step s (sq_go p (WDone v) (s\<lparr>sq_hi := tick_hi v\<rparr>))"
| w_done: "sq_pc s p = WDone v \<Longrightarrow> sq_step s (sq_go p (WUnl v (sq_seq s)) s)"
| w_unlock: "sq_pc s p = WUnl v w \<Longrightarrow> sq_step s (sq_go p SqOut (s\<lparr>sq_seq := write_sequnlock w, sq_changes := sq_changes s + 1\<rparr>))"
| r_begin: "sq_pc s p = SqOut \<Longrightarrow> sq_step s (sq_go p (RBegin (read_seqbegin (sq_seq s)) (sq_changes s)) s)"
| r_lo: "sq_pc s p = RBegin b k \<Longrightarrow> sq_step s (sq_go p (RLo b (sq_lo s) k) s)"
| r_hi: "sq_pc s p = RLo b l k \<Longrightarrow> sq_step s (sq_go p (RHi b l (sq_hi s) k) s)"
| r_again: "sq_pc s p = RHi b l h k \<Longrightarrow> read_seqretry (sq_seq s) b \<Longrightarrow>
    sq_step s (sq_go p (RBegin (read_seqbegin (sq_seq s)) (sq_changes s)) s)"
| r_ret: "sq_pc s p = RHi b l h k \<Longrightarrow> \<not> read_seqretry (sq_seq s) b \<Longrightarrow> sq_step s (sq_go p (RRet (tick_join h l)) s)"
| r_out: "sq_pc s p = RRet v \<Longrightarrow> sq_step s (sq_go p SqOut s)"

definition sq_start :: "64 word \<Rightarrow> sq_sys" where
  "sq_start v = \<lparr>sq_seq = seqlock_init, sq_lo = tick_lo v, sq_hi = tick_hi v, sq_pc = (\<lambda>_. SqOut), sq_changes = 0, sq_ticks = v\<rparr>"

inductive sq_reach :: "sq_sys \<Rightarrow> bool" where
  sq_reach_start: "sq_reach (sq_start v)"
| sq_reach_step: "sq_reach s \<Longrightarrow> sq_step s s' \<Longrightarrow> sq_reach s'"

section \<open>The invariant\<close>

lemma read_seqbegin_even: "read_seqbegin (of_nat k) = of_nat (k - k mod 2)"
proof -
  let ?x = "of_nat k :: u32"
  have "(?x AND NOT 1) + (?x AND 1) = ((?x AND NOT 1) AND (?x AND 1)) + ((?x AND NOT 1) OR (?x AND 1))" by (rule word_plus_and_or [symmetric])
  also have "(?x AND NOT 1) AND (?x AND 1) = 0" by (rule bit_word_eqI) (auto simp: bit_simps)
  also have "(?x AND NOT 1) OR (?x AND 1) = ?x" by (rule bit_word_eqI) (auto simp: bit_simps)
  finally have "?x AND NOT 1 = ?x - (?x AND 1)" by (simp add: algebra_simps)
  also have "?x AND 1 = of_nat (k mod 2)" by (simp add: and_one_eq even_iff_mod_2_eq_zero [symmetric] mod_2_eq_odd)
  finally show ?thesis by (simp add: read_seqbegin_def of_nat_diff)
qed

text \<open>A number comes back only after \<open>2 ^ 32\<close> changes.\<close>

lemma seq_same:
  assumes "k \<le> n" "n - k < 2 ^ 32 - 1"
  shows "(of_nat n :: u32) = of_nat (k - k mod 2) \<longleftrightarrow> n = k \<and> even k"
proof -
  obtain e where e: "k - k mod 2 = e" "e \<le> k" "k \<le> e + 1" "e = k \<longleftrightarrow> even k"
  proof (rule that [of "k - k mod 2"])
    show "k \<le> k - k mod 2 + 1" by (cases "even k") (simp_all add: odd_iff_mod_2_eq_one)
    show "k - k mod 2 = k \<longleftrightarrow> even k" by (cases "even k") (auto simp: odd_iff_mod_2_eq_one elim: oddE)
  qed simp_all
  have small: "n - e < 2 ^ 32" using assms e(2,3) by simp
  have "(of_nat n :: u32) = of_nat e \<longleftrightarrow> n mod 2 ^ 32 = e mod 2 ^ 32"
    unfolding word_of_nat_eq_iff by (simp add: take_bit_eq_mod)
  also have "\<dots> \<longleftrightarrow> 2 ^ 32 dvd n - e" using assms(1) e(2) by (intro mod_eq_dvd_iff_nat) simp
  also have "\<dots> \<longleftrightarrow> n - e = 0" using small by (metis dvd_0_right gr0I nat_dvd_not_less)
  also have "\<dots> \<longleftrightarrow> n = k \<and> even k" using assms(1) e(2-4) by linarith
  finally show ?thesis by (simp only: e(1))
qed

fun writing :: "sq_pc \<Rightarrow> bool" where
  "writing (WIn op) = True"
| "writing (WNew v) = True"
| "writing (WHalf v) = True"
| "writing (WDone v) = True"
| "writing (WUnl v w) = True"
| "writing _ = False"

text \<open>What a thread of control knows: a writer inside of the lock, and a reader as long as the lock has not changed.\<close>

fun sq_knows :: "sq_sys \<Rightarrow> sq_pc \<Rightarrow> bool" where
  "sq_knows s (WTry op v) \<longleftrightarrow> even v"
| "sq_knows s (WIn op) \<longleftrightarrow> tick_join (sq_hi s) (sq_lo s) = sq_ticks s"
| "sq_knows s (WNew v) \<longleftrightarrow> v = sq_ticks s"
| "sq_knows s (WHalf v) \<longleftrightarrow> v = sq_ticks s \<and> sq_lo s = tick_lo v"
| "sq_knows s (WDone v) \<longleftrightarrow> v = sq_ticks s \<and> sq_lo s = tick_lo v \<and> sq_hi s = tick_hi v"
| "sq_knows s (WUnl v w) \<longleftrightarrow> v = sq_ticks s \<and> sq_lo s = tick_lo v \<and> sq_hi s = tick_hi v \<and> w = sq_seq s"
| "sq_knows s (RBegin b k) \<longleftrightarrow> k \<le> sq_changes s \<and> b = read_seqbegin (of_nat k)"
| "sq_knows s (RLo b l k) \<longleftrightarrow> k \<le> sq_changes s \<and> b = read_seqbegin (of_nat k) \<and> (sq_changes s = k \<and> even k \<longrightarrow> l = sq_lo s)"
| "sq_knows s (RHi b l h k) \<longleftrightarrow> k \<le> sq_changes s \<and> b = read_seqbegin (of_nat k) \<and> (sq_changes s = k \<and> even k \<longrightarrow> l = sq_lo s \<and> h = sq_hi s)"
| "sq_knows s _ \<longleftrightarrow> True"

definition sq_inv :: "sq_sys \<Rightarrow> bool" where
  "sq_inv s \<longleftrightarrow> sq_seq s = of_nat (sq_changes s) \<and> (\<forall>p q. writing (sq_pc s p) \<longrightarrow> writing (sq_pc s q) \<longrightarrow> p = q) \<and>
     (odd (sq_changes s) \<longleftrightarrow> (\<exists>p. writing (sq_pc s p))) \<and>
     (even (sq_changes s) \<longrightarrow> tick_join (sq_hi s) (sq_lo s) = sq_ticks s) \<and> (\<forall>p. sq_knows s (sq_pc s p))"

lemma sq_invD:
  assumes "sq_inv s"
  shows "sq_seq s = of_nat (sq_changes s)" "\<And>p q. writing (sq_pc s p) \<Longrightarrow> writing (sq_pc s q) \<Longrightarrow> p = q"
    "odd (sq_changes s) \<longleftrightarrow> (\<exists>p. writing (sq_pc s p))" "even (sq_changes s) \<Longrightarrow> tick_join (sq_hi s) (sq_lo s) = sq_ticks s"
    "\<And>p. sq_knows s (sq_pc s p)"
  using assms unfolding sq_inv_def by blast+

text \<open>A step that changes only the place of one thread of control, outside of the lock.\<close>

lemma sq_inv_go:
  assumes "sq_inv s" "writing q = writing (sq_pc s p)" "sq_knows s q"
  shows "sq_inv (sq_go p q s)"
proof -
  have k: "sq_knows (sq_go p q s) = sq_knows s"
  proof (intro ext)
    show "sq_knows (sq_go p q s) x = sq_knows s x" for x by (cases x) (simp_all add: sq_go_def)
  qed
  have w: "writing (sq_pc (sq_go p q s) r) = writing (sq_pc s r)" for r using assms(2) by (simp add: sq_go_def)
  have "sq_knows s (sq_pc (sq_go p q s) r)" for r using sq_invD(5) [OF assms(1), of r] assms(3) by (simp add: sq_go_def)
  moreover have "sq_seq (sq_go p q s) = sq_seq s" "sq_changes (sq_go p q s) = sq_changes s" "sq_hi (sq_go p q s) = sq_hi s"
    "sq_lo (sq_go p q s) = sq_lo s" "sq_ticks (sq_go p q s) = sq_ticks s" by (simp_all add: sq_go_def)
  ultimately show ?thesis using assms(1) unfolding sq_inv_def k w by simp
qed

text \<open>A step of the only writer that changes the lock, or changes the counter while the sequence number is odd.\<close>

lemma sq_knows_kept:
  assumes "sq_knows s x" "\<not> writing x" "sq_changes s \<le> sq_changes s'" "even (sq_changes s') \<Longrightarrow> sq_changes s < sq_changes s'"
  shows "sq_knows s' x"
  using assms by (cases x) auto

lemma sq_inv_write:
  assumes "sq_inv s" "sq_changes s \<le> sq_changes s'" "even (sq_changes s') \<Longrightarrow> sq_changes s < sq_changes s'"
    "sq_seq s' = of_nat (sq_changes s')" "sq_pc s' = (sq_pc s)(p := q)" "odd (sq_changes s') = writing q"
    "\<And>r. r \<noteq> p \<Longrightarrow> \<not> writing (sq_pc s r)" "sq_knows s' q" "even (sq_changes s') \<Longrightarrow> tick_join (sq_hi s') (sq_lo s') = sq_ticks s'"
  shows "sq_inv s'"
proof -
  have "sq_knows s' (sq_pc s' r)" for r
    using sq_knows_kept [OF sq_invD(5) [OF assms(1)] _ assms(2,3)] assms(5,7,8) by (cases "r = p") simp_all
  moreover have "writing (sq_pc s' r) \<longleftrightarrow> r = p \<and> writing q" for r using assms(5,7) by simp
  ultimately show ?thesis using assms(4,6,9) by (auto simp: sq_inv_def)
qed

lemma sq_writer_alone:
  assumes "sq_inv s" "writing (sq_pc s p)"
  shows "odd (sq_changes s)" "\<And>r. r \<noteq> p \<Longrightarrow> \<not> writing (sq_pc s r)"
  using sq_invD(2,3) [OF assms(1)] assms(2) by blast+

lemma sq_lock_inv:
  assumes "sq_inv s" "sq_pc s p = WTry op v" "seq_acquire v (sq_seq s) = (b, w)"
  shows "sq_inv (if b then sq_go p (WIn op) (s\<lparr>sq_seq := w, sq_changes := sq_changes s + 1\<rparr>) else sq_go p (WLook op) (s\<lparr>sq_seq := w\<rparr>))"
proof (cases b)
  case False
  then have "s\<lparr>sq_seq := w\<rparr> = s" using assms(3) by (auto simp: seq_acquire_def split: if_splits)
  then show ?thesis using sq_inv_go [OF assms(1), of "WLook op" p] assms(2) False by simp
next
  case True
  then have w: "sq_seq s = v" "w = v + 1" using assms(3) by (auto simp: seq_acquire_def split: if_splits)
  have "even v" using sq_invD(5) [OF assms(1), of p] assms(2) by simp
  then have e: "even (sq_changes s)" using sq_invD(1) [OF assms(1)] w(1) by simp
  have "sq_inv (sq_go p (WIn op) (s\<lparr>sq_seq := w, sq_changes := sq_changes s + 1\<rparr>))"
    by (rule sq_inv_write [OF assms(1), where p = p and q = "WIn op"])
      (use e w sq_invD(1,3,4) [OF assms(1)] in \<open>auto simp: sq_go_def\<close>)
  then show ?thesis using True by simp
qed

lemma sq_step_inv:
  assumes "sq_step s s'" "sq_inv s"
  shows "sq_inv s'"
proof -
  note sequence = sq_invD(1) [OF assms(2)] and knows = sq_invD(5) [OF assms(2)]
  from assms(1) show ?thesis
  proof cases
    case (w_try_ok p op v w)
    then show ?thesis using sq_lock_inv [OF assms(2), of p op v True w] by simp
  next
    case (w_try_fail p op v w)
    then show ?thesis using sq_lock_inv [OF assms(2), of p op v False w] by simp
  next
    case (w_new p op)
    then show ?thesis using sq_writer_alone [OF assms(2), of p] sequence knows [of p]
      by (intro sq_inv_write [OF assms(2), where p = p and q = "WNew (tick_value op (sq_ticks s))"]) (auto simp: sq_go_def)
  next
    case (w_lo p v)
    then show ?thesis using sq_writer_alone [OF assms(2), of p] sequence knows [of p]
      by (intro sq_inv_write [OF assms(2), where p = p and q = "WHalf v"]) (auto simp: sq_go_def)
  next
    case (w_hi p v)
    then show ?thesis using sq_writer_alone [OF assms(2), of p] sequence knows [of p]
      by (intro sq_inv_write [OF assms(2), where p = p and q = "WDone v"]) (auto simp: sq_go_def)
  next
    case (w_unlock p v w)
    then show ?thesis using sq_writer_alone [OF assms(2), of p] sequence knows [of p]
      by (intro sq_inv_write [OF assms(2), where p = p and q = SqOut]) (auto simp: sq_go_def write_sequnlock_def tick_join_halves)
  next
    case (w_look p op)
    have "even (sq_seq s)" if "seq_writable (sq_seq s)" using that by (simp add: seq_writable_def and_one_eq even_iff_mod_2_eq_zero)
    then show ?thesis using w_look sq_inv_go [OF assms(2)] by simp
  next
    case (w_call p op)
    then show ?thesis using sq_inv_go [OF assms(2), of "WLook op" p] sequence knows [of p] by simp
  next
    case (w_done p v)
    then show ?thesis using sq_inv_go [OF assms(2), of "WUnl v (sq_seq s)" p] sequence knows [of p] by simp
  next
    case (r_begin p)
    then show ?thesis using sq_inv_go [OF assms(2), of "RBegin (read_seqbegin (sq_seq s)) (sq_changes s)" p] sequence knows [of p] by simp
  next
    case (r_lo p b k)
    then show ?thesis using sq_inv_go [OF assms(2), of "RLo b (sq_lo s) k" p] sequence knows [of p] by simp
  next
    case (r_hi p b l k)
    then show ?thesis using sq_inv_go [OF assms(2), of "RHi b l (sq_hi s) k" p] sequence knows [of p] by simp
  next
    case (r_again p b l h k)
    then show ?thesis using sq_inv_go [OF assms(2), of "RBegin (read_seqbegin (sq_seq s)) (sq_changes s)" p] sequence knows [of p] by simp
  next
    case (r_ret p b l h k)
    then show ?thesis using sq_inv_go [OF assms(2), of "RRet (tick_join h l)" p] sequence knows [of p] by simp
  next
    case (r_out p v)
    then show ?thesis using sq_inv_go [OF assms(2), of "SqOut" p] sequence knows [of p] by simp
  qed
qed

lemma sq_reach_inv: "sq_reach s \<Longrightarrow> sq_inv s"
proof (induction rule: sq_reach.induct)
  case (sq_reach_start v)
  show ?case by (simp add: sq_inv_def sq_start_def seqlock_init_def tick_join_halves)
qed (rule sq_step_inv)

section \<open>Consistent reads\<close>

text \<open>C37: A reader of the tick counter that has read both halves, while the lock has changed fewer than \<open>2 ^ 32 - 1\<close> times, leaves its loop
  exactly if no writer has been in the lock since the reading began; the value it then returns is the tick count of that moment, all
  updates and increments made by whole calls: it is never put together from the halves of two values, and no call of a writer is lost.\<close>

theorem seqlock_read_consistent:
  assumes "sq_reach s" "sq_pc s p = RHi start lo hi k" "sq_changes s - k < 2 ^ 32 - 1"
  shows "(\<not> read_seqretry (sq_seq s) start \<longleftrightarrow> sq_changes s = k \<and> even k) \<and>
    (\<not> read_seqretry (sq_seq s) start \<longrightarrow> tick_join hi lo = sq_ticks s \<and> (\<forall>q. \<not> writing (sq_pc s q)))"
proof -
  note inv = sq_reach_inv [OF assms(1)]
  have r: "k \<le> sq_changes s" "start = read_seqbegin (of_nat k)" "sq_changes s = k \<and> even k \<Longrightarrow> lo = sq_lo s \<and> hi = sq_hi s"
    using sq_invD(5) [OF inv, of p] assms(2) by auto
  have same: "\<not> read_seqretry (sq_seq s) start \<longleftrightarrow> sq_changes s = k \<and> even k"
    unfolding read_seqretry_def sq_invD(1) [OF inv] r(2) read_seqbegin_even not_not by (rule seq_same [OF r(1) assms(3)])
  have "tick_join hi lo = sq_ticks s \<and> (\<forall>q. \<not> writing (sq_pc s q))" if "sq_changes s = k \<and> even k"
    using r(3) [OF that] sq_invD(3,4) [OF inv] that by auto
  then show ?thesis using same by blast
qed

definition sq_demo :: "sq_pc \<Rightarrow> sq_sys" where
  "sq_demo q = sq_go 1 q (sq_start 0x100000002)"

lemma sq_demo_reach: "sq_reach (sq_demo (RHi 0 2 1 0))"
proof -
  have v: "sq_start 0x100000002 = \<lparr>sq_seq = 0, sq_lo = 2, sq_hi = 1, sq_pc = (\<lambda>_. SqOut), sq_changes = 0, sq_ticks = 0x100000002\<rparr>"
    by (simp add: sq_start_def seqlock_init_def tick_lo_def tick_hi_def)
  have 1: "sq_step (sq_start 0x100000002) (sq_demo (RBegin 0 0))"
    using r_begin [of "sq_start 0x100000002" 1] by (simp add: sq_demo_def v read_seqbegin_def)
  have 2: "sq_step (sq_demo (RBegin 0 0)) (sq_demo (RLo 0 2 0))"
    using r_lo [of "sq_demo (RBegin 0 0)" 1 0 0] by (simp add: sq_demo_def v sq_go_def)
  have 3: "sq_step (sq_demo (RLo 0 2 0)) (sq_demo (RHi 0 2 1 0))"
    using r_hi [of "sq_demo (RLo 0 2 0)" 1 0 2 0] by (simp add: sq_demo_def v sq_go_def)
  show ?thesis using sq_reach_start 1 2 3 by (blast intro: sq_reach_step)
qed

theorem seqlock_read_consistent_witness:
  "sq_reach (sq_demo (RHi 0 2 1 0)) \<and> sq_pc (sq_demo (RHi 0 2 1 0)) 1 = RHi 0 2 1 0 \<and> \<not> read_seqretry (sq_seq (sq_demo (RHi 0 2 1 0))) 0 \<and>
   tick_join 1 2 = sq_ticks (sq_demo (RHi 0 2 1 0))"
proof -
  have "sq_pc (sq_demo (RHi 0 2 1 0)) 1 = RHi 0 2 1 0" "sq_changes (sq_demo (RHi 0 2 1 0)) = 0"
    by (simp_all add: sq_demo_def sq_go_def sq_start_def)
  then show ?thesis using seqlock_read_consistent [OF sq_demo_reach, of 1 0 2 1 0] sq_demo_reach by simp
qed

end
