(* ===== verification/Spec2Isabelle.thy ===== *)
theory Spec2Isabelle
  imports Sem_Props Time_Props Rwsem Frap_Order Frap_Calls Frap_Progress Circbuf Crc_Props Csection Spinlocks Seqlock
begin

text \<open>
  Verification of FRAP (finite-resource-aware spin protocol) and of the parts of the NuttX kernel it works
  with. Paths are below \<open>src/nuttx\<close>. The configuration is the one \<open>run_frap.sh\<close> builds for: \<open>CONFIG_SMP\<close>
  on arm64, a timer interrupt per tick (no tickless mode, no high-resolution timers), round robin but no sporadic
  scheduling, priority inheritance with preallocated holders, priority protection. The number of CPUs is arbitrary.

  \<^bold>\<open>The program.\<close> FRAP gives tasks on several CPUs mutual exclusion on a shared resource. \<open>frap_lock\<close> raises the
  caller to its spin priority, puts it at the end of the FIFO of the resource and spins until it is first and the resource is
  free; in its critical section it cannot be preempted. A waiting task that the scheduler preempts is taken out of the FIFO by a
  hook in the context switch, goes back to its base priority, and queues again when it runs next. FRAP calls the scheduler to
  change priorities and to lock preemption, and the scheduler calls FRAP through the hook. The scheduler keeps its tasks in
  prioritized queues and delivers switches to other CPUs. Tasks block on semaphores, whose holders inherit
  priorities through the same scheduler operations. Each tick advances the clock, rotates the round-robin tasks and
  runs the watchdogs, which end timed waits. Reader-writer locks are built on semaphores. Below all of this are the critical section, one lock for all
  CPUs that follows the tasks through context switches, and the spinlocks. Beside the kernel two components of the C library are covered: circular byte
  buffers and checksums.

  \<^bold>\<open>Theories, from the bottom.\<close>
  \<^item> \<open>Prelude\<close>: machine integers, errno values, lists in descending order of a key.
  \<^item> \<open>List_Node\<close>, \<open>Dq_Queue\<close>: the pointer code of \<open>include/nuttx/list.h\<close>, \<open>include/nuttx/queue.h\<close> and
    \<open>nxsched_add_prioritized\<close> on explicit heaps, macro by macro, and its refinement to lists (locale \<open>task_queue\<close>, C13).
  \<^item> \<open>Kernel\<close>: the TCB, the FRAP resource, the task lists and the global variables of the scheduler.
  \<^item> \<open>Sched\<close>: the operations of \<open>sched/sched\<close>, from the choice of a CPU to \<open>sched_unlock\<close>. \<open>Sched_Inv\<close>: the invariant
    \<open>sched_wf\<close> (task states, lists and CPU assignment agree, lists are in order) and its preservation by each operation.
    \<open>Sched_Frame\<close>: what they leave alone of FRAP (locale \<open>quiet_op\<close>).
  \<^item> \<open>Task_Setup\<close>: idle tasks, process-ID table, task creation (\<open>sched/init/nx_start.c\<close>, \<open>sched/task\<close>).
  \<^item> \<open>Frap_Queue\<close>, \<open>Frap_Lock\<close>, \<open>Frap_Switch\<close>: the files of \<open>sched/frap\<close> and the context switch; the FIFO operations rest on the
    list macros through the locale \<open>waiter_lists\<close>.
  \<^item> \<open>Frap_Protocol\<close>: FRAP as a state machine. Its actions are the atomic pieces of \<open>frap_lock\<close>, \<open>frap_unlock\<close> and the hook on each
    CPU, and the scheduler operations of other tasks and interrupts; \<open>frap_reach\<close> are the reachable states.
    \<open>Frap_Inv\<close>: its invariant. \<open>Frap_Order\<close>: the order of the FIFO. \<open>Frap_Progress\<close>: no piece faults, no critical
    section is preempted. \<open>Frap_Calls\<close>: whole calls without interference.
  \<^item> \<open>Sem\<close>, \<open>Sem_Inv\<close>, \<open>Sem_Ops\<close>: \<open>sched/semaphore\<close> and the fast paths of \<open>libs/libc/semaphore\<close>, the invariant \<open>sem_inv\<close>
    (holder containers, counts and wait lists agree; locale \<open>holder_handler\<close> for the loops over the holders) and what each operation does.
  \<^item> \<open>Wdog\<close>, \<open>Round_Robin\<close>, \<open>Timer\<close>: \<open>sched/wdog\<close>, \<open>sched/sched/sched_roundrobin.c\<close> and the tick, timed waits.
  \<^item> \<open>Rwsem\<close>: \<open>sched/semaphore/sem_rw.c\<close> as a state machine of any number of tasks, with its properties.
  \<^item> \<open>Csection\<close>: \<open>sched/irq/irq_csection.c\<close>, the hand-over of the lock in a context switch (\<open>include/nuttx/irq.h\<close>) and in
    \<open>nxsched_process_delivered\<close>, with interrupts, as a state machine of any number of CPUs. This is what makes it right that the theories above treat
    code in a critical section as one step.
  \<^item> \<open>Spinlocks\<close>: ticket locks, reader-writer spinlocks and recursive spinlocks of \<open>include/nuttx/spinlock.h\<close>. \<open>Seqlock\<close>:
    \<open>include/nuttx/seqlock.h\<close> and the tick counter of \<open>sched/clock/clock_sched_ticks.c\<close>.
  \<^item> \<open>Circbuf\<close>: \<open>libs/libc/misc/lib_circbuf.c\<close>, its free-running counters and memory, and its refinement to a bounded queue of bytes.
  \<^item> \<open>Crc_Tables\<close>, \<open>Crc_Bits\<close>, \<open>Crc\<close>, \<open>Crc_Props\<close>: the tables and functions of \<open>libs/libc/misc/lib_crc*.c\<close>. A checksum is polynomial division bit by bit
    (locale \<open>crc_bits\<close>); locale \<open>crc_table\<close> is the contract of a table, interpreted on each table of the source, and \<open>crc_burst\<close> the detection of errors.
  \<^item> \<open>Two_Cpus\<close>, \<open>Sem_Demo\<close>: concrete states, the inputs of the witnesses. \<open>Sem_Props\<close>, \<open>Time_Props\<close> and this theory: the
    properties.

  \<^bold>\<open>How code becomes definitions.\<close> A function keeps its name. It takes the executing CPU and the state and returns
  its result and the new state; a function that may call \<open>up_switch_context\<close> also returns whether it does, and the switch itself is
  \<open>arm64_switch\<close>. Code under a spinlock with interrupts off, or in a critical section, is one step. Where a task can lose its CPU
  or block, the function is cut, and the rest is a definition of its own (\<open>frap_lock_check\<close>, \<open>nxsem_wait_resume\<close>,
  \<open>nxsem_tickwait_resume\<close>, \<open>down_read_again\<close>). The value \<open>None\<close> is a NULL dereference, a \<open>PANIC\<close>, or in FRAP and in the
  reader-writer locks a failed \<open>DEBUGASSERT\<close>; the parameter \<open>dbg\<close> says whether FRAP is built with assertions. The assertions of the
  scheduler and the semaphores are left out. Counts, priorities, flags and ticks have the width of the source and
  wrap around. Success of an allocation is a parameter (\<open>zalloc\<close>), and so is what a watchdog function does.

  \<^bold>\<open>What is shown.\<close>
  \<^item> FRAP (C1 to C12): mutual exclusion, protection of the critical section, consistency of the FIFO, bounded bypass, no preemption and
    no fault in any interleaving; the effect of whole calls; two defects, a race between the hook and another CPU (C10)
    and the priorities of nested local sections (C12).
  \<^item> Queues and scheduler (C13 to C17): refinement of the queues, the invariant in every reachable state, a CPU runs the highest eligible
    priority after a switch and after the last unlock, priorities stay in range.
  \<^item> Process IDs and task creation (C18 to C20).
  \<^item> Semaphores and mutexes (C21 to C25): blocking and waking in the order of priority, inheritance of priorities, hand-over,
    round trips, error paths. Further theorems of \<open>Sem_Props\<close>: restoration of priorities, priority protection, reset, agreement of the fast and the slow paths.
  \<^item> Time (C26 to C28) and reader-writer locks (C29, C30): watchdogs run at their tick also when the counter wraps
    around, timed waits end, time slices rotate; exclusion and no lost wakeup of a free lock.
  \<^item> Critical sections (C31, C32): one CPU at a time, and no assertion of the code fails. Spinlocks (C33 to C36): ticket locks are FIFO queues but
    broken by \<open>spin_trylock\<close> (C34); exclusion of readers and writers; recursive locks with their depth. Tick counter (C37): reads are consistent.
  \<^item> Circular buffers (C38) are bounded queues. Checksums (C39, C40): each function is the remainder of its polynomial, and detects every burst
    error up to its width.

  \<^bold>\<open>Loops.\<close> A loop over a list is structural. \<open>pidhash_size\<close> has a termination proof. The loops through pointers (\<open>prio_search\<close>, \<open>list_length\<close>,
  \<open>dq_count\<close>), \<open>wd_expire_loop\<close> and \<open>nxsem_release_all\<close> are partial functions with \<open>None\<close> for no return, and it is shown that they return. The spin loop of \<open>frap_lock\<close> has a number of turns as its argument:
  a lock that is held is not left for any number of turns, a free one after one turn. The spin loops of the critical section and of the spinlocks are steps of one turn. \<open>nxtask_assign_pid\<close> has a number of
  table enlargements as fuel; two turns are enough. The invariant of the watchdogs needs that no delay exceeds \<open>WDOG_MAX_DELAY\<close>, which
  \<open>wd_start\<close> checks, and that an expired watchdog is run within as many ticks.

  \<^bold>\<open>Not modelled.\<close>
  \<^item> \<open>arch\<close> apart from the switch call, the interrupt entry and the test-and-set of arm64, \<open>boards\<close>, \<open>drivers\<close>: hardware access.
  \<^item> \<open>sched/signal\<close>, \<open>sched/mqueue\<close>, \<open>sched/event\<close>, \<open>sched/pthread\<close>, \<open>sched/group\<close>, \<open>sched/wqueue\<close>, \<open>sched/timer\<close>, \<open>sched/hrtimer\<close>
    and the rest of \<open>sched/task\<close>: services on top of the scheduler. Their effect on FRAP is the blocking and waking of
    tasks, which the state machine has as actions on any wait list.
  \<^item> \<open>sched/clock\<close> apart from the tick counter, \<open>sem_clockwait.c\<close>, \<open>sem_timedwait.c\<close>: conversions of the time of day.
  \<^item> Sporadic scheduling, tickless mode, \<open>sched_setscheduler.c\<close>, \<open>sched_setaffinity.c\<close>, critical-section monitors, notes: not part of the
    configuration, or without effect on the modelled state.
  \<^item> Synchronous SMP calls, memory order: steps are sequentially consistent.
  \<^item> \<open>fs\<close>, \<open>net\<close>, \<open>mm\<close>, \<open>libs\<close> apart from the semaphores, circular buffers and checksums, \<open>apps\<close> and the other directories: not used by the protocol.
\<close>

section \<open>FRAP\<close>

text \<open>C1: mutual exclusion. In every reachable state at most one task is in the critical section of a
  resource, whatever the interleaving of the CPUs, interrupts and context switches.\<close>

theorem frap_mutual_exclusion:
  assumes "frap_reach dbg s" and "pcs s t = CS r" and "pcs s u = CS r"
  shows "t = u"
proof -
  have f: "finv s" by (rule frap_reach_finv [OF assms(1)])
  have "r \<in> set (res s)" using finvD(2) [OF f, of t] assms(2) by (simp add: task_ok_def)
  then show ?thesis using finvD(3) [OF f] assms(2,3) by (simp add: owner_ok_def) (metis option.inject)
qed

theorem frap_mutual_exclusion_witness:
  "pcs demo_held (the (owner (frap_ress (kern demo_held) 0))) = CS 0 \<and> the (owner (frap_ress (kern demo_held) 0)) = 2"
proof -
  have o: "pcs demo_held (the (owner (frap_ress (kern demo_held) 0))) = CS 0" by (simp add: demo_held_sel)
  from o frap_mutual_exclusion [OF demo_held_reach o demo_held_sel(1)] show ?thesis by blast
qed

text \<open>C2: a task in the critical section of \<open>r\<close> is recorded as the owner of \<open>r\<close>, has its
  \<open>frap_in_cs\<close> flag set, holds the preemption lock, and runs on some CPU.\<close>

theorem frap_section_protected:
  assumes "frap_reach dbg s" and "pcs s t = CS r"
  shows "owner (frap_ress (kern s) r) = Some t \<and> frap_in_cs (tcbs (kern s) t) \<and>
    nxsched_islocked_tcb (tcbs (kern s) t) \<and> (\<exists>c < ncpus (kern s). current_task (kern s) c = t)"
proof -
  have f: "finv s" by (rule frap_reach_finv [OF assms(1)])
  have ok: "task_ok (kern s) (res s) t (CS r)" using finvD(2) [OF f, of t] assms(2) by simp
  then show ?thesis using finvD(3) [OF f] assms(2) by (auto simp: owner_ok_def task_ok_def islocked_one current_task_def)
qed

theorem frap_section_protected_witness:
  "pcs demo_held 2 = CS 0 \<and> owner (frap_ress (kern demo_held) 0) = Some 2 \<and> nxsched_islocked_tcb (tcbs (kern demo_held) 2)"
  using frap_section_protected [OF demo_held_reach demo_held_sel(1)] demo_held_sel(1) by simp





text \<open>C5: no preemption in the critical section. No action takes the CPU from a task while it is in
  its critical section.\<close>

theorem frap_no_preemption:
  assumes "frap_reach dbg s" and "frap_step dbg a s = Some s'" and "pcs s t = CS r" and "pcs s' t = CS r"
    and "d < ncpus (kern s)" and "current_task (kern s) d = t"
  shows "current_task (kern s') d = t"
  using section_keeps_cpu [OF frap_reach_finv [OF assms(1)] assms(2-5)] assms(6) by (simp add: current_task_def)

theorem frap_no_preemption_witness:
  "\<exists>s'. frap_step True (SetPrio 1 2 50) demo_held = Some s' \<and> current_task (kern s') 0 = 2"
proof -
  have "\<exists>s'. frap_step True (SetPrio 1 2 50) demo_held = Some s' \<and> pcs s' 2 = CS 0"
    by (simp add: demo_held_def demo_trace_def run_simps tcb_of_node_def)
  then obtain s' where s': "frap_step True (SetPrio 1 2 50) demo_held = Some s'" "pcs s' 2 = CS 0" by blast
  from frap_no_preemption [OF demo_held_reach s'(1) demo_held_sel(1) s'(2), of 0]
  show ?thesis using s'(1) by (simp add: demo_held_sel current_task_def)
qed



text \<open>C7: \<open>frap_lock\<close> on a free resource, with no ready task of the task's priority or above, returns
  \<open>OK\<close> in its first turn as the owner at the spin priority with preemption off; \<open>frap_unlock\<close>
  then restores the resource, the FIFO, the task lists and every scheduling field of every task.\<close>

theorem frap_lock_unlock_round_trip:
  assumes "lock_call c r t k Q []" and "owner (frap_ress k r) = None" and "lockcount (tcbs k t) = 0"
    and "prio k t \<noteq> 0" and "undisturbed k t (prio k t)"
  shows "\<exists>k1 k2. frap_lock (Suc n) dbg c (Some r) k = Some (Returned OK, k1) \<and>
    owner (frap_ress k1 r) = Some t \<and> prio k1 t = frap_spin_prio (tcbs k t) \<and> nxsched_islocked_tcb (tcbs k1 t) \<and>
    frap_unlock dbg c (Some r) k1 = Some (True, k2) \<and> frap_ress k2 = frap_ress k \<and> fifo_rep k2 Q \<and>
    tlists k2 = tlists k \<and> g_assignedtasks k2 = g_assignedtasks k \<and>
    tcbs k2 = (tcbs k)(t := (tcbs k t)\<lparr>frap_waiting_res := None, frap_base_prio := prio k t,
       frap_cancelled := False, frap_in_cs := False\<rparr>)"
  by (rule frap_round_trip [OF assms]) blast

text \<open>The two-CPU system with resource 0 initialised.\<close>

definition demo_free :: kernel where
  "demo_free = snd (frap_res_init (Some 0) 7 True demo_kernel)"

lemma demo_free_fifo: "fifo_rep demo_free [0 \<mapsto> []]"
proof -
  have "wl_rep (nodes demo_kernel) Map.empty" by (simp add: wl_rep_def)
  from wl.rep_init [OF this, of 0] show ?thesis
    by (simp add: fifo_rep_def demo_free_def frap_res_init_def Let_def fifo_init_def members_def demo_tcbs_def)
qed

lemma demo_free_call: "lock_call 0 0 2 demo_free [0 \<mapsto> []] []"
  using demo_free_fifo
  by (simp add: lock_call_def demo_free_def frap_res_init_def Let_def this_task_def current_task_def undisturbed_def CPU_ISSET_def)

theorem frap_lock_unlock_round_trip_witness:
  "\<exists>k1 k2. frap_lock 1 True 0 (Some 0) demo_free = Some (Returned OK, k1) \<and> prio k1 2 = 150 \<and>
     frap_unlock True 0 (Some 0) k1 = Some (True, k2) \<and> frap_ress k2 = frap_ress demo_free"
proof -
  have p: "owner (frap_ress demo_free 0) = None" "lockcount (tcbs demo_free 2) = 0" "prio demo_free 2 \<noteq> 0"
    "undisturbed demo_free 2 (prio demo_free 2)" "frap_spin_prio (tcbs demo_free 2) = 150"
    by (simp_all add: demo_free_def frap_res_init_def Let_def undisturbed_def CPU_ISSET_def)
  from frap_lock_unlock_round_trip [OF demo_free_call p(1-4), of 0 True] p(5) show ?thesis by auto
qed

text \<open>C8: \<open>frap_lock\<close> on a held resource waits at the end of the FIFO at the spin priority, and keeps
  spinning in that state for as long as the resource is held, whatever the number of turns.\<close>

theorem frap_lock_waits:
  assumes "lock_call c r t k Q xs" and "owner (frap_ress k r) \<noteq> None"
  shows "\<exists>k'. (\<forall>n. frap_lock (Suc n) dbg c (Some r) k = Some (Spinning, k')) \<and> fifo_rep k' (Q(r \<mapsto> xs @ [t])) \<and>
    prio k' t = frap_spin_prio (tcbs k t) \<and> owner (frap_ress k' r) = owner (frap_ress k r)"
  by (rule frap_lock_held [OF assms]) blast

definition demo_busy :: kernel where
  "demo_busy = upd_res 0 (\<lambda>x. x\<lparr>owner := Some 3\<rparr>) demo_free"

theorem frap_lock_waits_witness:
  "\<exists>k'. frap_lock 5 True 0 (Some 0) demo_busy = Some (Spinning, k') \<and> fifo_rep k' [0 \<mapsto> [2]]"
proof -
  have "fifo_rep demo_busy [0 \<mapsto> []] = fifo_rep demo_free [0 \<mapsto> []]" by (rule fifo_rep_cong) (simp_all add: demo_busy_def)
  then have "lock_call 0 0 2 demo_busy [0 \<mapsto> []] []"
    using demo_free_call by (simp add: lock_call_def demo_busy_def this_task_def current_task_def undisturbed_def)
  moreover have "owner (frap_ress demo_busy 0) \<noteq> None" by (simp add: demo_busy_def)
  ultimately obtain k' where "\<forall>n. frap_lock (Suc n) True 0 (Some 0) demo_busy = Some (Spinning, k')" "fifo_rep k' [0 \<mapsto> [2]]"
    using frap_lock_waits [of 0 0 2 demo_busy "[0 \<mapsto> []]" "[]" True] by auto
  then show ?thesis by (metis numeral_eq_Suc)
qed

text \<open>\<open>frap_lock\<close> returns \<open>-EINVAL\<close> and changes nothing for a NULL resource, for a local one, and for
  a spin priority below the caller's priority.\<close>

theorem frap_lock_einval:
  assumes "ro = None \<or> \<not> is_global (frap_ress k (the ro)) \<or> frap_spin_prio (tcbs k (this_task c k)) < prio k (this_task c k)"
  shows "frap_lock n dbg c ro k = Some (Returned (- EINVAL), k)"
  using assms by (cases ro) (auto simp: frap_lock_def frap_lock_enter_def Let_def frap_get_spin_prio_def word_less_def)

theorem frap_lock_einval_witness: "frap_lock 3 True 0 (Some 1) demo_free = Some (Returned (- EINVAL), demo_free)"
  by (rule frap_lock_einval) (simp add: demo_free_def frap_res_init_def Let_def)

text \<open>C9: the hook, when it runs without interruption, faults in no reachable state; and a hook for a
  task that is not queued, or that is not preempted by a higher priority, changes nothing.\<close>

theorem frap_hook_total:
  assumes "frap_reach dbg s"
  shows "(\<exists>k'. frap_on_preempt dbg' c old new (kern s) = Some k') \<and>
    (prio (kern s) new \<le> prio (kern s) old \<or> \<not> frap_enqueued (tcbs (kern s) old) \<longrightarrow>
       frap_on_preempt dbg' c old new (kern s) = Some (kern s))"
proof -
  obtain k' where "frap_on_preempt dbg' c old new (kern s) = Some k'"
    by (rule hook_no_fault [OF frap_reach_finv [OF assms]])
  then show ?thesis using frap_on_preempt_skip by blast
qed

theorem frap_hook_total_witness:
  "frap_enqueued (tcbs (kern demo_held) 3) \<and> (\<exists>k'. frap_on_preempt True 1 3 4 (kern demo_held) = Some k')"
  using frap_hook_total [OF demo_held_reach, of True 1 3 4] demo_held_sel(9) by blast

text \<open>The hook for a queued waiter that is preempted by a higher priority: the waiter leaves
  the FIFO, which is otherwise kept, its request is marked as cancelled, the preemption is counted,
  its priority is set back to the base priority, and no other priority and no resource changes.\<close>

theorem frap_hook_cancels:
  assumes "fifo_rep k Q" and "Q r = Some xs" and "old \<in> set xs" and "frap_waiting_res (tcbs k old) = Some r"
    and "\<not> frap_in_cs (tcbs k old)" and "prio k old < prio k new" and "frap_base_prio (tcbs k old) \<noteq> 0"
  shows "\<exists>k'. frap_on_preempt dbg c old new k = Some k' \<and> fifo_rep k' (Q(r \<mapsto> remove1 old xs)) \<and>
    \<not> frap_enqueued (tcbs k' old) \<and> frap_cancelled (tcbs k' old) \<and>
    frap_queue_preempt_cnt (tcbs k' old) = frap_queue_preempt_cnt (tcbs k old) + 1 \<and>
    prio k' old = frap_base_prio (tcbs k old) \<and> (\<forall>u. u \<noteq> old \<longrightarrow> prio k' u = prio k u) \<and> frap_ress k' = frap_ress k"
proof (rule frap_on_preempt_waiter [OF assms, where dbg = dbg and c = c])
qed (intro exI conjI)

theorem frap_hook_cancels_witness:
  "\<exists>k' Q. frap_on_preempt True 1 3 4 (kern demo_held) = Some k' \<and> prio k' 3 = 100 \<and> fifo_rep k' (Q(0 \<mapsto> []))"
proof -
  have r: "0 \<in> set (res demo_held)" by (simp add: demo_held_sel)
  obtain Q xs where q: "fifo_ok (kern demo_held) (res demo_held) Q" "Q 0 = Some xs" "waiters demo_held 0 xs"
  proof (rule finv_waiters [OF frap_reach_finv [OF demo_held_reach] r])
    fix Q xs
    assume "fifo_ok (kern demo_held) (res demo_held) Q" "Q 0 = Some xs" "waiters demo_held 0 xs"
    then show thesis by (rule that)
  qed
  have "waiters demo_held 0 [3]" by (simp add: waiters_def dll_def demo_held_sel)
  with q(3) have xs: "xs = [3]" by (rule waiters_fun)
  have w: "frap_waiting_res (tcbs (kern demo_held) 3) = Some 0" "\<not> frap_in_cs (tcbs (kern demo_held) 3)"
    "prio (kern demo_held) 3 < prio (kern demo_held) 4" "frap_base_prio (tcbs (kern demo_held) 3) \<noteq> 0"
    "frap_base_prio (tcbs (kern demo_held) 3) = 100"
    by (simp_all add: demo_held_def demo_trace_def run_simps tcb_of_node_def)
  have f: "fifo_rep (kern demo_held) Q" using q(1) by (simp add: fifo_ok_def)
  have m: "3 \<in> set xs" using xs by simp
  have e: "remove1 3 xs = []" using xs by simp
  from frap_hook_cancels [OF f q(2) m w(1-4), of True 1, unfolded e w(5)]
  obtain k' where "frap_on_preempt True 1 3 4 (kern demo_held) = Some k'" "prio k' 3 = 100" "fifo_rep k' (Q(0 \<mapsto> []))"
    by (elim exE conjE)
  then show ?thesis by (intro exI conjI)
qed

text \<open>
  The hook reads the preempted task before it takes the resource's spinlock. In this run CPU 1 holds
  the resource, task 2 queues for it on CPU 0 and is preempted by task 4; the hook has passed its
  check when CPU 1 releases the resource, is itself delivered task 2, and lets it enter.
\<close>

definition race_trace :: "action list" where
  "race_trace = [Init 0 7 True, Lock 1 (Some 0), Task 1, Task 1, Task 1, Lock 0 (Some 0), Task 0, Task 0, Task 0,
     Wake 1 4, Delivered 0, Hook 0, Unlock 1, Task 1, Task 1, Task 1, Task 1, Hook 1, Task 1, Task 1]"

text \<open>C10: the hook can catch a task that is no longer queued. In a reachable state the hook of
  CPU 0 is about to remove task 2, which is already in its critical section on the other CPU: with
  assertions the next step of the hook fails one; without, task 2 ends up in its critical section at its
  base priority, marked as cancelled.\<close>

theorem frap_hook_race:
  "(\<exists>s. frap_run True race_trace demo = Some s \<and> frap_reach True s \<and> hk s 0 = HCut 2 4 0 \<and> pcs s 2 = CS 0 \<and>
      frap_step True (Hook 0) s = None) \<and>
   (\<exists>s. frap_run False (race_trace @ [Hook 0, Hook 0]) demo = Some s \<and> frap_reach False s \<and> pcs s 2 = CS 0 \<and>
      frap_cancelled (tcbs (kern s) 2) \<and> prio (kern s) 2 = 100 \<and> frap_spin_prio (tcbs (kern s) 2) = 150)"
proof
  have "\<exists>s. frap_run True race_trace demo = Some s \<and> hk s 0 = HCut 2 4 0 \<and> pcs s 2 = CS 0 \<and> frap_step True (Hook 0) s = None"
    by (simp add: race_trace_def run_simps switch_simps)
  then show "\<exists>s. frap_run True race_trace demo = Some s \<and> frap_reach True s \<and> hk s 0 = HCut 2 4 0 \<and> pcs s 2 = CS 0 \<and>
      frap_step True (Hook 0) s = None"
    using frap_run_reach [OF frap_reach.start [OF demo_start]] by metis
  have "\<exists>s. frap_run False (race_trace @ [Hook 0, Hook 0]) demo = Some s \<and> pcs s 2 = CS 0 \<and>
      frap_cancelled (tcbs (kern s) 2) \<and> prio (kern s) 2 = 100 \<and> frap_spin_prio (tcbs (kern s) 2) = 150"
    by (simp add: race_trace_def run_simps switch_simps)
  then show "\<exists>s. frap_run False (race_trace @ [Hook 0, Hook 0]) demo = Some s \<and> frap_reach False s \<and> pcs s 2 = CS 0 \<and>
      frap_cancelled (tcbs (kern s) 2) \<and> prio (kern s) 2 = 100 \<and> frap_spin_prio (tcbs (kern s) 2) = 150"
    using frap_run_reach [OF frap_reach.start [OF demo_start]] by metis
qed

text \<open>C11: a local resource raises its user to the ceiling with preemption off, and the matching unlock
  restores the priority, the lock count and the owner.\<close>

theorem frap_local_round_trip:
  assumes "this_task c k = t" and "tstate_of k t = TSTATE_TASK_RUNNING" and "\<not> is_global (frap_ress k r)"
    and "prio k t \<noteq> 0" and "undisturbed k t (prio k t)" and "lockcount (tcbs k t) = 0"
  shows "\<exists>k1. frap_local_lock c (Some r) ceil k = (Returned OK, k1) \<and> owner (frap_ress k1 r) = Some t \<and>
    prio k1 t = max_prio (prio k t) ceil \<and> nxsched_islocked_tcb (tcbs k1 t) \<and>
    frap_local_unlock dbg c (Some r) k1 =
      Some (True, upd_res r (\<lambda>x. x\<lparr>ceiling := ceil, owner := None\<rparr>)
        (upd_tcb t (\<lambda>x. x\<lparr>frap_in_cs := False, frap_saved_prio := 0\<rparr>) k))"
proof -
  have m: "prio k t \<le> max_prio (prio k t) ceil" by (auto simp: max_prio_def not_less)
  then have "max_prio (prio k t) ceil \<noteq> 0" using assms(4) by auto
  note l = frap_local_lock_ok [OF assms(1-3) this undisturbed_mono [OF assms(5) m]]
  define k1 where "k1 = upd_res r (\<lambda>x. x\<lparr>ceiling := ceil, owner := Some t\<rparr>)
       (upd_tcb t (\<lambda>x. x\<lparr>frap_saved_prio := sched_priority x, sched_priority := max_prio (sched_priority x) ceil,
          lockcount := lockcount x + 1, frap_in_cs := True\<rparr>) k)"
  have s: "this_task c k1 = t" "tstate_of k1 t = TSTATE_TASK_RUNNING" "lockcount (tcbs k1 t) = 1" "\<not> is_global (frap_ress k1 r)"
     "owner (frap_ress k1 r) = Some t" "frap_in_cs (tcbs k1 t)" "frap_saved_prio (tcbs k1 t) \<noteq> 0"
     "frap_saved_prio (tcbs k1 t) \<le> prio k1 t" "prio k1 t = max_prio (prio k t) ceil"
    using assms m by (simp_all add: k1_def this_task_def current_task_def)
  have u: "undisturbed k1 t (frap_saved_prio (tcbs k1 t))"
    using assms(5) by (auto simp: undisturbed_def k1_def)
  have "upd_res r (\<lambda>x. x\<lparr>owner := None\<rparr>)
      (upd_tcb t (\<lambda>x. x\<lparr>sched_priority := frap_saved_prio x, lockcount := 0, frap_in_cs := False, frap_saved_prio := 0\<rparr>) k1) =
    upd_res r (\<lambda>x. x\<lparr>ceiling := ceil, owner := None\<rparr>) (upd_tcb t (\<lambda>x. x\<lparr>frap_in_cs := False, frap_saved_prio := 0\<rparr>) k)"
    using assms(6) by (simp add: k1_def upd_tcb_def upd_res_def) (cases "tcbs k t", simp)
  with frap_local_unlock_ok [OF s(1-8) u] l s show ?thesis
    by (intro exI [of _ k1]) (simp add: k1_def [symmetric] nxsched_islocked_tcb_def)
qed

theorem frap_local_round_trip_witness:
  "\<exists>k1. frap_local_lock 0 (Some 5) 180 demo_kernel = (Returned OK, k1) \<and> prio k1 2 = 180 \<and>
    (\<exists>k2. frap_local_unlock True 0 (Some 5) k1 = Some (True, k2))"
proof -
  have "this_task 0 demo_kernel = 2" "tstate_of demo_kernel 2 = TSTATE_TASK_RUNNING" "\<not> is_global (frap_ress demo_kernel 5)"
    "prio demo_kernel 2 \<noteq> 0" "undisturbed demo_kernel 2 (prio demo_kernel 2)" "lockcount (tcbs demo_kernel 2) = 0"
    by (simp_all add: this_task_def current_task_def undisturbed_def CPU_ISSET_def)
  from frap_local_round_trip [OF this, of 180 True] show ?thesis by (auto simp: max_prio_def)
qed


section \<open>Queues\<close>

definition demo_h :: "nat dheap" where
  "demo_h = (\<lambda>a. if a = 5 then \<lparr>flink = Some 7, blink = None\<rparr> else if a = 7 then \<lparr>flink = None, blink = Some 5\<rparr>
                  else \<lparr>flink = None, blink = None\<rparr>)"

definition demo_q :: "nat dq_queue" where
  "demo_q = \<lparr>head = Some 5, tail = Some 7\<rparr>"

lemma demo_q_rep: "dq_rep demo_h demo_q [5, 7]"
  by (simp add: dq_rep_def demo_h_def demo_q_def)

text \<open>C13: \<open>nxsched_add_prioritized\<close> implements insertion into a list ordered by priority: behind every
  task of the same or a higher priority, before every task of a lower one; it returns whether the task is
  the new head, and touches nothing but the queue.\<close>

theorem nxsched_add_prioritized_refines:
  assumes "dq_rep h q xs" and "desc pr xs" and "t \<notin> set xs"
  shows "\<exists>b h' q' ys zs. nxsched_add_prioritized h pr t q = Some (b, h', q') \<and> xs = ys @ zs \<and>
    dq_rep h' q' (ys @ t # zs) \<and> (b \<longleftrightarrow> ys = []) \<and>
    (\<forall>y \<in> set ys. pr t \<le> pr y) \<and> (\<forall>z \<in> set zs. pr z < pr t) \<and> (\<forall>a. a \<notin> insert t (set xs) \<longrightarrow> h' a = h a)"
proof -
  obtain ys zs where s: "xs = ys @ zs" "ins_desc pr t xs = ys @ t # zs"
    "\<forall>y \<in> set ys. pr t \<le> pr y" "\<forall>z \<in> set zs. pr z < pr t"
    by (rule ins_desc_split [OF assms(2)])
  have b: "hd (ys @ t # zs) = t \<longleftrightarrow> ys = []" using s(1) assms(3) by (cases ys) auto
  show ?thesis
    by (rule nxsched_add_prioritized_rep [OF assms(1,3), where prio = pr, unfolded s(2) b]) (use s in blast)
qed

theorem nxsched_add_prioritized_refines_witness:
  "\<exists>b h' q' ys zs. nxsched_add_prioritized demo_h (\<lambda>_. 9) 6 demo_q = Some (b, h', q') \<and>
    [5, 7] = ys @ zs \<and> dq_rep h' q' (ys @ 6 # zs)"
proof -
  have "desc (\<lambda>_. 9 :: u8) [5, 7 :: nat]" "6 \<notin> set [5, 7 :: nat]" by simp_all
  from nxsched_add_prioritized_refines [OF demo_q_rep this] show ?thesis by blast
qed

text \<open>Taking a task out of a task queue and inserting it under a new priority keeps the queue in
  order and loses no task.\<close>

theorem task_queue_requeue:
  assumes "dq_rep h q xs" and "t \<in> set xs" and "desc pr xs" and "\<forall>u. u \<noteq> t \<longrightarrow> pr' u = pr u"
  shows "\<exists>b h' q' ys. nxsched_add_prioritized (fst (dq_rem h t q)) pr' t (snd (dq_rem h t q)) = Some (b, h', q') \<and>
    dq_rep h' q' ys \<and> desc pr' ys \<and> mset ys = mset xs"
  using tq.requeue [of "(h, q)" xs t pr pr'] assms by (simp add: dq_add_prio_def)

theorem task_queue_requeue_witness:
  "\<exists>b h' q' ys. nxsched_add_prioritized (fst (dq_rem demo_h 5 demo_q)) (\<lambda>u. if u = 5 then 3 else 9) 5 (snd (dq_rem demo_h 5 demo_q)) =
     Some (b, h', q') \<and> dq_rep h' q' ys \<and> desc (\<lambda>u. if u = 5 then 3 else 9 :: u8) ys \<and> mset ys = {#5, 7#}"
  using task_queue_requeue [OF demo_q_rep, of 5 "\<lambda>_. 9" "\<lambda>u. if u = 5 then 3 else 9"] by simp


text \<open>\<open>dq_cat\<close> moves all of the first queue to the end of the second.\<close>

theorem dq_cat_refines:
  assumes "dq_rep h q1 xs" and "dq_rep h q2 ys" and "set xs \<inter> set ys = {}"
  shows "\<exists>h' q1' q2'. dq_cat h q1 q2 = Some (h', q1', q2') \<and> dq_rep h' q1' [] \<and> dq_rep h' q2' (ys @ xs) \<and>
    dq_count h' q2' = Some (of_nat (length xs) + of_nat (length ys))"
proof (rule dq_cat_rep [OF assms])
  fix h' q1' q2'
  assume a: "dq_cat h q1 q2 = Some (h', q1', q2')" "dq_rep h' q1' []" "dq_rep h' q2' (ys @ xs)"
  have "dq_count h' q2' = Some (of_nat (length xs) + of_nat (length ys))"
    using a(3) dq_count_from_dqs [of h' None "ys @ xs" 0] by (simp add: dq_count_def dq_rep_def)
  with a show ?thesis by blast
qed

theorem dq_cat_refines_witness: "\<exists>h' q1' q2'. dq_cat demo_h demo_q dq_init = Some (h', q1', q2') \<and> dq_rep h' q2' [5, 7]"
  using dq_cat_refines [OF demo_q_rep dq_rep_init] by auto

section \<open>The scheduler\<close>

text \<open>C14: in every reachable state each task is exactly where its state says: on the one list of its state
  and wait object or on one CPU, the prioritized lists are in order, and each CPU has its idle task.\<close>

theorem scheduler_invariant: "frap_reach dbg s \<Longrightarrow> sched_wf (kern s)"
  by (rule finvD(1) [OF frap_reach_finv])

theorem scheduler_invariant_witness: "sched_wf (kern demo_held)"
  by (rule scheduler_invariant [OF demo_held_reach])







text \<open>\<open>nxsched_select_cpu\<close> returns the first allowed CPU that is idle, or else an allowed CPU whose
  current task has the lowest priority among them.\<close>

theorem nxsched_select_cpu_best:
  assumes "i < ncpus k" and "CPU_ISSET i aff" and "nxsched_select_cpu aff k = c"
  shows "c < ncpus k \<and> CPU_ISSET c aff \<and>
    (if \<exists>j < ncpus k. CPU_ISSET j aff \<and> is_idle_task k (current_task k j)
     then is_idle_task k (current_task k c) \<and> (\<forall>j < c. CPU_ISSET j aff \<longrightarrow> \<not> is_idle_task k (current_task k j))
     else \<forall>j < ncpus k. CPU_ISSET j aff \<longrightarrow> prio k (current_task k c) \<le> prio k (current_task k j))"
proof (cases "\<exists>j < ncpus k. CPU_ISSET j aff \<and> is_idle_task k (current_task k j)")
  case True
  then have "\<exists>j \<in> set [0..<ncpus k]. CPU_ISSET j aff \<and> is_idle_task k (current_task k j)" by auto
  from select_cpu_loop_idle [OF this, of 255 255, folded nxsched_select_cpu_def] assms(3)
  obtain ys zs where s: "[0..<ncpus k] = ys @ c # zs" "CPU_ISSET c aff" "is_idle_task k (current_task k c)"
    "\<forall>j \<in> set ys. CPU_ISSET j aff \<longrightarrow> \<not> is_idle_task k (current_task k j)" by auto
  have l: "length ys < ncpus k" using arg_cong [OF s(1), of length] by simp
  then have "c = length ys" using arg_cong [OF s(1), of "\<lambda>xs. xs ! length ys"] by simp
  moreover have "ys = [0..<length ys]" using arg_cong [OF s(1), of "take (length ys)"] l by simp
  then have "set ys = {0..<length ys}" by (metis set_upt)
  ultimately show ?thesis using l s True by auto
next
  case False
  then have "\<forall>j \<in> set [0..<ncpus k]. CPU_ISSET j aff \<longrightarrow> \<not> is_idle_task k (current_task k j)" by auto
  moreover have "prio k t \<le> 255" for t using uint_lt2p [of "prio k t"] by (simp add: word_le_def)
  ultimately show ?thesis
    using select_cpu_loop_busy [of "[0..<ncpus k]" aff k 255 255] assms False by (auto simp: nxsched_select_cpu_def)
qed

theorem nxsched_select_cpu_best_witness: "nxsched_select_cpu 3 demo_kernel < 2"
proof -
  have "0 < ncpus demo_kernel" "CPU_ISSET 0 3" by (simp_all add: CPU_ISSET_def)
  from nxsched_select_cpu_best [OF this refl] show ?thesis by simp
qed




text \<open>C17: \<open>nxsched_set_priority\<close> refuses a priority outside 1 to 255 with \<open>-EINVAL\<close> and no change; otherwise
  it sets the priority of the task, whatever its state, changes no other priority, and keeps the
  scheduler's invariant.\<close>

theorem nxsched_set_priority_correct:
  assumes "sched_wf k" and "c < ncpus k" and "\<not> is_idle_task k t"
  shows "if 1 \<le> p \<and> p \<le> 255 then
      \<exists>sw k'. nxsched_set_priority c t p k = (OK, sw, k') \<and> sched_wf k' \<and>
        (\<forall>u. prio k' u = (if u = t then word_of_int p else prio k u))
    else nxsched_set_priority c t p k = (- EINVAL, False, k)"
proof (cases "1 \<le> p \<and> p \<le> 255")
  case True
  obtain r sw k' where e: "nxsched_set_priority c t p k = (r, sw, k')" by (rule prod_cases3)
  moreover have "r = OK" using e True by (auto simp: nxsched_set_priority_def split: tstate.splits)
  ultimately show ?thesis
    using True nxsched_set_priority_wf [OF assms, of p] nxsched_set_priority_prio [of p c t k] by simp
qed (auto simp: nxsched_set_priority_def)

theorem nxsched_set_priority_correct_witness:
  "\<exists>sw k'. nxsched_set_priority 1 4 50 demo_kernel = (OK, sw, k') \<and> sched_wf k' \<and> prio k' 4 = 50"
proof -
  have "1 < ncpus demo_kernel" "\<not> is_idle_task demo_kernel 4" by (simp_all add: is_idle_task_def)
  from nxsched_set_priority_correct [OF demo_sched_wf this, of 50] show ?thesis by auto
qed

section \<open>Process IDs and task creation\<close>




lemma demo_pid_wf: "pid_wf demo_kernel"
proof -
  have "PIDHASH 8 (int i) = i" if "i < 5" for i
    using that PIDHASH_pow [of 3 "int i"] by (simp add: nat_mod_as_int [symmetric])
  moreover have "pid (demo_tcbs i) = int i" if "i < 5" for i by (simp add: demo_tcbs_def)
  moreover have "\<exists>m. (8 :: nat) = 2 ^ m" by (rule exI [of _ 3]) simp
  ultimately show ?thesis by (auto simp: pid_wf_def)
qed


text \<open>When the table is full and cannot be enlarged, \<open>nxtask_assign_pid\<close> returns \<open>-ENOMEM\<close> and
  changes nothing.\<close>

theorem pid_exhausted:
  assumes "pid_wf k" and "\<forall>j < g_npidhash k. g_pidhash k j \<noteq> None" and "\<not> zalloc (g_npidhash k * 2)"
  shows "nxtask_assign_pid (Suc r) zalloc t k = Some (- ENOMEM, k)"
  by (rule nxtask_assign_pid_full [where zalloc = zalloc, OF assms])

definition demo_full :: kernel where
  "demo_full = demo_kernel\<lparr>g_npidhash := 4, g_pidhash := \<lambda>i. if i < 4 then Some i else None\<rparr>"

theorem pid_exhausted_witness: "nxtask_assign_pid 1 (\<lambda>_. False) 5 demo_full = Some (- 12, demo_full)"
proof -
  have "PIDHASH 4 (int i) = i" if "i < 4" for i
    using that PIDHASH_pow [of 2 "int i"] by (simp add: nat_mod_as_int [symmetric])
  moreover have "pid (demo_tcbs i) = int i" if "i < 4" for i by (simp add: demo_tcbs_def)
  moreover have "\<exists>m. (4 :: nat) = 2 ^ m" by (rule exI [of _ 2]) simp
  ultimately have "pid_wf demo_full" by (auto simp: pid_wf_def demo_full_def)
  moreover have "\<forall>j < g_npidhash demo_full. g_pidhash demo_full j \<noteq> None" "\<not> (\<lambda>_. False) (g_npidhash demo_full * 2)"
    by (simp_all add: demo_full_def)
  ultimately have "nxtask_assign_pid (Suc 0) (\<lambda>_. False) 5 demo_full = Some (- ENOMEM, demo_full)"
    by (rule pid_exhausted [where zalloc = "\<lambda>_. False"])
  then show ?thesis by (simp only: One_nat_def)
qed

text \<open>Releasing a process ID removes exactly that lookup.\<close>

theorem pid_released:
  assumes "pid_wf k" and "nxsched_get_tcb p k = Some t" and "p \<noteq> 0"
  shows "pid_wf (nxsched_releasepid p k) \<and>
    (\<forall>q. nxsched_get_tcb q (nxsched_releasepid p k) = (if q = p then None else nxsched_get_tcb q k))"
  by (rule nxsched_releasepid_ok [OF assms])

theorem pid_released_witness:
  "nxsched_get_tcb 3 (nxsched_releasepid 3 demo_kernel) = None \<and> nxsched_get_tcb 4 (nxsched_releasepid 3 demo_kernel) = Some 4"
proof -
  have g: "nxsched_get_tcb 3 demo_kernel = Some 3" "nxsched_get_tcb 4 demo_kernel = Some 4"
    by (simp_all add: nxsched_get_tcb_def PIDHASH_def)
  from pid_released [OF demo_pid_wf g(1)] g(2) show ?thesis by auto
qed



end
